(* ===== verification/Prelude.thy ===== *)
theory Prelude
  imports Main "HOL-Library.Word"
begin

text \<open>
  Shared vocabulary of the development: the machine types of the C++ sources, the two ways a
  call can leave normal control flow, the little-endian image of an integer in memory, and the
  result type of the stream parsers with its sequencing laws.  The interface of a stream parser
  and of a framing protocol are the locales \<open>stream_parser\<close> and \<open>framing\<close>; the TCP message
  handler and the parser of \<open>event-tcp\<close> are interpretations of them.
\<close>

section \<open>Machine types and failures\<close>

type_synonym byte = "8 word"
type_synonym u16 = "16 word"
type_synonym u32 = "32 word"
type_synonym u64 = "64 word"

text \<open>
  \<open>MsException\<close> is a thrown \<open>std::runtime_error\<close> (what \<open>MS_LOG(EXCEPTION)\<close> and
  \<open>MS_EXCEPTION_IF_NULL\<close> do); \<open>Undefined\<close> is behaviour the C++ standard leaves undefined (a
  write outside an array, a null dereference, a missing return).  The string names the place.
\<close>

datatype exn = MsException string | Undefined string

text \<open>A signed 32-bit register: the value of \<open>x\<close> after wrap-around.\<close>

definition int32 :: "int \<Rightarrow> int" where
  "int32 x = sint (word_of_int x :: u32)"

named_theorems rx_simps \<open>sequencing of parser results\<close>
named_theorems codec_simps \<open>bytes of integers and back\<close>

lemma int32_id: "- (2 ^ 31) \<le> x \<Longrightarrow> x < 2 ^ 31 \<Longrightarrow> int32 x = x"
  by (simp add: int32_def signed_of_int signed_take_bit_int_eq_self)

section \<open>The bytes of an integer\<close>

primrec le_bytes :: "nat \<Rightarrow> nat \<Rightarrow> byte list" where
  "le_bytes 0 x = []"
| "le_bytes (Suc n) x = word_of_nat (x mod 256) # le_bytes n (x div 256)"

primrec le_nat :: "byte list \<Rightarrow> nat" where
  "le_nat [] = 0"
| "le_nat (b # bs) = unat b + 256 * le_nat bs"

lemma length_le_bytes [simp]: "length (le_bytes n x) = n"
  by (induction n arbitrary: x) auto

lemma le_bytes_numeral [codec_simps]:
  "le_bytes (numeral k) x = word_of_nat (x mod 256) # le_bytes (pred_numeral k) (x div 256)"
  by (simp only: numeral_eq_Suc [of k] le_bytes.simps)

lemma le_nat_le_bytes [codec_simps]: "x < 256 ^ n \<Longrightarrow> le_nat (le_bytes n x) = x"
proof (induction n arbitrary: x)
  case 0
  then show ?case by simp
next
  case (Suc n)
  from Suc.prems have "x div 256 < 256 ^ n"
    by (simp add: less_mult_imp_div_less mult.commute)
  then have "le_nat (le_bytes n (x div 256)) = x div 256"
    by (rule Suc.IH)
  moreover have "unat (word_of_nat (x mod 256) :: byte) = x mod 256"
    by (simp add: unat_of_nat)
  ultimately show ?case by simp
qed

lemma le_nat_u32 [codec_simps]: "word_of_nat (le_nat (le_bytes 4 (unat w))) = (w :: u32)"
  using unsigned_less [of w, where ?'a = nat] by (simp add: le_nat_le_bytes)

lemma le_nat_u64 [codec_simps]: "word_of_nat (le_nat (le_bytes 8 (unat w))) = (w :: u64)"
  using unsigned_less [of w, where ?'a = nat] by (simp add: le_nat_le_bytes)

section \<open>Results of stream parsers\<close>

text \<open>
  Feeding bytes to a parser yields the messages it delivered to its callback, in order, and then
  either a failure or the next state.  Messages delivered before a failure stay delivered.
\<close>

type_synonym ('e, 's, 'm) rx = "'m list \<times> ('e + 's)"

definition rx_bind :: "('e, 's, 'm) rx \<Rightarrow> ('s \<Rightarrow> ('e, 't, 'm) rx) \<Rightarrow> ('e, 't, 'm) rx" where
  "rx_bind r f = (case r of (ms, Inl e) \<Rightarrow> (ms, Inl e)
     | (ms, Inr s) \<Rightarrow> (case f s of (ms', r') \<Rightarrow> (ms @ ms', r')))"

primrec rx_fold :: "('s \<Rightarrow> 'b \<Rightarrow> ('e, 's, 'm) rx) \<Rightarrow> 's \<Rightarrow> 'b list \<Rightarrow> ('e, 's, 'm) rx" where
  "rx_fold f s [] = ([], Inr s)"
| "rx_fold f s (b # bs) = rx_bind (f s b) (\<lambda>s'. rx_fold f s' bs)"

lemma rx_bind_Inl [simp]: "rx_bind (ms, Inl e) f = (ms, Inl e)"
  by (simp add: rx_bind_def)

lemma rx_bind_Inr [rx_simps]: "rx_bind (ms, Inr s) f = (ms @ fst (f s), snd (f s))"
  by (simp add: rx_bind_def split: prod.splits)

lemma rx_bind_return [simp]: "rx_bind ([], Inr s) f = f s"
  by (simp add: rx_simps)

lemma rx_bind_unit [simp]: "rx_bind r (\<lambda>s. ([], Inr s)) = r"
  by (cases r; cases "snd r") (auto simp: rx_bind_def)

lemma rx_bind_assoc: "rx_bind (rx_bind r f) g = rx_bind r (\<lambda>s. rx_bind (f s) g)"
  by (cases r; cases "snd r") (auto simp: rx_bind_def split: prod.splits sum.splits)

lemma rx_bind_cong_Inr:
  "(\<And>ms s. r = (ms, Inr s) \<Longrightarrow> f s = g s) \<Longrightarrow> rx_bind r f = rx_bind r g"
  by (cases r; cases "snd r") (auto simp: rx_bind_def)

lemma rx_fold_append [rx_simps]:
  "rx_fold f s (xs @ ys) = rx_bind (rx_fold f s xs) (\<lambda>s'. rx_fold f s' ys)"
  by (induction xs arbitrary: s) (auto simp: rx_bind_assoc)

lemma rx_fold_inv:
  assumes step: "\<And>s b ms s'. I s \<Longrightarrow> f s b = (ms, Inr s') \<Longrightarrow> I s'"
  shows "I s \<Longrightarrow> rx_fold f s bs = (ms, Inr s') \<Longrightarrow> I s'"
proof (induction bs arbitrary: s ms)
  case Nil
  then show ?case by simp
next
  case (Cons b bs)
  obtain ms1 r where fb: "f s b = (ms1, r)" by (cases "f s b") auto
  show ?case
  proof (cases r)
    case (Inl e)
    with fb Cons.prems show ?thesis by simp
  next
    case (Inr s1)
    with fb step Cons.prems(1) have "I s1" by blast
    moreover from fb Inr Cons.prems(2) have "rx_fold f s1 bs = (fst (rx_fold f s1 bs), Inr s')"
      by (cases "rx_fold f s1 bs") (auto simp: rx_simps)
    ultimately show ?thesis using Cons.IH by blast
  qed
qed

section \<open>The interface of a stream parser\<close>

text \<open>
  A parser is fed chunks as the network delivers them.  Its contract is that a chunk has the
  effect of its bytes one by one; then the way a stream is cut into chunks does not matter.
\<close>

locale stream_parser =
  fixes feed :: "'s \<Rightarrow> 'b list \<Rightarrow> ('e, 's, 'm) rx"
    and byte_step :: "'s \<Rightarrow> 'b \<Rightarrow> ('e, 's, 'm) rx"
    and chunk_ok :: "'b list \<Rightarrow> bool"
    and inv :: "'s \<Rightarrow> bool"
  assumes feed_bytes: "inv s \<Longrightarrow> chunk_ok xs \<Longrightarrow> feed s xs = rx_fold byte_step s xs"
    and step_inv: "inv s \<Longrightarrow> byte_step s b = (ms, Inr s') \<Longrightarrow> inv s'"
begin

lemma fold_inv: "inv s \<Longrightarrow> rx_fold byte_step s bs = (ms, Inr s') \<Longrightarrow> inv s'"
  by (erule rx_fold_inv [where f = byte_step, rotated]) (use step_inv in blast)+

lemma chunks_as_bytes:
  "inv s \<Longrightarrow> list_all chunk_ok cs \<Longrightarrow> rx_fold feed s cs = rx_fold byte_step s (concat cs)"
proof (induction cs arbitrary: s)
  case Nil
  then show ?case by simp
next
  case (Cons c cs)
  then have "feed s c = rx_fold byte_step s c" by (simp add: feed_bytes)
  moreover have "rx_fold feed s' cs = rx_fold byte_step s' (concat cs)"
    if "rx_fold byte_step s c = (ms, Inr s')" for ms s'
    using Cons.IH [of s'] Cons.prems fold_inv [OF Cons.prems(1) that] by simp
  ultimately show ?case
    by (auto simp: rx_simps intro: rx_bind_cong_Inr)
qed

lemma chunking_irrelevant:
  "inv s \<Longrightarrow> list_all chunk_ok cs \<Longrightarrow> list_all chunk_ok ds \<Longrightarrow> concat cs = concat ds \<Longrightarrow>
   rx_fold feed s cs = rx_fold feed s ds"
  by (simp add: chunks_as_bytes)

end

text \<open>
  A framing protocol adds an encoder: from an idle state the bytes of one well-formed message
  deliver exactly that message and leave the parser idle.
\<close>

locale framing = stream_parser feed byte_step chunk_ok inv
  for feed :: "'s \<Rightarrow> 'b list \<Rightarrow> ('e, 's, 'm) rx" and byte_step chunk_ok inv +
  fixes encode :: "'m \<Rightarrow> 'b list"
    and wf_msg :: "'m \<Rightarrow> bool"
    and idle :: "'s \<Rightarrow> bool"
  assumes idle_inv: "idle s \<Longrightarrow> inv s"
    and encode_step: "idle s \<Longrightarrow> wf_msg m \<Longrightarrow>
          \<exists>s'. idle s' \<and> rx_fold byte_step s (encode m) = ([m], Inr s')"
begin

lemma encoded_bytes:
  "idle s \<Longrightarrow> list_all wf_msg ms \<Longrightarrow>
   \<exists>s'. idle s' \<and> rx_fold byte_step s (concat (map encode ms)) = (ms, Inr s')"
proof (induction ms arbitrary: s)
  case Nil
  then show ?case by auto
next
  case (Cons m ms)
  then obtain s1 where s1: "idle s1" "rx_fold byte_step s (encode m) = ([m], Inr s1)"
    using encode_step by force
  with Cons obtain s2
    where "idle s2" "rx_fold byte_step s1 (concat (map encode ms)) = (ms, Inr s2)"
    by force
  with s1 show ?case by (auto simp: rx_simps)
qed

lemma frames_delivered:
  assumes "idle s" "list_all wf_msg ms" "list_all chunk_ok cs"
    and "concat cs = concat (map encode ms)"
  shows "\<exists>s'. idle s' \<and> rx_fold feed s cs = (ms, Inr s')"
  using assms encoded_bytes [of s ms] by (simp add: chunks_as_bytes idle_inv)

end

text \<open>
  A parser that is a member of an object: the object's read handler runs the parser on the
  member and stores it back.
\<close>

definition rx_embed ::
  "('c \<Rightarrow> 's) \<Rightarrow> ('s \<Rightarrow> 'c \<Rightarrow> 'c) \<Rightarrow> ('s \<Rightarrow> 'b \<Rightarrow> ('e, 's, 'm) rx) \<Rightarrow> 'c \<Rightarrow> 'b \<Rightarrow> ('e, 'c, 'm) rx" where
  "rx_embed get put f c x = rx_bind (f (get c) x) (\<lambda>s. ([], Inr (put s c)))"

locale embedded_parser = framing feed byte_step chunk_ok inv encode wf_msg idle
  for feed :: "'s \<Rightarrow> 'b list \<Rightarrow> ('e, 's, 'm) rx" and byte_step chunk_ok inv encode wf_msg idle +
  fixes get :: "'c \<Rightarrow> 's" and put :: "'s \<Rightarrow> 'c \<Rightarrow> 'c"
  assumes get_put: "get (put s c) = s"
    and put_put: "put s (put s' c) = put s c"
    and put_get: "put (get c) c = c"
begin

lemma embed_fold:
  "rx_fold (rx_embed get put byte_step) c bs = rx_bind (rx_fold byte_step (get c) bs) (\<lambda>s. ([], Inr (put s c)))"
proof (induction bs arbitrary: c)
  case Nil
  then show ?case by (simp add: put_get)
next
  case (Cons b bs)
  then show ?case by (simp add: rx_embed_def rx_bind_assoc get_put put_put)
qed

lemma embed_Inr:
  "rx_embed get put f c x = (ms, Inr c') \<longleftrightarrow> (\<exists>s. f (get c) x = (ms, Inr s) \<and> c' = put s c)"
  by (cases "f (get c) x"; cases "snd (f (get c) x)") (auto simp: rx_embed_def rx_bind_def)

end

sublocale embedded_parser \<subseteq> embedded: framing "rx_embed get put feed" "rx_embed get put byte_step" chunk_ok
  "\<lambda>c. inv (get c)" encode wf_msg "\<lambda>c. idle (get c)"
proof unfold_locales
  show "rx_embed get put feed c xs = rx_fold (rx_embed get put byte_step) c xs"
    if "inv (get c)" "chunk_ok xs" for c xs
    using that by (simp add: embed_fold rx_embed_def feed_bytes)
  show "inv (get c')" if "inv (get c)" "rx_embed get put byte_step c b = (ms, Inr c')" for c b ms c'
    using that step_inv by (auto simp: embed_Inr get_put)
  show "inv (get c)" if "idle (get c)" for c
    using that by (rule idle_inv)
  show "\<exists>c'. idle (get c') \<and> rx_fold (rx_embed get put byte_step) c (encode m) = ([m], Inr c')"
    if "idle (get c)" "wf_msg m" for c m
    using encode_step [OF that] by (force simp: embed_fold rx_simps get_put)
qed

section \<open>The interface of a component with operations\<close>

text \<open>
  Several components are a state with operations that other threads call in any order.  A run is
  a sequence of calls; it stops at the first call that throws.  The contract is an invariant
  every operation keeps, and for progress facts a relation between the states before and after
  that every operation respects.
\<close>

primrec run :: "('l \<Rightarrow> 's \<Rightarrow> 'e + 's) \<Rightarrow> 'l list \<Rightarrow> 's \<Rightarrow> 'e + 's" where
  "run exec [] s = Inr s"
| "run exec (l # ls) s = (case exec l s of Inl e \<Rightarrow> Inl e | Inr s' \<Rightarrow> run exec ls s')"

lemma run_append: "run exec (ls @ ks) s = (case run exec ls s of Inl e \<Rightarrow> Inl e | Inr s' \<Rightarrow> run exec ks s')"
  by (induction ls arbitrary: s) (auto split: sum.splits)

locale component =
  fixes exec :: "'l \<Rightarrow> 's \<Rightarrow> 'e + 's"
    and inv :: "'s \<Rightarrow> bool"
    and mono :: "'s \<Rightarrow> 's \<Rightarrow> bool"
  assumes exec_inv: "inv s \<Longrightarrow> exec l s = Inr s' \<Longrightarrow> inv s'"
    and exec_mono: "inv s \<Longrightarrow> exec l s = Inr s' \<Longrightarrow> mono s s'"
    and mono_refl: "mono s s"
    and mono_trans: "mono s s' \<Longrightarrow> mono s' s'' \<Longrightarrow> mono s s''"
begin

lemma run_inv: "inv s \<Longrightarrow> run exec ls s = Inr s' \<Longrightarrow> inv s'"
  by (induction ls arbitrary: s) (auto split: sum.splits intro: exec_inv)

lemma run_mono: "inv s \<Longrightarrow> run exec ls s = Inr s' \<Longrightarrow> mono s s'"
proof (induction ls arbitrary: s)
  case Nil
  then show ?case by (simp add: mono_refl)
next
  case (Cons l ls)
  then obtain s1 where "exec l s = Inr s1" "run exec ls s1 = Inr s'" by (auto split: sum.splits)
  with Cons show ?case by (blast intro: exec_inv exec_mono mono_trans)
qed

end

end
