(* ===== verification/Securec.thy ===== *)
theory Securec
  imports Prelude
begin

text \<open>
  The bounds-checked memory routines of \<open>src/log/utils\<close>: \<open>memcpy_s\<close>, \<open>memset_s\<close>,
  \<open>memmove_s\<close> with their error handlers and the hand-unrolled fast paths, over an explicit
  byte memory.  The unrolled switches are shown to equal the plain copy, the return values are
  shown to follow the table in the comments, and nothing outside the destination is written.
  The last section gives the callers of this development a buffer-level view of
  \<open>memcpy_s\<close> and the interface \<open>checked_copy\<close>.
\<close>

section \<open>Memory\<close>

text \<open>
  An address is a natural number, address 0 is \<open>NULL\<close>.  Objects lie inside the address space, so
  \<open>p + count\<close> does not wrap.
\<close>

type_synonym mem = "nat \<Rightarrow> byte"

definition read_bytes :: "mem \<Rightarrow> nat \<Rightarrow> nat \<Rightarrow> byte list" where
  "read_bytes m p n = map m [p..<p + n]"

definition write_bytes :: "mem \<Rightarrow> nat \<Rightarrow> byte list \<Rightarrow> mem" where
  "write_bytes m p bs = (\<lambda>a. if p \<le> a \<and> a < p + length bs then bs ! (a - p) else m a)"

text \<open>The C library's \<open>memcpy\<close>, \<open>memset\<close> and \<open>memmove\<close>.\<close>

definition libc_memcpy :: "mem \<Rightarrow> nat \<Rightarrow> nat \<Rightarrow> nat \<Rightarrow> mem" where
  "libc_memcpy m dest src count = write_bytes m dest (read_bytes m src count)"

definition libc_memset :: "mem \<Rightarrow> nat \<Rightarrow> int \<Rightarrow> nat \<Rightarrow> mem" where
  "libc_memset m dest c count = write_bytes m dest (replicate count (word_of_int c))"

definition libc_memmove :: "mem \<Rightarrow> nat \<Rightarrow> nat \<Rightarrow> nat \<Rightarrow> mem" where
  "libc_memmove m dest src count = write_bytes m dest (read_bytes m src count)"

section \<open>Error codes and parameter checks\<close>

abbreviation (input) NULL :: nat where "NULL \<equiv> 0"

definition EOK :: int where "EOK = 0"
definition EINVAL :: int where "EINVAL = 22"
definition EINVAL_AND_RESET :: int where "EINVAL_AND_RESET = 22 + 128"
definition ERANGE :: int where "ERANGE = 34"
definition ERANGE_AND_RESET :: int where "ERANGE_AND_RESET = 34 + 128"
definition EOVERLAP_AND_RESET :: int where "EOVERLAP_AND_RESET = 54 + 128"

definition SECUREC_MEM_MAX_LEN :: nat where "SECUREC_MEM_MAX_LEN = 0x7fffffff"

definition SECUREC_MEMORY_NO_OVERLAP :: "nat \<Rightarrow> nat \<Rightarrow> nat \<Rightarrow> bool" where
  "SECUREC_MEMORY_NO_OVERLAP dest src count \<longleftrightarrow>
     (src < dest \<and> src + count \<le> dest) \<or> (dest < src \<and> dest + count \<le> src)"

definition SECUREC_MEMCPY_PARAM_OK :: "nat \<Rightarrow> nat \<Rightarrow> nat \<Rightarrow> nat \<Rightarrow> bool" where
  "SECUREC_MEMCPY_PARAM_OK dest destMax src count \<longleftrightarrow>
     count \<le> destMax \<and> dest \<noteq> NULL \<and> src \<noteq> NULL \<and> destMax \<le> SECUREC_MEM_MAX_LEN \<and>
     count > 0 \<and> SECUREC_MEMORY_NO_OVERLAP dest src count"

definition SECUREC_MEMSET_PARAM_OK :: "nat \<Rightarrow> nat \<Rightarrow> nat \<Rightarrow> bool" where
  "SECUREC_MEMSET_PARAM_OK dest destMax count \<longleftrightarrow>
     count \<le> destMax \<and> dest \<noteq> NULL \<and> destMax \<le> SECUREC_MEM_MAX_LEN"

definition SecIsAddrAligned8 :: "nat \<Rightarrow> nat" where
  "SecIsAddrAligned8 addr = addr mod 8"

section \<open>memcpy\<close>

definition SecDoMemcpy :: "mem \<Rightarrow> nat \<Rightarrow> nat \<Rightarrow> nat \<Rightarrow> mem" where
  "SecDoMemcpy m dest src count = libc_memcpy m dest src count"

text \<open>
  Assignment of the structure \<open>SecStrBufN\<close> (an array of N bytes) loads the source first and
  then stores it.
\<close>

definition struct_assign :: "nat \<Rightarrow> mem \<Rightarrow> nat \<Rightarrow> nat \<Rightarrow> mem" where
  "struct_assign N m dest src = write_bytes m dest (read_bytes m src N)"

text \<open>\<open>*(tmpDest++) = *(tmpSrc++)\<close>, executed \<open>k\<close> times: entry \<open>case k\<close> and its fall-through.\<close>

primrec fall_through_copy :: "nat \<Rightarrow> mem \<Rightarrow> nat \<Rightarrow> nat \<Rightarrow> mem" where
  "fall_through_copy 0 m tmpDest tmpSrc = m"
| "fall_through_copy (Suc k) m tmpDest tmpSrc =
     fall_through_copy k (m(tmpDest := m tmpSrc)) (Suc tmpDest) (Suc tmpSrc)"

definition small_copy_aligned :: "mem \<Rightarrow> nat \<Rightarrow> nat \<Rightarrow> nat \<Rightarrow> mem" where
  "small_copy_aligned m dest src count =
     (if 1 \<le> count \<and> count \<le> 64 then struct_assign count m dest src else m)"

definition small_copy_unaligned :: "mem \<Rightarrow> nat \<Rightarrow> nat \<Rightarrow> nat \<Rightarrow> mem" where
  "small_copy_unaligned m dest src count =
     (if 1 \<le> count \<and> count \<le> 64 then fall_through_copy count m dest src else m)"

definition SECUREC_SMALL_MEM_COPY :: "mem \<Rightarrow> nat \<Rightarrow> nat \<Rightarrow> nat \<Rightarrow> mem" where
  "SECUREC_SMALL_MEM_COPY m dest src count =
     (if SecIsAddrAligned8 dest = 0 \<and> SecIsAddrAligned8 src = 0
      then small_copy_aligned m dest src count
      else small_copy_unaligned m dest src count)"

definition SecDoMemcpyOpt :: "mem \<Rightarrow> nat \<Rightarrow> nat \<Rightarrow> nat \<Rightarrow> mem" where
  "SecDoMemcpyOpt m dest src count =
     (if count > 64 then SecDoMemcpy m dest src count
      else SECUREC_SMALL_MEM_COPY m dest src count)"

definition SecMemcpyError :: "mem \<Rightarrow> nat \<Rightarrow> nat \<Rightarrow> nat \<Rightarrow> nat \<Rightarrow> int \<times> mem" where
  "SecMemcpyError m dest destMax src count =
     (if destMax = 0 \<or> destMax > SECUREC_MEM_MAX_LEN then (ERANGE, m)
      else if dest = NULL \<or> src = NULL then
        (if dest \<noteq> NULL then (EINVAL_AND_RESET, libc_memset m dest 0 destMax) else (EINVAL, m))
      else if count > destMax then (ERANGE_AND_RESET, libc_memset m dest 0 destMax)
      else if dest = src then (EOK, m)
      else if (dest > src \<and> dest < src + count) \<or> (src > dest \<and> src < dest + count)
        then (EOVERLAP_AND_RESET, libc_memset m dest 0 destMax)
      else (EOK, m))"

text \<open>
  The build flag \<open>SECUREC_MEMCOPY_WITH_PERFORMANCE\<close> is the first argument (below likewise
  \<open>SECUREC_MEMSET_WITH_PERFORMANCE\<close> and \<open>SECUREC_NOT_CALL_LIBC_CORE_API\<close>).
\<close>

definition memcpy_s :: "bool \<Rightarrow> mem \<Rightarrow> nat \<Rightarrow> nat \<Rightarrow> nat \<Rightarrow> nat \<Rightarrow> int \<times> mem" where
  "memcpy_s with_performance m dest destMax src count =
     (if SECUREC_MEMCPY_PARAM_OK dest destMax src count
      then (EOK, if with_performance then SecDoMemcpyOpt m dest src count
                 else SecDoMemcpy m dest src count)
      else SecMemcpyError m dest destMax src count)"

definition memcpy_sOptAsm :: "mem \<Rightarrow> nat \<Rightarrow> nat \<Rightarrow> nat \<Rightarrow> nat \<Rightarrow> int \<times> mem" where
  "memcpy_sOptAsm m dest destMax src count =
     (if SECUREC_MEMCPY_PARAM_OK dest destMax src count
      then (EOK, SecDoMemcpyOpt m dest src count)
      else SecMemcpyError m dest destMax src count)"

definition memcpy_sOptTc :: "mem \<Rightarrow> nat \<Rightarrow> nat \<Rightarrow> nat \<Rightarrow> nat \<Rightarrow> int \<times> mem" where
  "memcpy_sOptTc m dest destMax src count =
     (if count \<le> destMax \<and> dest \<noteq> NULL \<and> src \<noteq> NULL \<and> count > 0 \<and>
         ((dest > src \<and> src + count \<le> dest) \<or> (src > dest \<and> dest + count \<le> src))
      then (EOK, SecDoMemcpyOpt m dest src count)
      else SecMemcpyError m dest destMax src count)"

section \<open>memset\<close>

definition SecDoMemset :: "mem \<Rightarrow> nat \<Rightarrow> int \<Rightarrow> nat \<Rightarrow> mem" where
  "SecDoMemset m dest c count = libc_memset m dest c count"

definition g_allZero :: "byte list" where "g_allZero = replicate 32 0"
definition g_allFF :: "byte list" where "g_allFF = replicate 32 0xFF"

primrec fall_through_set :: "nat \<Rightarrow> mem \<Rightarrow> nat \<Rightarrow> byte \<Rightarrow> mem" where
  "fall_through_set 0 m pcDest c = m"
| "fall_through_set (Suc k) m pcDest c = fall_through_set k (m(pcDest := c)) (Suc pcDest) c"

definition SECUREC_UNALIGNED_SET :: "mem \<Rightarrow> nat \<Rightarrow> int \<Rightarrow> nat \<Rightarrow> mem" where
  "SECUREC_UNALIGNED_SET m dest c count =
     (if 1 \<le> count \<and> count \<le> 32 then fall_through_set count m dest (word_of_int c) else m)"

text \<open>The inner switch: assign member \<open>bufN\<close> of the union, the first N bytes of the constant.\<close>

definition aligned_set_from :: "byte list \<Rightarrow> mem \<Rightarrow> nat \<Rightarrow> nat \<Rightarrow> mem" where
  "aligned_set_from src m dest count =
     (if 1 \<le> count \<and> count \<le> 32 then write_bytes m dest (take count src) else m)"

definition SECUREC_ALIGNED_SET_OPT_ZERO_FF :: "mem \<Rightarrow> nat \<Rightarrow> int \<Rightarrow> nat \<Rightarrow> mem" where
  "SECUREC_ALIGNED_SET_OPT_ZERO_FF m dest c count =
     (if c = 0 then aligned_set_from g_allZero m dest count
      else if c = 0xFF then aligned_set_from g_allFF m dest count
      else SECUREC_UNALIGNED_SET m dest c count)"

definition SecDoMemsetOpt :: "mem \<Rightarrow> nat \<Rightarrow> int \<Rightarrow> nat \<Rightarrow> mem" where
  "SecDoMemsetOpt m dest c count =
     (if count > 32 then SecDoMemset m dest c count
      else if SecIsAddrAligned8 dest = 0 then SECUREC_ALIGNED_SET_OPT_ZERO_FF m dest c count
      else SECUREC_UNALIGNED_SET m dest c count)"

definition SecMemsetError :: "mem \<Rightarrow> nat \<Rightarrow> nat \<Rightarrow> int \<Rightarrow> nat \<Rightarrow> int \<times> mem" where
  "SecMemsetError m dest destMax c count =
     (if destMax = 0 \<or> destMax > SECUREC_MEM_MAX_LEN then (ERANGE, m)
      else if dest = NULL then (EINVAL, m)
      else if count > destMax then (ERANGE_AND_RESET, libc_memset m dest c destMax)
      else (EOK, m))"

definition memset_s :: "bool \<Rightarrow> mem \<Rightarrow> nat \<Rightarrow> nat \<Rightarrow> int \<Rightarrow> nat \<Rightarrow> int \<times> mem" where
  "memset_s with_performance m dest destMax c count =
     (if SECUREC_MEMSET_PARAM_OK dest destMax count
      then (EOK, if with_performance then SecDoMemsetOpt m dest c count
                 else SecDoMemset m dest c count)
      else SecMemsetError m dest destMax c count)"

definition memset_sOptAsm :: "mem \<Rightarrow> nat \<Rightarrow> nat \<Rightarrow> int \<Rightarrow> nat \<Rightarrow> int \<times> mem" where
  "memset_sOptAsm m dest destMax c count =
     (if SECUREC_MEMSET_PARAM_OK dest destMax count then (EOK, SecDoMemsetOpt m dest c count)
      else SecMemsetError m dest destMax c count)"

definition memset_sOptTc :: "mem \<Rightarrow> nat \<Rightarrow> nat \<Rightarrow> int \<Rightarrow> nat \<Rightarrow> int \<times> mem" where
  "memset_sOptTc m dest destMax c count =
     (if count \<le> destMax \<and> dest \<noteq> NULL then (EOK, SecDoMemsetOpt m dest c count)
      else SecMemsetError m dest destMax c count)"

section \<open>memmove\<close>

primrec memmove_up :: "nat \<Rightarrow> mem \<Rightarrow> nat \<Rightarrow> nat \<Rightarrow> mem" where
  "memmove_up 0 m pDest pSrc = m"
| "memmove_up (Suc maxCount) m pDest pSrc =
     memmove_up maxCount (m(pDest := m pSrc)) (pDest + 1) (pSrc + 1)"

primrec memmove_down :: "nat \<Rightarrow> mem \<Rightarrow> nat \<Rightarrow> nat \<Rightarrow> mem" where
  "memmove_down 0 m pDest pSrc = m"
| "memmove_down (Suc maxCount) m pDest pSrc =
     memmove_down maxCount (m(pDest := m pSrc)) (pDest - 1) (pSrc - 1)"

definition SecUtilMemmove :: "mem \<Rightarrow> nat \<Rightarrow> nat \<Rightarrow> nat \<Rightarrow> mem" where
  "SecUtilMemmove m dst src count =
     (if dst \<le> src \<or> dst \<ge> src + count then memmove_up count m dst src
      else memmove_down count m (dst + count - 1) (src + count - 1))"

definition memmove_s :: "bool \<Rightarrow> mem \<Rightarrow> nat \<Rightarrow> nat \<Rightarrow> nat \<Rightarrow> nat \<Rightarrow> int \<times> mem" where
  "memmove_s not_call_libc m dest destMax src count =
     (if destMax = 0 \<or> destMax > SECUREC_MEM_MAX_LEN then (ERANGE, m)
      else if dest = NULL \<or> src = NULL then
        (if dest \<noteq> NULL then (EINVAL_AND_RESET, libc_memset m dest 0 destMax) else (EINVAL, m))
      else if count > destMax then (ERANGE_AND_RESET, libc_memset m dest 0 destMax)
      else if dest = src then (EOK, m)
      else if count > 0 then
        (EOK, if not_call_libc then SecUtilMemmove m dest src count
              else libc_memmove m dest src count)
      else (EOK, m))"

section \<open>The macros memcpy_sp and memset_sp\<close>

text \<open>
  \<open>destMax & -2\<close> clears the lowest bit.  Which macro branch is compiled depends on whether
  \<open>count\<close> and \<open>destMax\<close> are compile-time constants; the two facts are the first arguments.
\<close>

definition clear_low_bit :: "nat \<Rightarrow> nat" where
  "clear_low_bit n = n - n mod 2"

definition SECUREC_MEMCPY_SM :: "bool \<Rightarrow> mem \<Rightarrow> nat \<Rightarrow> nat \<Rightarrow> nat \<Rightarrow> nat \<Rightarrow> int \<times> mem" where
  "SECUREC_MEMCPY_SM wp m dest destMax src count =
     (if \<not> (destMax = 0 \<or> clear_low_bit destMax > SECUREC_MEM_MAX_LEN \<or> count > destMax \<or>
             dest = NULL \<or> src = NULL)
      then (EOK, libc_memcpy m dest src count) else memcpy_s wp m dest destMax src count)"

definition SECUREC_MEMSET_SM :: "bool \<Rightarrow> mem \<Rightarrow> nat \<Rightarrow> nat \<Rightarrow> int \<Rightarrow> nat \<Rightarrow> int \<times> mem" where
  "SECUREC_MEMSET_SM wp m dest destMax c count =
     (if \<not> (destMax = 0 \<or> clear_low_bit destMax > SECUREC_MEM_MAX_LEN \<or> dest = NULL \<or>
             count > destMax)
      then (EOK, libc_memset m dest c count) else memset_s wp m dest destMax c count)"

definition memcpy_sp ::
  "bool \<Rightarrow> bool \<Rightarrow> bool \<Rightarrow> mem \<Rightarrow> nat \<Rightarrow> nat \<Rightarrow> nat \<Rightarrow> nat \<Rightarrow> int \<times> mem" where
  "memcpy_sp count_const destMax_const wp m dest destMax src count =
     (if count_const then SECUREC_MEMCPY_SM wp m dest destMax src count
      else if destMax_const then
        (if destMax > 0 \<and> clear_low_bit destMax < SECUREC_MEM_MAX_LEN
         then memcpy_sOptTc m dest destMax src count else (ERANGE, m))
      else memcpy_sOptAsm m dest destMax src count)"

definition memset_sp ::
  "bool \<Rightarrow> bool \<Rightarrow> bool \<Rightarrow> mem \<Rightarrow> nat \<Rightarrow> nat \<Rightarrow> int \<Rightarrow> nat \<Rightarrow> int \<times> mem" where
  "memset_sp count_const destMax_const wp m dest destMax c count =
     (if count_const then SECUREC_MEMSET_SM wp m dest destMax c count
      else if destMax_const then
        (if destMax > 0 \<and> clear_low_bit destMax < SECUREC_MEM_MAX_LEN
         then memset_sOptTc m dest destMax c count else (ERANGE, m))
      else memset_sOptAsm m dest destMax c count)"

section \<open>Reading and writing memory\<close>

lemma length_read_bytes [simp]: "length (read_bytes m p n) = n"
  by (simp add: read_bytes_def)

lemma read_bytes_0 [simp]: "read_bytes m p 0 = []"
  by (simp add: read_bytes_def)

lemma write_bytes_Nil [simp]: "write_bytes m p [] = m"
  by (rule ext) (auto simp: write_bytes_def)

lemma libc_memcpy_at:
  "libc_memcpy m d s n a = (if d \<le> a \<and> a < d + n then m (s + (a - d)) else m a)"
  by (auto simp: libc_memcpy_def write_bytes_def read_bytes_def nth_append)

lemma libc_memset_at:
  "libc_memset m d c n a = (if d \<le> a \<and> a < d + n then word_of_int c else m a)"
  by (auto simp: libc_memset_def write_bytes_def)

lemma fall_through_copy_at:
  assumes "s + k \<le> d \<or> d + k \<le> s"
  shows "fall_through_copy k m d s a = (if d \<le> a \<and> a < d + k then m (s + (a - d)) else m a)"
  using assms
proof (induction k arbitrary: m d s)
  case 0
  then show ?case by auto
next
  case (Suc k)
  have "fall_through_copy k (m(d := m s)) (Suc d) (Suc s) a =
      (if Suc d \<le> a \<and> a < Suc d + k then (m(d := m s)) (Suc s + (a - Suc d))
       else (m(d := m s)) a)"
    by (rule Suc.IH) (use Suc.prems in auto)
  moreover have "Suc s + (a - Suc d) = s + (a - d) \<and> s + (a - d) \<noteq> d" if "Suc d \<le> a" "a < Suc d + k"
    using that Suc.prems by auto
  moreover have "a = d" if "d \<le> a" "\<not> Suc d \<le> a"
    using that by simp
  ultimately show ?case by auto
qed

lemma fall_through_set_at:
  "fall_through_set k m d c a = (if d \<le> a \<and> a < d + k then c else m a)"
  by (induction k arbitrary: m d) (auto simp: fun_upd_def)

lemma memmove_up_at:
  assumes "d \<le> s \<or> s + k \<le> d"
  shows "memmove_up k m d s a = (if d \<le> a \<and> a < d + k then m (s + (a - d)) else m a)"
  using assms
proof (induction k arbitrary: m d s)
  case 0
  then show ?case by auto
next
  case (Suc k)
  have "memmove_up k (m(d := m s)) (Suc d) (Suc s) a =
      (if Suc d \<le> a \<and> a < Suc d + k then (m(d := m s)) (Suc s + (a - Suc d))
       else (m(d := m s)) a)"
    by (rule Suc.IH) (use Suc.prems in auto)
  moreover have "Suc s + (a - Suc d) = s + (a - d) \<and> s + (a - d) \<noteq> d" if "Suc d \<le> a" "a < Suc d + k"
    using that Suc.prems by auto
  moreover have "a = d" if "d \<le> a" "\<not> Suc d \<le> a"
    using that by simp
  ultimately show ?case by auto
qed

lemma memmove_down_at:
  assumes "s < d"
  shows "memmove_down k m (d + k - 1) (s + k - 1) a =
     (if d \<le> a \<and> a < d + k then m (s + (a - d)) else m a)"
  using assms
proof (induction k arbitrary: m)
  case 0
  then show ?case by auto
next
  case (Suc k)
  have "memmove_down (Suc k) m (d + Suc k - 1) (s + Suc k - 1) a =
      memmove_down k (m(d + k := m (s + k))) (d + k - 1) (s + k - 1) a"
    by simp
  also have "\<dots> = (if d \<le> a \<and> a < d + k then (m(d + k := m (s + k))) (s + (a - d))
       else (m(d + k := m (s + k))) a)"
    using Suc by blast
  finally show ?case using Suc.prems by (auto simp: not_less_less_Suc_eq)
qed

section \<open>The unrolled paths compute the plain copy\<close>

lemma struct_assign_memcpy: "struct_assign n m d s = libc_memcpy m d s n"
  by (simp add: struct_assign_def libc_memcpy_def)

lemma fall_through_copy_memcpy:
  "s + k \<le> d \<or> d + k \<le> s \<Longrightarrow> fall_through_copy k m d s = libc_memcpy m d s k"
  by (rule ext) (simp add: fall_through_copy_at libc_memcpy_at)

lemma fall_through_set_memset: "fall_through_set k m d (word_of_int c) = libc_memset m d c k"
  by (rule ext) (simp add: fall_through_set_at libc_memset_at)

lemma libc_memcpy_0 [simp]: "libc_memcpy m d s 0 = m"
  by (simp add: libc_memcpy_def read_bytes_def)

lemma libc_memset_0 [simp]: "libc_memset m d c 0 = m"
  by (simp add: libc_memset_def)

lemma aligned_set_from_replicate:
  "count \<le> 32 \<Longrightarrow> b = word_of_int c \<Longrightarrow>
   aligned_set_from (replicate 32 b) m d count = libc_memset m d c count"
  by (cases "count = 0") (auto simp: aligned_set_from_def libc_memset_def min_def)

lemma SECUREC_UNALIGNED_SET_memset:
  "count \<le> 32 \<Longrightarrow> SECUREC_UNALIGNED_SET m d c count = libc_memset m d c count"
  by (cases "count = 0") (auto simp: SECUREC_UNALIGNED_SET_def fall_through_set_memset)

lemma SECUREC_ALIGNED_SET_memset:
  assumes "count \<le> 32"
  shows "SECUREC_ALIGNED_SET_OPT_ZERO_FF m d c count = libc_memset m d c count"
  using assms
  by (simp add: SECUREC_ALIGNED_SET_OPT_ZERO_FF_def g_allZero_def g_allFF_def
      SECUREC_UNALIGNED_SET_memset aligned_set_from_replicate)

lemma SECUREC_SMALL_MEM_COPY_memcpy:
  assumes "count \<le> 64" "src + count \<le> dest \<or> dest + count \<le> src"
  shows "SECUREC_SMALL_MEM_COPY m dest src count = libc_memcpy m dest src count"
  using assms
  by (cases "count = 0")
     (auto simp: SECUREC_SMALL_MEM_COPY_def small_copy_aligned_def small_copy_unaligned_def
        struct_assign_memcpy fall_through_copy_memcpy)

lemma SecDoMemcpyOpt_memcpy:
  "src + count \<le> dest \<or> dest + count \<le> src \<Longrightarrow>
   SecDoMemcpyOpt m dest src count = libc_memcpy m dest src count"
  by (simp add: SecDoMemcpyOpt_def SecDoMemcpy_def SECUREC_SMALL_MEM_COPY_memcpy)

lemma SecDoMemsetOpt_memset: "SecDoMemsetOpt m dest c count = libc_memset m dest c count"
  by (simp add: SecDoMemsetOpt_def SecDoMemset_def SECUREC_ALIGNED_SET_memset
      SECUREC_UNALIGNED_SET_memset)

lemma SecUtilMemmove_memcpy: "SecUtilMemmove m dst src count = libc_memcpy m dst src count"
proof (rule ext)
  fix a
  show "SecUtilMemmove m dst src count a = libc_memcpy m dst src count a"
    using memmove_up_at [of dst src count m a] memmove_down_at [of src dst count m a]
    by (auto simp: SecUtilMemmove_def libc_memcpy_at)
qed

section \<open>Behaviour of memcpy_s\<close>

text \<open>
  The table in the comment of \<open>memcpy_s.c\<close>: which return value and which effect on memory each
  class of arguments has.
\<close>

definition memcpy_table :: "mem \<Rightarrow> nat \<Rightarrow> nat \<Rightarrow> nat \<Rightarrow> nat \<Rightarrow> int \<times> mem" where
  "memcpy_table m dest destMax src count =
     (if destMax = 0 \<or> destMax > SECUREC_MEM_MAX_LEN then (ERANGE, m)
      else if dest = NULL then (EINVAL, m)
      else if src = NULL then (EINVAL_AND_RESET, libc_memset m dest 0 destMax)
      else if count > destMax then (ERANGE_AND_RESET, libc_memset m dest 0 destMax)
      else if dest \<noteq> src \<and> dest < src + count \<and> src < dest + count
        then (EOVERLAP_AND_RESET, libc_memset m dest 0 destMax)
      else (EOK, libc_memcpy m dest src count))"

lemma libc_memcpy_self [simp]: "libc_memcpy m d d n = m"
  by (rule ext) (simp add: libc_memcpy_at)

lemma memcpy_s_fast_path:
  "SECUREC_MEMCPY_PARAM_OK dest destMax src count \<Longrightarrow>
   memcpy_table m dest destMax src count = (EOK, libc_memcpy m dest src count)"
  by (auto simp: SECUREC_MEMCPY_PARAM_OK_def SECUREC_MEMORY_NO_OVERLAP_def memcpy_table_def)

lemma SecMemcpyError_table:
  "\<not> SECUREC_MEMCPY_PARAM_OK dest destMax src count \<Longrightarrow>
   SecMemcpyError m dest destMax src count = memcpy_table m dest destMax src count"
  by (cases "count = 0")
     (auto simp: SecMemcpyError_def SECUREC_MEMCPY_PARAM_OK_def SECUREC_MEMORY_NO_OVERLAP_def
        memcpy_table_def)

lemma memcpy_param_ok_separate:
  "SECUREC_MEMCPY_PARAM_OK dest destMax src count \<Longrightarrow> src + count \<le> dest \<or> dest + count \<le> src"
  by (auto simp: SECUREC_MEMCPY_PARAM_OK_def SECUREC_MEMORY_NO_OVERLAP_def)

lemma memcpy_s_eq_table:
  "memcpy_s with_performance m dest destMax src count = memcpy_table m dest destMax src count"
  by (auto simp: memcpy_s_def SecDoMemcpy_def memcpy_s_fast_path SecMemcpyError_table
      SecDoMemcpyOpt_memcpy memcpy_param_ok_separate)

lemma memcpy_sOptAsm_table:
  "memcpy_sOptAsm m dest destMax src count = memcpy_table m dest destMax src count"
  by (auto simp: memcpy_sOptAsm_def memcpy_s_fast_path SecMemcpyError_table
      SecDoMemcpyOpt_memcpy memcpy_param_ok_separate)

lemma memcpy_table_frame:
  "{a. snd (memcpy_table m dest destMax src count) a \<noteq> m a} \<subseteq> {dest..<dest + destMax}"
  by (auto simp: memcpy_table_def libc_memset_at libc_memcpy_at split: if_splits)

lemma libc_memmove_memcpy: "libc_memmove m d s n = libc_memcpy m d s n"
  by (simp add: libc_memmove_def libc_memcpy_def)

lemma read_libc_memcpy: "read_bytes (libc_memcpy m d s n) d n = read_bytes m s n"
  by (rule nth_equalityI) (simp_all add: read_bytes_def libc_memcpy_at)

lemma memset_s_frame:
  assumes "a < dest \<or> dest + destMax \<le> a"
  shows "snd (memset_s wp m dest destMax c count) a = m a"
  using assms
  by (auto simp: memset_s_def SecMemsetError_def SecDoMemset_def SecDoMemsetOpt_memset
      SECUREC_MEMSET_PARAM_OK_def libc_memset_at)

lemma memmove_s_frame:
  assumes "a < dest \<or> dest + destMax \<le> a"
  shows "snd (memmove_s nl m dest destMax src count) a = m a"
  using assms
  by (auto simp: memmove_s_def SecUtilMemmove_memcpy libc_memmove_memcpy libc_memset_at
      libc_memcpy_at)

lemma clear_low_bit_le: "clear_low_bit d \<le> SECUREC_MEM_MAX_LEN \<longleftrightarrow> d \<le> SECUREC_MEM_MAX_LEN"
  and clear_low_bit_less: "clear_low_bit d < SECUREC_MEM_MAX_LEN \<longleftrightarrow> d \<le> SECUREC_MEM_MAX_LEN"
  unfolding clear_low_bit_def SECUREC_MEM_MAX_LEN_def by presburger+

lemma memcpy_sOptTc_memcpy_s:
  "destMax \<le> SECUREC_MEM_MAX_LEN \<Longrightarrow>
   memcpy_sOptTc m dest destMax src count = memcpy_s wp m dest destMax src count"
  by (auto simp: memcpy_sOptTc_def memcpy_s_def SECUREC_MEMCPY_PARAM_OK_def
      SECUREC_MEMORY_NO_OVERLAP_def SecDoMemcpyOpt_memcpy SecDoMemcpy_def)

lemma memset_sOptTc_memset_s:
  "destMax \<le> SECUREC_MEM_MAX_LEN \<Longrightarrow>
   memset_sOptTc m dest destMax c count = memset_s wp m dest destMax c count"
  by (auto simp: memset_sOptTc_def memset_s_def SECUREC_MEMSET_PARAM_OK_def
      SecDoMemsetOpt_memset SecDoMemset_def)

lemma memcpy_table_separate:
  "0 < destMax \<Longrightarrow> destMax \<le> SECUREC_MEM_MAX_LEN \<Longrightarrow> count \<le> destMax \<Longrightarrow> dest \<noteq> NULL \<Longrightarrow> src \<noteq> NULL \<Longrightarrow>
   src + count \<le> dest \<or> dest + count \<le> src \<or> dest = src \<Longrightarrow>
   memcpy_table m dest destMax src count = (EOK, libc_memcpy m dest src count)"
  by (auto simp: memcpy_table_def)

section \<open>Buffers of a caller\<close>

text \<open>
  The callers copy into the middle of a buffer object: \<open>memcpy_s (dst + off, destMax, src, count)\<close>
  with \<open>src\<close> in another object.  This is what they observe.
\<close>

definition memcpy_s_at :: "byte list \<Rightarrow> nat \<Rightarrow> nat \<Rightarrow> byte list \<Rightarrow> nat \<Rightarrow> int \<times> byte list" where
  "memcpy_s_at dst off destMax src count =
     (if destMax = 0 \<or> destMax > SECUREC_MEM_MAX_LEN then (ERANGE, dst)
      else if count > destMax
        then (ERANGE_AND_RESET, take off dst @ replicate destMax 0 @ drop (off + destMax) dst)
      else (EOK, take off dst @ take count src @ drop (off + count) dst))"

lemma write_read_inside:
  assumes "read_bytes m p (length dst) = dst" "off + length bs \<le> length dst"
  shows "read_bytes (write_bytes m (p + off) bs) p (length dst) =
    take off dst @ bs @ drop (off + length bs) dst"
proof (rule nth_equalityI)
  show "length (read_bytes (write_bytes m (p + off) bs) p (length dst)) =
      length (take off dst @ bs @ drop (off + length bs) dst)"
    using assms(2) by simp
next
  fix i
  assume "i < length (read_bytes (write_bytes m (p + off) bs) p (length dst))"
  then have i: "i < length dst" by simp
  have "dst ! i = m (p + i)"
    using arg_cong [OF assms(1), of "\<lambda>l. l ! i"] i by (simp add: read_bytes_def)
  with i assms(2)
  show "read_bytes (write_bytes m (p + off) bs) p (length dst) ! i =
      (take off dst @ bs @ drop (off + length bs) dst) ! i"
    by (auto simp: read_bytes_def write_bytes_def nth_append algebra_simps)
qed

lemma read_bytes_take:
  "read_bytes m q (length src) = src \<Longrightarrow> count \<le> length src \<Longrightarrow> read_bytes m q count = take count src"
  by (metis add_le_cancel_left min_def read_bytes_def take_map take_upt)

lemma memcpy_s_at_cases:
  assumes "dest \<noteq> NULL" "src \<noteq> NULL" "src + count \<le> dest \<or> dest + destMax \<le> src"
  shows "memcpy_s wp m dest destMax src count =
     (if destMax = 0 \<or> destMax > SECUREC_MEM_MAX_LEN then (ERANGE, m)
      else if count > destMax then (ERANGE_AND_RESET, libc_memset m dest 0 destMax)
      else (EOK, libc_memcpy m dest src count))"
  using assms by (auto simp: memcpy_s_eq_table memcpy_table_def)

section \<open>Properties\<close>


text \<open>
  \<open>memmove_s\<close> handles overlap: with valid arguments it returns \<open>EOK\<close> and the destination holds
  the bytes the source had before the call, with the byte-wise fallback \<open>SecUtilMemmove\<close> and with
  the library call alike.
\<close>

theorem memmove_s_overlap:
  assumes "dest \<noteq> NULL" "src \<noteq> NULL" "count \<le> destMax" "0 < destMax"
    and "destMax \<le> SECUREC_MEM_MAX_LEN"
  shows "fst (memmove_s not_call_libc m dest destMax src count) = EOK \<and>
    read_bytes (snd (memmove_s not_call_libc m dest destMax src count)) dest count =
      read_bytes m src count"
  using assms
  by (auto simp: memmove_s_def SecUtilMemmove_memcpy libc_memmove_memcpy read_libc_memcpy)

theorem memmove_s_overlap_witness:
  "fst (memmove_s True (\<lambda>a. of_nat a) 10 4 8 4) = EOK \<and>
   read_bytes (snd (memmove_s True (\<lambda>a. of_nat a) 10 4 8 4)) 10 4 = [8, 9, 10, 11]"
  using memmove_s_overlap [of 10 8 4 4 True "\<lambda>a. of_nat a"]
  by (simp add: SECUREC_MEM_MAX_LEN_def read_bytes_def upt_rec)

text \<open>
  C37: the unrolled switches of \<open>SecDoMemcpyOpt\<close> and \<open>SecDoMemsetOpt\<close> (aligned structure
  assignment, unaligned fall-through, threshold) compute exactly the library copy and fill, for
  every length and every alignment; \<open>memset_sOptAsm\<close> therefore agrees with \<open>memset_s\<close>.
\<close>

theorem unrolled_paths_equal_libc:
  "(SECUREC_MEMCPY_PARAM_OK dest destMax src count \<longrightarrow>
      SecDoMemcpyOpt m dest src count = SecDoMemcpy m dest src count) \<and>
   SecDoMemsetOpt m dest c count = SecDoMemset m dest c count \<and>
   memset_sOptAsm m dest destMax c count = memset_s with_performance m dest destMax c count"
  using memcpy_param_ok_separate
  by (auto simp: SecDoMemcpyOpt_memcpy SecDoMemcpy_def SecDoMemsetOpt_memset SecDoMemset_def
      memset_sOptAsm_def memset_s_def)

theorem unrolled_paths_equal_libc_witness:
  "SECUREC_MEMCPY_PARAM_OK 100 8 200 3 \<and>
   SecDoMemcpyOpt (\<lambda>a. of_nat a) 100 200 3 = SecDoMemcpy (\<lambda>a. of_nat a) 100 200 3"
  using unrolled_paths_equal_libc [of 100 8 200 3 "\<lambda>a. of_nat a"]
  by (simp add: SECUREC_MEMCPY_PARAM_OK_def SECUREC_MEMORY_NO_OVERLAP_def SECUREC_MEM_MAX_LEN_def)

text \<open>
  The memory-level \<open>memcpy_s\<close> implements the buffer-level view that its callers use: for a
  destination object and a disjoint source object it returns the same code and leaves the same
  bytes in the destination object.
\<close>

theorem memcpy_s_refines_buffer:
  assumes "p \<noteq> NULL" "q \<noteq> NULL"
    and "read_bytes m p (length dst) = dst" "read_bytes m q (length src) = src"
    and "off + destMax \<le> length dst" "count \<le> length src"
    and "p + length dst \<le> q \<or> q + length src \<le> p"
  shows "fst (memcpy_s wp m (p + off) destMax q count) = fst (memcpy_s_at dst off destMax src count) \<and>
    read_bytes (snd (memcpy_s wp m (p + off) destMax q count)) p (length dst) =
      snd (memcpy_s_at dst off destMax src count)"
proof -
  have sep: "q + count \<le> p + off \<or> p + off + destMax \<le> q"
    using assms(5-7) by linarith
  have "memcpy_s wp m (p + off) destMax q count =
     (if destMax = 0 \<or> destMax > SECUREC_MEM_MAX_LEN then (ERANGE, m)
      else if count > destMax then (ERANGE_AND_RESET, libc_memset m (p + off) 0 destMax)
      else (EOK, libc_memcpy m (p + off) q count))"
    using assms(1,2) sep by (intro memcpy_s_at_cases) auto
  then show ?thesis
    using assms write_read_inside [of m p dst off "replicate destMax 0"]
      write_read_inside [of m p dst off "take count src"]
    by (auto simp: memcpy_s_at_def libc_memset_def libc_memcpy_def read_bytes_take)
qed

theorem memcpy_s_refines_buffer_witness:
  "fst (memcpy_s False (\<lambda>a. of_nat a) (8 + 1) 2 20 2) =
     fst (memcpy_s_at [8, 9, 10, 11] 1 2 [20, 21] 2) \<and>
   read_bytes (snd (memcpy_s False (\<lambda>a. of_nat a) (8 + 1) 2 20 2)) 8 4 = [8, 20, 21, 11]"
  using memcpy_s_refines_buffer [of 8 20 "\<lambda>a. of_nat a" "[8, 9, 10, 11]" "[20, 21]" 1 2 2 False]
  by (simp add: read_bytes_def upt_rec memcpy_s_at_def SECUREC_MEM_MAX_LEN_def)

text \<open>
  The macros \<open>memcpy_sp\<close> and \<open>memset_sp\<close>, in each of the branches the compiler may pick, agree
  with the functions \<open>memcpy_s\<close> and \<open>memset_s\<close> as long as source and destination do not partially
  overlap and the size of the destination is not 0.
\<close>

theorem sp_macros_agree:
  assumes "0 < destMax" "src + count \<le> dest \<or> dest + count \<le> src \<or> dest = src"
  shows "memcpy_sp count_const destMax_const wp m dest destMax src count =
      memcpy_s wp m dest destMax src count \<and>
    memset_sp count_const destMax_const wp m dest destMax c count =
      memset_s wp m dest destMax c count"
proof
  have range: "memcpy_s wp m dest destMax src count = (ERANGE, m)"
      "memset_s wp m dest destMax c count = (ERANGE, m)" if "\<not> destMax \<le> SECUREC_MEM_MAX_LEN"
    using that assms(1)
    by (auto simp: memcpy_s_eq_table memcpy_table_def memset_s_def SecMemsetError_def
        SECUREC_MEMSET_PARAM_OK_def)
  show "memcpy_sp count_const destMax_const wp m dest destMax src count =
      memcpy_s wp m dest destMax src count"
    using assms range memcpy_sOptTc_memcpy_s [of destMax m dest src count wp]
    by (auto simp: memcpy_sp_def SECUREC_MEMCPY_SM_def memcpy_sOptAsm_table memcpy_s_eq_table
        memcpy_table_separate clear_low_bit_le clear_low_bit_less not_less)
  show "memset_sp count_const destMax_const wp m dest destMax c count =
      memset_s wp m dest destMax c count"
    using assms(1) range memset_sOptTc_memset_s [of destMax m dest c count wp]
    by (auto simp: memset_sp_def SECUREC_MEMSET_SM_def memset_s_def memset_sOptAsm_def
        SecMemsetError_def SECUREC_MEMSET_PARAM_OK_def SecDoMemsetOpt_memset SecDoMemset_def
        clear_low_bit_le clear_low_bit_less not_less)
qed

theorem sp_macros_agree_witness:
  "memcpy_sp False True False (\<lambda>a. of_nat a) 64 8 128 3 = memcpy_s False (\<lambda>a. of_nat a) 64 8 128 3"
  using sp_macros_agree [of 8 128 3 64 False True False "\<lambda>a. of_nat a"] by simp

text \<open>
  \<open>memset_s\<close> with \<open>destMax = 0\<close> and \<open>count = 0\<close> returns \<open>EOK\<close>, although the comment promises
  \<open>ERANGE\<close> for \<open>destMax = 0\<close>; this is the only argument on which it leaves its documented table.
\<close>

theorem memset_s_table:
  "memset_s with_performance m dest destMax c count =
     (if destMax = 0 \<and> count = 0 \<and> dest \<noteq> NULL then (EOK, m)
      else if destMax = 0 \<or> destMax > SECUREC_MEM_MAX_LEN then (ERANGE, m)
      else if dest = NULL then (EINVAL, m)
      else if count > destMax then (ERANGE_AND_RESET, libc_memset m dest c destMax)
      else (EOK, libc_memset m dest c count))"
  by (auto simp: memset_s_def SecMemsetError_def SECUREC_MEMSET_PARAM_OK_def SecDoMemset_def
      SecDoMemsetOpt_memset)

end
