(* ===== verification/Convert_Utils.thy ===== *)
theory Convert_Utils
  imports Prelude "HOL-Library.Signed_Division"
begin

text \<open>
  The checked integer conversions and multiplications of \<open>src/log/utils/convert_utils_base.h\<close>.
  Values of the wide types are words; a conversion either throws or keeps the value.  The
  conversions from and to floating point are in \<open>Float_Conversions\<close>.
\<close>

definition SizeToInt :: "u64 \<Rightarrow> exn + int" where
  "SizeToInt u = (if unat u > 2 ^ 31 - 1 then Inl (MsException ''SizeToInt'')
     else Inr (int32 (uint u)))"

definition SizeToUint :: "u64 \<Rightarrow> exn + u32" where
  "SizeToUint u = (if unat u > 2 ^ 32 - 1 then Inl (MsException ''SizeToUint'')
     else Inr (ucast u))"

definition SizeToLong :: "u64 \<Rightarrow> exn + u64" where
  "SizeToLong u = (if unat u > 2 ^ 63 - 1 then Inl (MsException ''SizeToLong'') else Inr u)"

definition SizeToUlong :: "u64 \<Rightarrow> u64" where
  "SizeToUlong u = u"

definition IntToSize :: "u32 \<Rightarrow> u64" where
  "IntToSize u = (if sint u < 0 then - 1 else scast u)"

definition LongToSize :: "u64 \<Rightarrow> exn + u64" where
  "LongToSize u = (if sint u < 0 then Inl (MsException ''LongToSize'') else Inr u)"

definition IntToUint :: "u32 \<Rightarrow> exn + u32" where
  "IntToUint u = (if sint u < 0 then Inl (MsException ''IntToUint'') else Inr u)"

definition UintToInt :: "u32 \<Rightarrow> exn + u32" where
  "UintToInt u = (if unat u > 2 ^ 31 - 1 then Inl (MsException ''UintToInt'') else Inr u)"

definition LongToUlong :: "u64 \<Rightarrow> exn + u64" where
  "LongToUlong u = (if sint u < 0 then Inl (MsException ''LongToUlong'') else Inr u)"

definition LongToInt :: "u64 \<Rightarrow> exn + u32" where
  "LongToInt u = (if sint u > 2 ^ 31 - 1 then Inl (MsException ''LongToInt'') else Inr (ucast u))"

definition UlongToLong :: "u64 \<Rightarrow> exn + u64" where
  "UlongToLong u = (if unat u > 2 ^ 63 - 1 then Inl (MsException ''UlongToLong'') else Inr u)"

definition UlongToUint :: "u64 \<Rightarrow> exn + u32" where
  "UlongToUint u = (if unat u > 2 ^ 32 - 1 then Inl (MsException ''UlongToUint'')
     else Inr (ucast u))"

text \<open>
  Signed multiplication: a product that does not fit is undefined behaviour already at
  \<open>a * b\<close>, before the check; so is the division of the smallest value by -1.
\<close>

definition IntMulWithOverflowCheck :: "int \<Rightarrow> int \<Rightarrow> exn + int" where
  "IntMulWithOverflowCheck a b =
     (if a * b < - (2 ^ 31) \<or> 2 ^ 31 - 1 < a * b then Inl (Undefined ''signed overflow'')
      else let out = a * b in
        if a \<noteq> 0 \<and> out sdiv a \<noteq> b then Inl (MsException ''Mul overflow'') else Inr out)"

definition LongMulWithOverflowCheck :: "int \<Rightarrow> int \<Rightarrow> exn + int" where
  "LongMulWithOverflowCheck a b =
     (if a * b < - (2 ^ 63) \<or> 2 ^ 63 - 1 < a * b then Inl (Undefined ''signed overflow'')
      else let out = a * b in
        if a \<noteq> 0 \<and> out sdiv a \<noteq> b then Inl (MsException ''Mul overflow'') else Inr out)"

definition SizetMulWithOverflowCheck :: "u64 \<Rightarrow> u64 \<Rightarrow> exn + u64" where
  "SizetMulWithOverflowCheck a b =
     (let out = a * b in
      if a \<noteq> 0 then (if out div a \<noteq> b then Inl (MsException ''Mul overflow'') else Inr out)
      else Inr out)"

definition AddressOffset :: "nat option \<Rightarrow> nat \<Rightarrow> exn + nat" where
  "AddressOffset address offset =
     (case address of None \<Rightarrow> Inl (MsException ''address is nullptr'') | Some a \<Rightarrow> Inr (a + offset))"

section \<open>Lemmas\<close>

lemma unat_word_less: "unat (u :: 'a :: len word) < 2 ^ LENGTH('a)"
  by (rule unsigned_less)

lemma SizeToUint_Inr: "SizeToUint u = Inr v \<longleftrightarrow> unat u < 2 ^ 32 \<and> v = ucast u"
  by (auto simp: SizeToUint_def)

lemma SizeToUint_value: "SizeToUint u = Inr v \<Longrightarrow> unat v = unat u"
  by (auto simp: SizeToUint_Inr unsigned_ucast_eq take_bit_nat_eq_self)

lemma word_mult_div_overflow:
  fixes a b :: "'a :: len word"
  assumes "a \<noteq> 0"
  shows "(a * b) div a = b \<longleftrightarrow> unat a * unat b < 2 ^ LENGTH('a)"
proof -
  have pos: "0 < unat a" using assms by (simp add: unat_gt_0)
  have prod: "unat (a * b) = unat a * unat b mod 2 ^ LENGTH('a)"
    by (simp add: unat_word_ariths(2))
  have "(a * b) div a = b \<longleftrightarrow> unat a * unat b mod 2 ^ LENGTH('a) div unat a = unat b"
    by (simp add: word_unat_eq_iff unat_div prod)
  also have "\<dots> \<longleftrightarrow> unat a * unat b < 2 ^ LENGTH('a)"
  proof
    assume "unat a * unat b mod 2 ^ LENGTH('a) div unat a = unat b"
    then have "unat a * unat b \<le> unat a * unat b mod 2 ^ LENGTH('a)"
      by (metis div_times_less_eq_dividend mult.commute)
    moreover have "unat a * unat b mod 2 ^ LENGTH('a) < 2 ^ LENGTH('a)" by simp
    ultimately show "unat a * unat b < 2 ^ LENGTH('a)" by (rule le_less_trans)
  next
    assume "unat a * unat b < 2 ^ LENGTH('a)"
    then show "unat a * unat b mod 2 ^ LENGTH('a) div unat a = unat b"
      using pos by simp
  qed
  finally show ?thesis .
qed

text \<open>
  The unsigned multiplication check is exact: it returns the product when the product fits
  into 64 bits and throws in every other case.
\<close>

theorem SizetMul_exact:
  "SizetMulWithOverflowCheck a b =
     (if unat a * unat b < 2 ^ 64 then Inr (word_of_nat (unat a * unat b))
      else Inl (MsException ''Mul overflow''))"
  using word_mult_div_overflow [of a b] by (auto simp: SizetMulWithOverflowCheck_def Let_def)

text \<open>
  \<open>LongToInt\<close> keeps the value from -2147483648 up and throws above the range, but below the
  range it has no check and returns a different number.
\<close>

theorem LongToInt_only_upper_check:
  "(\<forall>u v. LongToInt u = Inr v \<and> - (2 ^ 31) \<le> sint u \<longrightarrow> sint v = sint u) \<and>
   (\<forall>u. 2 ^ 31 \<le> sint u \<longrightarrow> LongToInt u = Inl (MsException ''LongToInt'')) \<and>
   LongToInt (word_of_int (- (2 ^ 31) - 1)) = Inr (word_of_int (2 ^ 31 - 1))"
proof (intro conjI allI impI)
  fix u v
  assume *: "LongToInt u = Inr v \<and> - (2 ^ 31) \<le> sint u"
  then have "sint u \<le> 2 ^ 31 - 1" and v: "v = ucast u"
    by (auto simp: LongToInt_def split: if_splits)
  moreover have "(ucast u :: u32) = word_of_int (sint u)"
    by (rule bit_word_eqI) (auto simp: bit_simps min_def)
  ultimately show "sint v = sint u"
    using * int32_id [of "sint u"] by (simp add: int32_def)
next
  fix u :: u64
  assume "2 ^ 31 \<le> sint u"
  then show "LongToInt u = Inl (MsException ''LongToInt'')" by (simp add: LongToInt_def)
next
  show "LongToInt (word_of_int (- (2 ^ 31) - 1)) = Inr (word_of_int (2 ^ 31 - 1))"
    by code_simp
qed

theorem LongToInt_only_upper_check_witness:
  "LongToInt (- 5) = Inr (- 5) \<and> sint (- 5 :: u32) = sint (- 5 :: u64) \<and>
   LongToInt (2 ^ 40) = Inl (MsException ''LongToInt'')"
proof -
  have "LongToInt (- 5) = Inr (- 5)" by code_simp
  moreover have "- (2 ^ 31) \<le> sint (- 5 :: u64)" "2 ^ 31 \<le> sint (2 ^ 40 :: u64)" by code_simp+
  ultimately show ?thesis using LongToInt_only_upper_check by blast
qed

end
