(* ===== verification/Tcp_Message.thy ===== *)
theory Tcp_Message
  imports Securec Convert_Utils
begin

text \<open>
  The wire format of the parameter-server transport (\<open>src/even-http/ps/core\<close>): the sender
  (\<open>TcpConnection::SendMessage\<close>, \<open>TcpClient::SendMessage\<close>) and the receiver
  (\<open>TcpMessageHandler::ReceiveMessage\<close>), a state machine that is fed whatever chunks
  the socket yields.  The main results are that a chunk has the effect of its bytes one by one
  and that any cutting of a sent stream delivers exactly the sent frames, in order.
\<close>

section \<open>Headers\<close>

text \<open>
  \<open>MessageHeader\<close> is sent as its memory image: 4 bytes protocol, 4 bytes length of the meta part,
  8 bytes total length, little-endian, no padding.
\<close>

record message_header =
  message_proto :: u32
  message_meta_length :: u32
  message_length :: u64

definition kHeaderLen :: int where "kHeaderLen = 16"

definition header_bytes :: "message_header \<Rightarrow> byte list" where
  "header_bytes mh = le_bytes 4 (unat (message_proto mh)) @
     le_bytes 4 (unat (message_meta_length mh)) @ le_bytes 8 (unat (message_length mh))"

definition read_header :: "byte list \<Rightarrow> message_header" where
  "read_header bs = \<lparr> message_proto = word_of_nat (le_nat (take 4 bs)),
     message_meta_length = word_of_nat (le_nat (take 4 (drop 4 bs))),
     message_length = word_of_nat (le_nat (take 8 (drop 8 bs))) \<rparr>"

section \<open>The receiver\<close>

text \<open>
  What the callback gets: the protocol, the bytes handed to \<open>MessageMeta::ParseFromArray\<close> and the
  bytes behind them.
\<close>

record frame =
  frame_proto :: u32
  frame_meta :: "byte list"
  frame_data :: "byte list"

text \<open>
  \<open>message_buffer\<close> is \<open>None\<close> for a null pointer, otherwise the size of the allocation and the
  bytes written into it so far (the rest is uninitialised).  \<open>operator new\<close> is taken to succeed.
\<close>

record tcp_message_handler =
  message_callback :: bool
  message_buffer :: "(nat \<times> byte list) option"
  remaining_length :: nat
  header :: "byte list"
  header_index :: int
  last_copy_len :: nat
  msg_header :: message_header

definition new_handler :: "byte list \<Rightarrow> tcp_message_handler" where
  "new_handler uninit = \<lparr> message_callback = False, message_buffer = None, remaining_length = 0,
     header = uninit, header_index = -1, last_copy_len = 0,
     msg_header = \<lparr> message_proto = 0, message_meta_length = 0, message_length = 0 \<rparr> \<rparr>"

definition SetCallback :: "tcp_message_handler \<Rightarrow> bool \<Rightarrow> tcp_message_handler" where
  "SetCallback h cb = h\<lparr> message_callback := cb \<rparr>"

text \<open>
  The \<open>for\<close> loop that collects the header.  \<open>data\<close> is what \<open>buffer_data\<close> points to; it only moves
  when the header is complete.
\<close>

function header_loop ::
  "tcp_message_handler \<Rightarrow> byte list \<Rightarrow> nat \<Rightarrow> nat \<Rightarrow> exn + tcp_message_handler \<times> byte list \<times> nat" where
  "header_loop h data i num =
     (if int i < kHeaderLen \<and> num > 0 then
        let idx = header_index h + 1 in
        if idx < 0 \<or> 16 \<le> idx then Inl (Undefined ''header_ out of bounds'')
        else if length data \<le> i then Inl (Undefined ''buffer_data out of bounds'')
        else
          let h1 = h\<lparr> header_index := idx, header := (header h)[nat idx := data ! i] \<rparr> in
          if idx = kHeaderLen - 1 then
            let mh = read_header (header h1) in
            Inr (h1\<lparr> msg_header := mh, remaining_length := unat (message_length mh),
                     message_buffer := Some (unat (message_length mh), []) \<rparr>,
                 drop (i + 1) data, num - 1)
          else header_loop h1 data (i + 1) (num - 1)
      else Inr (h, data, num))"
  by pat_completeness auto
termination by (relation "measure (\<lambda>(h, data, i, num). num)") auto

declare header_loop.simps [simp del]

definition deliver :: "tcp_message_handler \<Rightarrow> (exn, unit, frame) rx" where
  "deliver h =
     (let meta_len = unat (message_meta_length (msg_header h));
          len = unat (message_length (msg_header h))
      in case message_buffer h of
           None \<Rightarrow> ([], Inl (Undefined ''message_buffer_ is null''))
         | Some (cap, buf) \<Rightarrow>
             if meta_len > len then ([], Inl (Undefined ''meta length exceeds the buffer''))
             else ([\<lparr> frame_proto = message_proto (msg_header h), frame_meta = take meta_len buf,
                      frame_data = take (len - meta_len) (drop meta_len buf) \<rparr>], Inr ()))"

definition reset_message :: "tcp_message_handler \<Rightarrow> tcp_message_handler" where
  "reset_message h = h\<lparr> message_buffer := None, header_index := -1, last_copy_len := 0 \<rparr>"

definition copy_payload ::
  "tcp_message_handler \<Rightarrow> byte list \<Rightarrow> nat \<Rightarrow> (exn, tcp_message_handler \<times> byte list \<times> nat, frame) rx" where
  "copy_payload h data num =
     (if remaining_length h > 0 \<and> num > 0 then
        let copy_len = (if remaining_length h \<le> num then remaining_length h else num) in
        case message_buffer h of
          None \<Rightarrow> ([], Inl (Undefined ''message_buffer_ is null''))
        | Some (cap, buf) \<Rightarrow>
            if last_copy_len h + copy_len > cap \<or> copy_len > length data
            then ([], Inl (Undefined ''copy out of bounds''))
            else
              let (ret, buf') = memcpy_s_at buf (last_copy_len h) copy_len data copy_len;
                  h1 = h\<lparr> remaining_length := remaining_length h - copy_len,
                          last_copy_len := last_copy_len h + copy_len,
                          message_buffer := Some (cap, buf') \<rparr>
              in if ret \<noteq> 0 then ([], Inl (MsException ''The memcpy_s error''))
                 else if remaining_length h1 = 0 then
                   rx_bind (if message_callback h1 then deliver h1 else ([], Inr ()))
                     (\<lambda>_. ([], Inr (reset_message h1, drop copy_len data, num - copy_len)))
                 else ([], Inr (h1, drop copy_len data, num - copy_len))
      else ([], Inr (h, data, num)))"

text \<open>Every iteration of the loop consumes at least one byte, so the loop ends.\<close>

lemma header_loop_num:
  "header_loop h data i num = Inr (h', data', num') \<Longrightarrow> num' \<le> num \<and> (int i < kHeaderLen \<and> num > 0 \<longrightarrow> num' < num)"
proof (induction h data i num rule: header_loop.induct)
  case (1 h data i num)
  show ?case
    using 1(2) 1(1) by (subst (asm) header_loop.simps) (fastforce simp: Let_def split: if_splits)
qed

lemma copy_payload_num:
  assumes "copy_payload h data num = (ms, Inr (h', data', num'))"
  shows "num' \<le> num \<and> (remaining_length h > 0 \<and> num > 0 \<longrightarrow> num' < num)"
  using assms
  by (auto simp: copy_payload_def Let_def rx_bind_def split: if_splits option.splits prod.splits sum.splits)

lemma rx_bind_fundef_cong [fundef_cong]:
  "r = r' \<Longrightarrow> (\<And>ms s. r' = (ms, Inr s) \<Longrightarrow> f s = g s) \<Longrightarrow> rx_bind r f = rx_bind r' g"
  using rx_bind_cong_Inr by blast

function receive_loop ::
  "tcp_message_handler \<Rightarrow> byte list \<Rightarrow> nat \<Rightarrow> (exn, tcp_message_handler, frame) rx" where
  "receive_loop h data num =
     (if num > 0 then
        case (if remaining_length h = 0 then header_loop h data 0 num else Inr (h, data, num)) of
          Inl e \<Rightarrow> ([], Inl e)
        | Inr (h1, data1, num1) \<Rightarrow>
            rx_bind (copy_payload h1 data1 num1)
              (\<lambda>(h2, data2, num2). receive_loop h2 data2 num2)
      else ([], Inr h))"
  by pat_completeness auto
termination
proof (relation "measure (\<lambda>(h, data, num). num)", goal_cases)
  case (2 h data num b h1 p data1 num1 ms s h2 q data2 num2)
  then show ?case
    using header_loop_num [of h data 0 num h1 data1 num1]
      copy_payload_num [of h1 data1 num1 ms h2 data2 num2]
    by (auto simp: kHeaderLen_def split: if_splits)
qed simp

declare receive_loop.simps [simp del]

definition ReceiveMessage ::
  "tcp_message_handler \<Rightarrow> byte list option \<Rightarrow> (exn, tcp_message_handler, frame) rx" where
  "ReceiveMessage h buffer =
     (case buffer of None \<Rightarrow> ([], Inl (MsException ''buffer is null''))
      | Some bytes \<Rightarrow> receive_loop h bytes (length bytes))"

section \<open>The sender\<close>

text \<open>
  \<open>bufferevent_write\<close> is libevent's: it gets the output buffer and the bytes, and returns the new
  output buffer or \<open>None\<close> for -1.  \<open>meta\<close> is the serialised \<open>MessageMeta\<close> (its \<open>ByteSizeLong\<close> is the
  length of the serialisation).  A null pointer is \<open>None\<close>.
\<close>

type_synonym bev_write = "byte list \<Rightarrow> byte list \<Rightarrow> byte list option"

definition write_part :: "bev_write \<Rightarrow> byte list \<Rightarrow> bool \<times> byte list \<Rightarrow> bool \<times> byte list" where
  "write_part bufferevent_write part = (\<lambda>(res, out).
     case bufferevent_write out part of None \<Rightarrow> (False, out) | Some out' \<Rightarrow> (res, out'))"

definition frame_header :: "u32 \<Rightarrow> u32 \<Rightarrow> nat \<Rightarrow> message_header" where
  "frame_header protos meta_len data_size =
     \<lparr> message_proto = protos, message_meta_length = meta_len,
       message_length = word_of_nat data_size + ucast meta_len \<rparr>"

definition SendMessage ::
  "bev_write \<Rightarrow> byte list option \<Rightarrow> byte list option \<Rightarrow> u32 \<Rightarrow> byte list option \<Rightarrow> exn + bool \<times> byte list" where
  "SendMessage bufferevent_write buffer_event meta protos data =
     (case buffer_event of None \<Rightarrow> Inl (MsException ''buffer_event_ is null'') | Some out \<Rightarrow>
      case meta of None \<Rightarrow> Inl (MsException ''meta is null'') | Some meta_bytes \<Rightarrow>
      case data of None \<Rightarrow> Inl (MsException ''data is null'') | Some bytes \<Rightarrow>
      case SizeToUint (word_of_nat (length meta_bytes)) of Inl e \<Rightarrow> Inl e | Inr meta_len \<Rightarrow>
        Inr (write_part bufferevent_write bytes
              (write_part bufferevent_write meta_bytes
                (write_part bufferevent_write
                  (header_bytes (frame_header protos meta_len (length bytes))) (True, out)))))"

section \<open>Reference: one byte at a time\<close>

definition absorb :: "tcp_message_handler \<Rightarrow> byte list \<Rightarrow> tcp_message_handler" where
  "absorb h xs = h\<lparr> remaining_length := remaining_length h - length xs,
     last_copy_len := last_copy_len h + length xs,
     message_buffer := map_option (\<lambda>(cap, buf). (cap, buf @ xs)) (message_buffer h) \<rparr>"

definition finish :: "tcp_message_handler \<Rightarrow> (exn, tcp_message_handler, frame) rx" where
  "finish h = (if remaining_length h = 0
     then rx_bind (if message_callback h then deliver h else ([], Inr ()))
            (\<lambda>_. ([], Inr (reset_message h)))
     else ([], Inr h))"

definition header_byte :: "tcp_message_handler \<Rightarrow> byte \<Rightarrow> tcp_message_handler" where
  "header_byte h b = h\<lparr> header_index := header_index h + 1,
     header := (header h)[nat (header_index h + 1) := b] \<rparr>"

definition header_done :: "tcp_message_handler \<Rightarrow> tcp_message_handler" where
  "header_done h = (let mh = read_header (header h) in
     h\<lparr> msg_header := mh, remaining_length := unat (message_length mh),
        message_buffer := Some (unat (message_length mh), []) \<rparr>)"

definition rx_byte :: "tcp_message_handler \<Rightarrow> byte \<Rightarrow> (exn, tcp_message_handler, frame) rx" where
  "rx_byte h b =
     (if remaining_length h = 0 then
        if header_index h \<ge> 15 then ([], Inl (Undefined ''header_ out of bounds''))
        else if header_index h = 14 then ([], Inr (header_done (header_byte h b)))
        else ([], Inr (header_byte h b))
      else finish (absorb h [b]))"

text \<open>
  The states of a handler: collecting the header, or inside a message whose buffer, remaining
  length and write position add up.
\<close>

definition rx_inv :: "tcp_message_handler \<Rightarrow> bool" where
  "rx_inv h \<longleftrightarrow> length (header h) = 16 \<and> -1 \<le> header_index h \<and> header_index h \<le> 15 \<and>
     (if remaining_length h = 0 then last_copy_len h = 0
      else header_index h = 15 \<and>
        (case message_buffer h of None \<Rightarrow> False
         | Some (cap, buf) \<Rightarrow> cap = unat (message_length (msg_header h)) \<and>
             length buf = last_copy_len h \<and> last_copy_len h + remaining_length h = cap))"

section \<open>The receiver works byte by byte\<close>

lemma rx_inv_header_byte:
  "rx_inv h \<Longrightarrow> remaining_length h = 0 \<Longrightarrow> header_index h < 15 \<Longrightarrow> rx_inv (header_byte h b)"
  by (auto simp: rx_inv_def header_byte_def)

lemma rx_inv_header_done:
  "rx_inv h \<Longrightarrow> remaining_length h = 0 \<Longrightarrow> header_index h = 15 \<Longrightarrow> rx_inv (header_done h)"
  by (auto simp: rx_inv_def header_done_def Let_def)

lemma rx_inv_absorb:
  "rx_inv h \<Longrightarrow> length xs < remaining_length h \<Longrightarrow> rx_inv (absorb h xs)"
  by (auto simp: rx_inv_def absorb_def split: option.splits)

lemma rx_inv_reset: "rx_inv h \<Longrightarrow> remaining_length h = 0 \<Longrightarrow> rx_inv (reset_message h)"
  by (auto simp: rx_inv_def reset_message_def)

lemma finish_Inr:
  "finish h = (ms, Inr h') \<Longrightarrow>
   (remaining_length h = 0 \<and> h' = reset_message h) \<or> (remaining_length h > 0 \<and> h' = h)"
  by (auto simp: finish_def rx_bind_def split: if_splits prod.splits sum.splits)

lemma rx_inv_finish_absorb:
  assumes "rx_inv h" "0 < length xs" "length xs \<le> remaining_length h"
    and "finish (absorb h xs) = (ms, Inr h')"
  shows "rx_inv h'"
proof (cases "length xs < remaining_length h")
  case True
  with assms finish_Inr [OF assms(4)] rx_inv_absorb [OF assms(1) True] show ?thesis
    by (auto simp: absorb_def)
next
  case False
  with assms have "h' = reset_message (absorb h xs)"
    using finish_Inr [OF assms(4)] by (auto simp: absorb_def)
  with assms(1,2) False assms(3) show ?thesis
    by (auto simp: rx_inv_def reset_message_def absorb_def)
qed

lemma rx_byte_inv:
  assumes "rx_inv h" "rx_byte h b = (ms, Inr h')"
  shows "rx_inv h'"
proof (cases "remaining_length h = 0")
  case True
  then have "rx_inv (header_done (header_byte h b))" if "header_index h = 14"
    using that assms(1) rx_inv_header_byte [of h b]
    by (intro rx_inv_header_done) (simp_all add: header_byte_def)
  with True assms show ?thesis
    by (auto simp: rx_byte_def rx_inv_header_byte split: if_splits)
next
  case False
  with assms(2) have "finish (absorb h [b]) = (ms, Inr h')" by (simp add: rx_byte_def)
  with assms(1) False show ?thesis by (intro rx_inv_finish_absorb [of h "[b]" ms h']) simp_all
qed

lemma absorb_append: "absorb (absorb h xs) ys = absorb h (xs @ ys)"
  by (cases "message_buffer h") (auto simp: absorb_def add.assoc)

lemma rx_bytes_payload:
  "xs \<noteq> [] \<Longrightarrow> length xs \<le> remaining_length h \<Longrightarrow> rx_fold rx_byte h xs = finish (absorb h xs)"
proof (induction xs arbitrary: h)
  case Nil
  then show ?case by simp
next
  case (Cons x xs)
  then have x: "rx_byte h x = finish (absorb h [x])" by (auto simp: rx_byte_def)
  show ?case
  proof (cases "xs = []")
    case True
    with x show ?thesis by simp
  next
    case False
    with Cons.prems have "1 < remaining_length h" by (cases xs) auto
    with Cons.prems
    have "0 < remaining_length (absorb h [x])" "length xs \<le> remaining_length (absorb h [x])"
      by (simp_all add: absorb_def)
    with x Cons.IH [OF False, of "absorb h [x]"] show ?thesis
      by (simp add: finish_def absorb_append)
  qed
qed

lemma copy_payload_finish:
  assumes "rx_inv h" "0 < remaining_length h" "data \<noteq> []" "length data \<le> SECUREC_MEM_MAX_LEN"
  defines "k \<equiv> min (remaining_length h) (length data)"
  shows "copy_payload h data (length data) =
    rx_bind (finish (absorb h (take k data))) (\<lambda>h'. ([], Inr (h', drop k data, length data - k)))"
proof -
  obtain cap buf where buf: "message_buffer h = Some (cap, buf)"
    using assms(1,2) by (auto simp: rx_inv_def split: option.splits)
  with assms(1,2) have lens: "length buf = last_copy_len h" "last_copy_len h + remaining_length h = cap"
    by (auto simp: rx_inv_def)
  have k: "0 < k" "k \<le> length data" "k \<le> remaining_length h" "k \<le> SECUREC_MEM_MAX_LEN"
    "(if remaining_length h \<le> length data then remaining_length h else length data) = k"
    using assms(2-4) by (auto simp: k_def)
  have copy: "memcpy_s_at buf (last_copy_len h) k data k = (0, buf @ take k data)"
    using k lens by (simp add: memcpy_s_at_def EOK_def)
  show ?thesis
    using buf lens k assms(2,3)
    by (simp add: copy_payload_def copy finish_def absorb_def rx_bind_assoc Let_def)
qed

lemma header_loop_bytes:
  assumes "rx_inv h" "remaining_length h = 0" "i \<le> length data"
    and "int i \<le> header_index h + 1" "i = 0 \<or> header_index h < 15"
  shows "case header_loop h data i (length data - i) of
      Inl e \<Rightarrow> rx_fold rx_byte h (drop i data) = ([], Inl e)
    | Inr (h', data', num') \<Rightarrow> rx_inv h' \<and> (num' = 0 \<or> num' = length data') \<and>
        rx_fold rx_byte h (drop i data) = rx_fold rx_byte h' (take num' data')"
  using assms
proof (induction "length data - i" arbitrary: h i)
  case 0
  then show ?case by (subst header_loop.simps) simp
next
  case (Suc n)
  then have i: "i < length data" by simp
  then have data: "drop i data = data ! i # drop (Suc i) data" by (simp add: Cons_nth_drop_Suc)
  consider "header_index h \<ge> 15" | "header_index h = 14" | "header_index h < 14" by linarith
  then show ?case
  proof cases
    case 1
    with Suc.prems have "i = 0" by simp
    with 1 Suc.prems i show ?thesis
      by (subst header_loop.simps) (cases data; simp add: kHeaderLen_def rx_byte_def)
  next
    case 2
    have "rx_inv (header_done (header_byte h (data ! i)))"
      using 2 Suc.prems rx_inv_header_byte [of h "data ! i"]
      by (intro rx_inv_header_done) (simp_all add: header_byte_def)
    with 2 Suc.prems i data show ?thesis
      by (subst header_loop.simps)
         (simp add: kHeaderLen_def rx_byte_def header_byte_def header_done_def Let_def)
  next
    case 3
    let ?h = "header_byte h (data ! i)"
    have IH: "case header_loop ?h data (Suc i) (length data - Suc i) of
        Inl e \<Rightarrow> rx_fold rx_byte ?h (drop (Suc i) data) = ([], Inl e)
      | Inr (h', data', num') \<Rightarrow> rx_inv h' \<and> (num' = 0 \<or> num' = length data') \<and>
          rx_fold rx_byte ?h (drop (Suc i) data) = rx_fold rx_byte h' (take num' data')"
      using Suc.hyps(2) Suc.prems 3 rx_inv_header_byte [of h "data ! i"]
      by (intro Suc.hyps(1)) (simp_all add: header_byte_def)
    have "header_loop h data i (length data - i) = header_loop ?h data (Suc i) (length data - Suc i)"
      using 3 Suc.prems i by (subst header_loop.simps) (simp add: kHeaderLen_def header_byte_def rx_inv_def Let_def)
    moreover have "rx_fold rx_byte h (drop i data) = rx_fold rx_byte ?h (drop (Suc i) data)"
      using 3 Suc.prems data by (simp add: rx_byte_def)
    ultimately show ?thesis using IH by (simp only: )
  qed
qed

lemma copy_then_rest:
  assumes IH: "\<And>h' d. length d < N \<Longrightarrow> rx_inv h' \<Longrightarrow> length d \<le> SECUREC_MEM_MAX_LEN \<Longrightarrow>
      receive_loop h' d (length d) = rx_fold rx_byte h' d"
    and h: "rx_inv h" "0 < remaining_length h" and d: "d \<noteq> []" "length d \<le> SECUREC_MEM_MAX_LEN"
    and N: "length d \<le> N"
  shows "rx_bind (copy_payload h d (length d)) (\<lambda>(h2, d2, n2). receive_loop h2 d2 n2) =
    rx_fold rx_byte h d"
proof -
  define k where "k = min (remaining_length h) (length d)"
  have k: "0 < k" "k \<le> length d" "k \<le> remaining_length h"
    using h(2) d(1) by (auto simp: k_def)
  have "receive_loop h2 (drop k d) (length d - k) = rx_fold rx_byte h2 (drop k d)"
    if "finish (absorb h (take k d)) = (ms, Inr h2)" for ms h2
    using IH [of "drop k d" h2] k d N rx_inv_finish_absorb [OF h(1) _ _ that] by simp
  then have "rx_bind (finish (absorb h (take k d))) (\<lambda>h2. receive_loop h2 (drop k d) (length d - k)) =
      rx_bind (finish (absorb h (take k d))) (\<lambda>h2. rx_fold rx_byte h2 (drop k d))"
    by (intro rx_bind_cong_Inr) blast
  also have "\<dots> = rx_fold rx_byte h d"
    using rx_bytes_payload [of "take k d" h] k d(1) rx_fold_append [of rx_byte h "take k d" "drop k d"]
    by simp
  finally show ?thesis
    using copy_payload_finish [OF h d] by (simp add: k_def rx_bind_assoc)
qed

lemma header_then_rest:
  assumes IH: "\<And>h' d. length d < length data \<Longrightarrow> rx_inv h' \<Longrightarrow> length d \<le> SECUREC_MEM_MAX_LEN \<Longrightarrow>
      receive_loop h' d (length d) = rx_fold rx_byte h' d"
    and h: "rx_inv h1" "n1 = 0 \<or> n1 = length d1" "n1 < length data"
    and data: "length data \<le> SECUREC_MEM_MAX_LEN"
  shows "rx_bind (copy_payload h1 d1 n1) (\<lambda>(h2, d2, n2). receive_loop h2 d2 n2) =
    rx_fold rx_byte h1 (take n1 d1)"
proof (cases "n1 = 0 \<or> remaining_length h1 = 0")
  case True
  then have c: "copy_payload h1 d1 n1 = ([], Inr (h1, d1, n1))" by (auto simp: copy_payload_def)
  from h(2) show ?thesis
  proof
    assume "n1 = 0"
    with c show ?thesis by (simp add: receive_loop.simps [of h1 d1 0])
  next
    assume "n1 = length d1"
    with c h data show ?thesis by (simp add: IH)
  qed
next
  case False
  with h data copy_then_rest [of "length data" h1 d1] IH show ?thesis by simp
qed

lemma receive_loop_bytes:
  assumes "rx_inv h" "length data \<le> SECUREC_MEM_MAX_LEN"
  shows "receive_loop h data (length data) = rx_fold rx_byte h data"
  using assms
proof (induction "length data" arbitrary: h data rule: less_induct)
  case less
  consider "data = []" | "data \<noteq> []" "remaining_length h > 0" | "data \<noteq> []" "remaining_length h = 0"
    by blast
  then show ?case
  proof cases
    case 1
    then show ?thesis by (simp add: receive_loop.simps [of h "[]" 0])
  next
    case 2
    with copy_then_rest [of "length data" h data] less show ?thesis
      by (subst receive_loop.simps) simp
  next
    case 3
    have H: "case header_loop h data 0 (length data) of
        Inl e \<Rightarrow> rx_fold rx_byte h data = ([], Inl e)
      | Inr (h', data', num') \<Rightarrow> rx_inv h' \<and> (num' = 0 \<or> num' = length data') \<and>
          rx_fold rx_byte h data = rx_fold rx_byte h' (take num' data')"
      using header_loop_bytes [OF less.prems(1) 3(2), of 0 data, unfolded drop_0 diff_zero]
        less.prems(1) by (simp add: rx_inv_def)
    show ?thesis
    proof (cases "header_loop h data 0 (length data)")
      case (Inl e)
      with H 3 show ?thesis by (subst receive_loop.simps) simp
    next
      case (Inr t)
      obtain h1 d1 n1 where t: "t = (h1, d1, n1)" by (cases t)
      with Inr 3 have "n1 < length data"
        using header_loop_num [of h data 0 "length data" h1 d1 n1] by (simp add: kHeaderLen_def)
      with header_then_rest [of data h1 n1 d1] less H Inr t 3 show ?thesis
        by (subst receive_loop.simps) simp
    qed
  qed
qed

section \<open>Frames on the wire\<close>

definition encode_frame :: "frame \<Rightarrow> byte list" where
  "encode_frame f =
     header_bytes (frame_header (frame_proto f) (word_of_nat (length (frame_meta f))) (length (frame_data f)))
     @ frame_meta f @ frame_data f"

text \<open>A frame the sender accepts and the receiver can take: sizes fit and it is not empty.\<close>

definition wf_frame :: "frame \<Rightarrow> bool" where
  "wf_frame f \<longleftrightarrow> length (frame_meta f) < 2 ^ 32 \<and>
     0 < length (frame_meta f) + length (frame_data f) \<and>
     length (frame_meta f) + length (frame_data f) < 2 ^ 64"

definition rx_idle :: "tcp_message_handler \<Rightarrow> bool" where
  "rx_idle h \<longleftrightarrow> rx_inv h \<and> remaining_length h = 0 \<and> header_index h = -1 \<and> message_callback h"

lemma length_header_bytes [simp]: "length (header_bytes mh) = 16"
  by (simp add: header_bytes_def)

lemma header_fields:
  assumes "length a = 4" "length b = 4" "length c = 8"
  shows "read_header (a @ b @ c) = \<lparr> message_proto = word_of_nat (le_nat a),
    message_meta_length = word_of_nat (le_nat b), message_length = word_of_nat (le_nat c) \<rparr>"
  using assms by (simp add: read_header_def)

lemma read_header_bytes [codec_simps]: "read_header (header_bytes mh) = mh"
  unfolding header_bytes_def by (simp only: header_fields length_le_bytes le_nat_u32 le_nat_u64) simp

lemma rx_bytes_header:
  assumes "remaining_length h = 0" "header_index h = -1" "length (header h) = 16"
  shows "length bs \<le> 15 \<Longrightarrow> rx_fold rx_byte h bs =
    ([], Inr (h\<lparr> header_index := int (length bs) - 1, header := bs @ drop (length bs) (header h) \<rparr>))"
proof (induction bs rule: rev_induct)
  case Nil
  with assms show ?case by simp
next
  case (snoc b bs)
  have "drop (length bs) (header h) = header h ! length bs # drop (Suc (length bs)) (header h)"
    using snoc.prems assms(3) by (simp add: Cons_nth_drop_Suc)
  with snoc assms(1) show ?case
    by (simp add: rx_simps rx_byte_def header_byte_def)
qed

lemma rx_bytes_header_complete:
  assumes "remaining_length h = 0" "header_index h = -1" "length (header h) = 16"
  shows "rx_fold rx_byte h (header_bytes mh) =
    ([], Inr (h\<lparr> header_index := 15, header := header_bytes mh, msg_header := mh,
       remaining_length := unat (message_length mh),
       message_buffer := Some (unat (message_length mh), []) \<rparr>))"
proof -
  define bs b where "bs = butlast (header_bytes mh)" and "b = last (header_bytes mh)"
  have hb: "header_bytes mh = bs @ [b]" and len: "length bs = 15"
    using append_butlast_last_id [of "header_bytes mh"] length_header_bytes [of mh]
    unfolding bs_def b_def by (metis list.size(3) zero_neq_numeral) simp
  have "length (drop 15 (header h)) = Suc 0" using assms(3) by simp
  then obtain z where z: "drop 15 (header h) = [z]"
    using length_Suc_conv [of "drop 15 (header h)" 0] by auto
  have "rx_fold rx_byte h bs = ([], Inr (h\<lparr> header_index := 14, header := bs @ [z] \<rparr>))"
    using rx_bytes_header [OF assms, of bs] len z by simp
  then show ?thesis
    using len assms(1) read_header_bytes [of mh] list_update_length [of bs z "[]" b]
    by (simp add: hb rx_simps rx_byte_def header_byte_def header_done_def Let_def)
qed

lemma frame_header_length:
  assumes "m < 2 ^ 32" "m + d < 2 ^ 64"
  shows "unat (message_length (frame_header p (word_of_nat m) d)) = m + d"
    and "unat (message_meta_length (frame_header p (word_of_nat m) d)) = m"
proof -
  have "(ucast (word_of_nat m :: u32) :: u64) = word_of_nat m"
    using assms(1) by (simp add: unsigned_of_nat take_bit_nat_eq_self)
  then have "message_length (frame_header p (word_of_nat m) d) = word_of_nat (m + d)"
    by (simp add: frame_header_def add.commute del: of_nat_add flip: of_nat_add)
  then show "unat (message_length (frame_header p (word_of_nat m) d)) = m + d"
    using assms(2) by (simp only: unat_of_nat) simp
  show "unat (message_meta_length (frame_header p (word_of_nat m) d)) = m"
    using assms(1) by (simp add: frame_header_def unat_of_nat)
qed

lemma rx_bytes_frame:
  assumes "rx_idle h" "wf_frame f"
  shows "\<exists>h'. rx_idle h' \<and> rx_fold rx_byte h (encode_frame f) = ([f], Inr h')"
proof -
  define mh where
    "mh = frame_header (frame_proto f) (word_of_nat (length (frame_meta f))) (length (frame_data f))"
  define h1 where "h1 = h\<lparr> header_index := 15, header := header_bytes mh, msg_header := mh,
     remaining_length := unat (message_length mh),
     message_buffer := Some (unat (message_length mh), []) \<rparr>"
  define payload where "payload = frame_meta f @ frame_data f"
  have len: "unat (message_length mh) = length payload"
    "unat (message_meta_length mh) = length (frame_meta f)" "message_proto mh = frame_proto f"
    using assms(2) frame_header_length
    by (auto simp: mh_def payload_def wf_frame_def frame_header_def)
  have "rx_fold rx_byte h (header_bytes mh) = ([], Inr h1)"
    using assms(1) rx_bytes_header_complete by (simp add: rx_idle_def rx_inv_def h1_def)
  moreover have "rx_fold rx_byte h1 payload = finish (absorb h1 payload)"
    using assms(2) len by (intro rx_bytes_payload) (auto simp: h1_def payload_def wf_frame_def)
  moreover have "deliver (absorb h1 payload) = ([f], Inr ())"
    using len by (simp add: deliver_def absorb_def h1_def) (simp add: payload_def)
  then have "finish (absorb h1 payload) = ([f], Inr (reset_message (absorb h1 payload)))"
    using assms(1) len by (simp add: finish_def rx_simps rx_idle_def) (simp add: absorb_def h1_def)
  moreover have "rx_idle (reset_message (absorb h1 payload))"
    using assms(1) len by (simp add: rx_idle_def rx_inv_def reset_message_def absorb_def h1_def)
  ultimately show ?thesis
    by (auto simp: encode_frame_def mh_def [symmetric] payload_def [symmetric] rx_simps)
qed

interpretation tcp_rx: framing "\<lambda>h xs. ReceiveMessage h (Some xs)" rx_byte
  "\<lambda>xs. length xs \<le> SECUREC_MEM_MAX_LEN" rx_inv encode_frame wf_frame rx_idle
proof unfold_locales
  show "ReceiveMessage h (Some xs) = rx_fold rx_byte h xs"
    if "rx_inv h" "length xs \<le> SECUREC_MEM_MAX_LEN" for h xs
    using that by (simp add: ReceiveMessage_def receive_loop_bytes)
  show "rx_inv h" if "rx_idle h" for h
    using that by (simp add: rx_idle_def)
qed (fact rx_byte_inv rx_bytes_frame)+

lemma SendMessage_frame:
  assumes "length meta < 2 ^ 32"
    and "\<And>out bs. bufferevent_write out bs = Some (out @ bs)"
  shows "SendMessage bufferevent_write (Some out) (Some meta) protos (Some data) =
    Inr (True, out @ encode_frame \<lparr> frame_proto = protos, frame_meta = meta, frame_data = data \<rparr>)"
proof -
  have "SizeToUint (word_of_nat (length meta)) = Inr (word_of_nat (length meta))"
    using assms(1) by (simp add: SizeToUint_Inr unat_of_nat unsigned_of_nat take_bit_nat_eq_self)
  then show ?thesis
    using assms(2) by (simp add: SendMessage_def write_part_def encode_frame_def)
qed

text \<open>A sequence of calls on one connection; the result is false when some write failed.\<close>

primrec send_frames :: "bev_write \<Rightarrow> byte list \<Rightarrow> frame list \<Rightarrow> exn + bool \<times> byte list" where
  "send_frames bufferevent_write out [] = Inr (True, out)"
| "send_frames bufferevent_write out (f # fs) =
     (case SendMessage bufferevent_write (Some out) (Some (frame_meta f)) (frame_proto f)
             (Some (frame_data f)) of
        Inl e \<Rightarrow> Inl e
      | Inr (res, out1) \<Rightarrow> map_sum id (\<lambda>(r, out2). (res \<and> r, out2)) (send_frames bufferevent_write out1 fs))"

lemma send_frames_encode:
  assumes "list_all wf_frame fs" "\<And>out bs. bufferevent_write out bs = Some (out @ bs)"
  shows "send_frames bufferevent_write out fs = Inr (True, out @ concat (map encode_frame fs))"
  using assms(1)
proof (induction fs arbitrary: out)
  case (Cons f fs)
  then show ?case
    by (cases f) (simp add: SendMessage_frame [OF _ assms(2)] wf_frame_def)
qed simp

section \<open>Properties\<close>

text \<open>
  The receive loop is independent of how the stream is cut.  From any state the handler can be
  in, two chunk sequences with the same concatenation deliver the same frames and end in the
  same state or the same failure.
\<close>

theorem receive_chunking_irrelevant:
  assumes "rx_inv h" "concat cs = concat ds"
    and "list_all (\<lambda>xs. length xs \<le> SECUREC_MEM_MAX_LEN) cs"
    and "list_all (\<lambda>xs. length xs \<le> SECUREC_MEM_MAX_LEN) ds"
  shows "rx_fold (\<lambda>h xs. ReceiveMessage h (Some xs)) h cs = rx_fold (\<lambda>h xs. ReceiveMessage h (Some xs)) h ds"
  by (rule tcp_rx.chunking_irrelevant [OF assms(1,3,4,2)])

theorem receive_chunking_irrelevant_witness:
  "rx_fold (\<lambda>h xs. ReceiveMessage h (Some xs)) (new_handler (replicate 16 0)) [[1, 2], [3]] =
   rx_fold (\<lambda>h xs. ReceiveMessage h (Some xs)) (new_handler (replicate 16 0)) [[1], [], [2, 3]]"
  by (rule receive_chunking_irrelevant)
     (simp_all add: rx_inv_def new_handler_def SECUREC_MEM_MAX_LEN_def)

text \<open>
  C3: frames survive the wire.  If every write to the output buffer succeeds, the calls
  \<open>SendMessage\<close> for well-formed frames put bytes on the stream which, cut into any chunks, make an
  idle receiver call its callback exactly once per frame, in order, with the same protocol, meta
  bytes and data, and leave it idle.
\<close>

theorem send_receive_roundtrip:
  assumes "rx_idle h" "list_all wf_frame fs"
    and appends: "\<And>out bs. bufferevent_write out bs = Some (out @ bs)"
    and "list_all (\<lambda>xs. length xs \<le> SECUREC_MEM_MAX_LEN) cs"
    and "send_frames bufferevent_write [] fs = Inr (True, concat cs)"
  shows "\<exists>h'. rx_idle h' \<and> rx_fold (\<lambda>h xs. ReceiveMessage h (Some xs)) h cs = (fs, Inr h')"
proof -
  have "concat cs = concat (map encode_frame fs)"
    using send_frames_encode [OF assms(2) appends, of "[]"] assms(5) by simp
  then show ?thesis by (rule tcp_rx.frames_delivered [OF assms(1,2,4)])
qed

theorem send_receive_roundtrip_witness:
  "\<exists>h'. rx_idle h' \<and>
     rx_fold (\<lambda>h xs. ReceiveMessage h (Some xs)) (SetCallback (new_handler (replicate 16 0)) True)
       [[1, 0, 0, 0, 2, 0], [0, 0, 3, 0, 0, 0, 0, 0, 0, 0, 7], [8, 9]] =
     ([\<lparr> frame_proto = 1, frame_meta = [7, 8], frame_data = [9] \<rparr>], Inr h')"
proof (rule send_receive_roundtrip [where bufferevent_write = "\<lambda>out bs. Some (out @ bs)"])
  show "send_frames (\<lambda>out bs. Some (out @ bs)) [] [\<lparr> frame_proto = 1, frame_meta = [7, 8], frame_data = [9] \<rparr>] =
      Inr (True, concat [[1, 0, 0, 0, 2, 0], [0, 0, 3, 0, 0, 0, 0, 0, 0, 0, 7], [8, 9]])"
    by (simp add: SendMessage_frame encode_frame_def header_bytes_def frame_header_def codec_simps)
qed (simp_all add: rx_idle_def rx_inv_def new_handler_def SetCallback_def wf_frame_def
    SECUREC_MEM_MAX_LEN_def)

text \<open>
  The two headers the receiver does not survive.  After a header that announces a message of
  length 0 nothing is delivered and the next byte of the stream is written behind the header
  array; a header whose meta length exceeds its message length makes the receiver read behind its
  buffer when the message is complete.
\<close>

theorem malformed_header_undefined:
  assumes "rx_idle h"
  shows "(unat (message_length mh) = 0 \<longrightarrow>
      ReceiveMessage h (Some (header_bytes mh @ [b])) = ([], Inl (Undefined ''header_ out of bounds''))) \<and>
    (length payload = unat (message_length mh) \<and> 0 < length payload \<and>
      unat (message_length mh) < unat (message_meta_length mh) \<and>
      16 + length payload \<le> SECUREC_MEM_MAX_LEN \<longrightarrow>
      ReceiveMessage h (Some (header_bytes mh @ payload)) =
        ([], Inl (Undefined ''meta length exceeds the buffer'')))"
proof
  have h: "rx_inv h" "remaining_length h = 0" "header_index h = -1" "length (header h) = 16"
    "message_callback h"
    using assms by (auto simp: rx_idle_def rx_inv_def)
  have bytes: "ReceiveMessage h (Some (header_bytes mh @ xs)) =
      rx_fold rx_byte (h\<lparr> header_index := 15, header := header_bytes mh, msg_header := mh,
        remaining_length := unat (message_length mh),
        message_buffer := Some (unat (message_length mh), []) \<rparr>) xs"
    if "16 + length xs \<le> SECUREC_MEM_MAX_LEN" for xs
    using that h(1) rx_bytes_header_complete [OF h(2-4), of mh]
    by (simp add: ReceiveMessage_def receive_loop_bytes [of h "header_bytes mh @ xs", simplified] rx_simps)
  show "unat (message_length mh) = 0 \<longrightarrow>
      ReceiveMessage h (Some (header_bytes mh @ [b])) = ([], Inl (Undefined ''header_ out of bounds''))"
    using bytes [of "[b]"] by (simp add: rx_byte_def SECUREC_MEM_MAX_LEN_def)
  show "length payload = unat (message_length mh) \<and> 0 < length payload \<and>
      unat (message_length mh) < unat (message_meta_length mh) \<and>
      16 + length payload \<le> SECUREC_MEM_MAX_LEN \<longrightarrow>
      ReceiveMessage h (Some (header_bytes mh @ payload)) =
        ([], Inl (Undefined ''meta length exceeds the buffer''))"
    using bytes [of payload] h(5)
    by (auto simp: rx_bytes_payload finish_def absorb_def deliver_def)
qed

theorem malformed_header_undefined_witness:
  "ReceiveMessage (SetCallback (new_handler (replicate 16 0)) True)
     (Some (header_bytes \<lparr> message_proto = 1, message_meta_length = 0, message_length = 0 \<rparr> @ [5])) =
   ([], Inl (Undefined ''header_ out of bounds'')) \<and>
   ReceiveMessage (SetCallback (new_handler (replicate 16 0)) True)
     (Some (header_bytes \<lparr> message_proto = 1, message_meta_length = 4, message_length = 2 \<rparr> @ [5, 6])) =
   ([], Inl (Undefined ''meta length exceeds the buffer''))"
proof -
  have idle: "rx_idle (SetCallback (new_handler (replicate 16 0)) True)"
    by (simp add: rx_idle_def rx_inv_def new_handler_def SetCallback_def)
  show ?thesis
    using malformed_header_undefined [OF idle, of "\<lparr> message_proto = 1, message_meta_length = 0, message_length = 0 \<rparr>" 5 "[]"]
      malformed_header_undefined [OF idle, of "\<lparr> message_proto = 1, message_meta_length = 4, message_length = 2 \<rparr>" 5 "[5, 6]"]
    by (simp add: SECUREC_MEM_MAX_LEN_def)
qed

end
