(* ===== verification/Comm_Messages.thy ===== *)
theory Comm_Messages
  imports Prelude
begin

text \<open>
  The messages of the cluster protocol (\<open>src/even-http/ps/core/protos/comm.proto\<close>) as records,
  the description of a node (\<open>node_info.h\<close>), and the interface of their protobuf codecs.  The
  classes themselves are generated code; what the nodes rely on is that parsing a
  serialised message returns it.  An \<open>int32\<close> field is an integer.
\<close>

datatype NodeCommand = TERMINATE | REGISTER | HEARTBEAT | SEND_DATA | FETCH_SERVER | FINISH
  | COLLECTIVE_SEND_DATA

datatype NodeRole = SERVER | WORKER | SCHEDULER

record MessageMeta =
  cmd :: NodeCommand
  request_id :: u64
  role :: NodeRole
  rank_id :: int
  user_cmd :: int

record RegisterMessage =
  rm_ip :: string
  rm_port :: int
  rm_node_id :: string
  rm_role :: NodeRole

record RegisterRespMessage =
  rr_node_id :: string
  rr_rank_id :: int

record HeartbeatMessage =
  hb_node_id :: string
  hb_is_node_finish :: bool

datatype NodeAttribute = IS_CLUSTER_READY | IS_CLUSTER_FINISH | IS_CLUSTER_TIMEOUT | IS_NODE_TIMEOUT

record HeartbeatRespMessage =
  node_attribute :: "(NodeAttribute \<times> bool) list"

record ServersMeta =
  sm_rank_id :: int
  sm_ip :: string
  sm_port :: int

record FetchServersMessage =
  fs_node_id :: string

record FetchServersRespMessage =
  servers_meta :: "ServersMeta list"

record FinishMessage =
  fm_node_id :: string

datatype Protos = RAW | PROTOBUF | FLATBUFFERS

definition protos_code :: "Protos \<Rightarrow> u32" where
  "protos_code p = (case p of RAW \<Rightarrow> 0 | PROTOBUF \<Rightarrow> 1 | FLATBUFFERS \<Rightarrow> 2)"

datatype NodeEvent = CLUSTER_TIMEOUT | NODE_TIMEOUT | SCHEDULER_TIMEOUT

record NodeInfo =
  ip :: string
  port :: u16
  node_id :: string
  node_role :: NodeRole
  node_rank_id :: u32

definition default_NodeInfo :: NodeInfo where
  "default_NodeInfo = \<lparr> ip = '''', port = 0, node_id = '''', node_role = SCHEDULER, node_rank_id = 0 \<rparr>"

section \<open>Unordered maps and sets\<close>

text \<open>
  \<open>std::unordered_map\<close> and \<open>std::unordered_set\<close> are lists without repeated keys; \<open>map_set\<close> is
  \<open>m[k] = v\<close> and \<open>map_index\<close> is reading through \<open>operator[]\<close>, which inserts the default value for
  a missing key.  No statement below depends on the order of the elements.
\<close>

fun map_set :: "'k \<Rightarrow> 'v \<Rightarrow> ('k \<times> 'v) list \<Rightarrow> ('k \<times> 'v) list" where
  "map_set k v [] = [(k, v)]"
| "map_set k v ((k', v') # m) = (if k' = k then (k, v) # m else (k', v') # map_set k v m)"

definition map_index :: "'v \<Rightarrow> 'k \<Rightarrow> ('k \<times> 'v) list \<Rightarrow> 'v \<times> ('k \<times> 'v) list" where
  "map_index dflt k m = (case map_of m k of Some v \<Rightarrow> (v, m) | None \<Rightarrow> (dflt, map_set k dflt m))"

definition map_erase :: "'k \<Rightarrow> ('k \<times> 'v) list \<Rightarrow> ('k \<times> 'v) list" where
  "map_erase k m = filter (\<lambda>(k', v). k' \<noteq> k) m"

definition set_insert :: "'a \<Rightarrow> 'a list \<Rightarrow> 'a list" where
  "set_insert x xs = (if x \<in> set xs then xs else xs @ [x])"

named_theorems map_simps \<open>lookup and update of unordered maps\<close>

lemma map_of_map_set [simp]: "map_of (map_set k v m) = (map_of m)(k \<mapsto> v)"
  by (induction k v m rule: map_set.induct) auto

lemma keys_map_set: "map fst (map_set k v m) = (if k \<in> fst ` set m then map fst m else map fst m @ [k])"
  by (induction k v m rule: map_set.induct) auto

lemma map_set_fresh: "k \<notin> fst ` set m \<Longrightarrow> map_set k v m = m @ [(k, v)]"
  by (induction k v m rule: map_set.induct) auto

lemma distinct_map_set [simp]: "distinct (map fst m) \<Longrightarrow> distinct (map fst (map_set k v m))"
  by (auto simp: keys_map_set)

lemma set_keys_map_set [simp]: "fst ` set (map_set k v m) = insert k (fst ` set m)"
  using arg_cong [OF keys_map_set [of k v m], of set] by (auto split: if_splits)

lemma map_of_map_erase [simp]: "map_of (map_erase k m) = (map_of m)(k := None)"
  by (induction m) (auto simp: map_erase_def)

lemma distinct_map_erase [simp]: "distinct (map fst m) \<Longrightarrow> distinct (map fst (map_erase k m))"
  unfolding map_erase_def by (induction m) auto

lemma set_set_insert [simp]: "set (set_insert x xs) = insert x (set xs)"
  by (auto simp: set_insert_def)

lemma distinct_set_insert [simp]: "distinct (set_insert x xs) = distinct xs"
  by (auto simp: set_insert_def)

lemma map_index_keys [simp]: "fst ` set (snd (map_index d k m)) = insert k (fst ` set m)"
  by (force simp: map_index_def map_of_SomeD dest: map_of_SomeD split: option.splits)

lemma map_index_present: "map_of m k = Some v \<Longrightarrow> map_index d k m = (v, m)"
  by (simp add: map_index_def)

lemma map_index_absent: "map_of m k = None \<Longrightarrow> map_index d k m = (d, m @ [(k, d)])"
  by (simp add: map_index_def) (simp add: map_of_eq_None_iff map_set_fresh)

lemma distinct_map_index [simp]:
  "distinct (map fst m) \<Longrightarrow> distinct (map fst (snd (map_index d k m)))"
  by (simp add: map_index_def split: option.splits)

lemma map_of_rev_distinct: "distinct (map fst m) \<Longrightarrow> map_of (rev m) = map_of m"
proof (induction m)
  case (Cons x m)
  then have "map_of m (fst x) = None" by (simp add: map_of_eq_None_iff)
  with Cons show ?case by (cases x) (auto simp: fun_eq_iff map_add_def split: option.split)
qed simp

section \<open>The protobuf codecs\<close>

text \<open>
  \<open>SerializeAsString\<close> and \<open>ParseFromArray\<close> of one message class.  The nodes ignore the result of
  \<open>ParseFromArray\<close>; \<open>parse\<close> is the message the object holds after the call.
\<close>

record 'm codec =
  serialize :: "'m \<Rightarrow> byte list"
  parse :: "byte list \<Rightarrow> 'm"

definition codec_ok :: "'m codec \<Rightarrow> bool" where
  "codec_ok c \<longleftrightarrow> (\<forall>m. parse c (serialize c m) = m)"

record codecs =
  c_meta :: "MessageMeta codec"
  c_register :: "RegisterMessage codec"
  c_register_resp :: "RegisterRespMessage codec"
  c_heartbeat :: "HeartbeatMessage codec"
  c_heartbeat_resp :: "HeartbeatRespMessage codec"
  c_fetch_servers :: "FetchServersMessage codec"
  c_fetch_servers_resp :: "FetchServersRespMessage codec"
  c_finish :: "FinishMessage codec"

definition codecs_ok :: "codecs \<Rightarrow> bool" where
  "codecs_ok cs \<longleftrightarrow> codec_ok (c_meta cs) \<and> codec_ok (c_register cs) \<and> codec_ok (c_register_resp cs) \<and>
     codec_ok (c_heartbeat cs) \<and> codec_ok (c_heartbeat_resp cs) \<and> codec_ok (c_fetch_servers cs) \<and>
     codec_ok (c_fetch_servers_resp cs) \<and> codec_ok (c_finish cs)"

lemma codec_roundtrip: "codec_ok c \<Longrightarrow> parse c (serialize c m) = m"
  by (simp add: codec_ok_def)

end
