(* ===== verification/Comm_Util.thy ===== *)
theory Comm_Util
  imports Comm_Messages
begin

text \<open>
  \<open>CommUtil\<close> and \<open>ClusterConfig\<close> of \<open>src/even-http/ps/core\<close>: the check of IP addresses with its
  regular expression, the identifiers of nodes, the validation of ranks, bounded retry, and the
  static configuration.  The C library's \<open>inet_addr\<close>, the list \<open>getifaddrs\<close> returns and the
  random numbers are parameters.
\<close>

section \<open>Regular expressions\<close>

text \<open>
  The part of \<open>std::regex\<close> (ECMAScript) that the pattern uses; \<open>regex_match\<close> asks for the whole
  string.  A range is a set of characters by code; \<open>AnyChar\<close> is \<open>.\<close>, any character but a line
  terminator.
\<close>

datatype rexp = Empty | Eps | Range nat nat | AnyChar | Alt rexp rexp | Seq rexp rexp

definition Opt :: "rexp \<Rightarrow> rexp" where "Opt r = Alt r Eps"
definition Chr :: "nat \<Rightarrow> rexp" where "Chr c = Range c c"

primrec nullable :: "rexp \<Rightarrow> bool" where
  "nullable Empty = False"
| "nullable Eps = True"
| "nullable (Range a b) = False"
| "nullable AnyChar = False"
| "nullable (Alt r s) = (nullable r \<or> nullable s)"
| "nullable (Seq r s) = (nullable r \<and> nullable s)"

primrec deriv :: "nat \<Rightarrow> rexp \<Rightarrow> rexp" where
  "deriv c Empty = Empty"
| "deriv c Eps = Empty"
| "deriv c (Range a b) = (if a \<le> c \<and> c \<le> b then Eps else Empty)"
| "deriv c AnyChar = (if c = 10 \<or> c = 13 then Empty else Eps)"
| "deriv c (Alt r s) = Alt (deriv c r) (deriv c s)"
| "deriv c (Seq r s) = (if nullable r then Alt (Seq (deriv c r) s) (deriv c s) else Seq (deriv c r) s)"

definition regex_match :: "string \<Rightarrow> rexp \<Rightarrow> bool" where
  "regex_match s r = nullable (fold (\<lambda>c r. deriv (of_char c) r) s r)"

primrec lang :: "rexp \<Rightarrow> nat list set" where
  "lang Empty = {}"
| "lang Eps = {[]}"
| "lang (Range a b) = {[c] | c. a \<le> c \<and> c \<le> b}"
| "lang AnyChar = {[c] | c. c \<noteq> 10 \<and> c \<noteq> 13}"
| "lang (Alt r s) = lang r \<union> lang s"
| "lang (Seq r s) = {u @ v | u v. u \<in> lang r \<and> v \<in> lang s}"

section \<open>CommUtil\<close>

text \<open>\<open>25[0-5]|2[0-4][0-9]|[01]?[0-9][0-9]?\<close>; the digit \<open>d\<close> has the code \<open>48 + d\<close>.\<close>

definition digit_re :: rexp where "digit_re = Range 48 57"

definition octet_re :: rexp where
  "octet_re = Alt (Seq (Chr 50) (Seq (Chr 53) (Range 48 53)))
     (Alt (Seq (Chr 50) (Seq (Range 48 52) digit_re))
          (Seq (Opt (Range 48 49)) (Seq digit_re (Opt digit_re))))"

definition ip_pattern :: rexp where
  "ip_pattern = (let group = Seq octet_re AnyChar in Seq group (Seq group (Seq group octet_re)))"

definition CheckIpWithRegex :: "string \<Rightarrow> bool" where
  "CheckIpWithRegex s = regex_match s ip_pattern"

text \<open>\<open>inet_addr\<close> yields a 32-bit value; \<open>INADDR_NONE\<close> is the value with all bits set.\<close>

definition CheckIp :: "(string \<Rightarrow> u32) \<Rightarrow> string \<Rightarrow> bool" where
  "CheckIp inet_addr s =
     (if \<not> CheckIpWithRegex s then False else if inet_addr s = - 1 then False else True)"

text \<open>
  One entry of \<open>getifaddrs\<close>: its name, whether it has an address, whether that is of the family
  \<open>AF_INET\<close>, whether the loopback flag is set, and what \<open>inet_ntop\<close> prints (\<open>None\<close> is a failure).
\<close>

record ifaddr =
  ifa_name :: string
  ifa_has_addr :: bool
  ifa_inet :: bool
  ifa_loopback :: bool
  ifa_text :: "string option"

fun find_interface :: "ifaddr list \<Rightarrow> exn + (string \<times> string)" where
  "find_interface [] = Inr ('''', '''')"
| "find_interface (ifa # rest) =
     (if \<not> ifa_has_addr ifa then find_interface rest
      else if ifa_inet ifa \<and> \<not> ifa_loopback ifa then
        (case ifa_text ifa of None \<Rightarrow> Inl (MsException ''net_ptr is null'')
         | Some t \<Rightarrow> Inr (ifa_name ifa, t))
      else find_interface rest)"

definition GetAvailableInterfaceAndIP :: "ifaddr list \<Rightarrow> exn + (string \<times> string)" where
  "GetAvailableInterfaceAndIP if_address =
     (case find_interface if_address of Inl e \<Rightarrow> Inl e
      | Inr r \<Rightarrow> if if_address = [] then Inl (MsException ''if_address is null'') else Inr r)"

text \<open>
  \<open>GenerateUUID\<close>: \<open>dis i\<close> is the i-th value drawn from the distribution on 0..15 and \<open>dis2\<close> the one
  drawn from 8..11.  Numbers are printed in hexadecimal.
\<close>

definition hex_digit :: "nat \<Rightarrow> char" where
  "hex_digit n = ''0123456789abcdef'' ! (n mod 16)"

definition hex_group :: "(nat \<Rightarrow> nat) \<Rightarrow> nat \<Rightarrow> nat \<Rightarrow> string" where
  "hex_group dis start n = map (\<lambda>i. hex_digit (dis i)) [start..<start + n]"

definition GenerateUUID :: "(nat \<Rightarrow> nat) \<Rightarrow> nat \<Rightarrow> string" where
  "GenerateUUID dis dis2 =
     hex_group dis 0 8 @ ''-'' @ hex_group dis 8 4 @ ''-4'' @ hex_group dis 12 3 @ ''-'' @
     [hex_digit dis2] @ hex_group dis 15 3 @ ''-'' @ hex_group dis 18 12"

definition NodeRoleToString :: "NodeRole \<Rightarrow> string" where
  "NodeRoleToString r = (case r of SCHEDULER \<Rightarrow> ''SCHEDULER'' | SERVER \<Rightarrow> ''SERVER'' | WORKER \<Rightarrow> ''WORKER'')"

text \<open>\<open>Retry\<close> over a function with effects: the state is threaded through the attempts.\<close>

primrec Retry :: "('s \<Rightarrow> bool \<times> 's) \<Rightarrow> nat \<Rightarrow> 's \<Rightarrow> bool \<times> 's" where
  "Retry func 0 s = (False, s)"
| "Retry func (Suc n) s = (case func s of (ok, s') \<Rightarrow> if ok then (True, s') else Retry func n s')"

section \<open>ClusterConfig\<close>

record cluster_config =
  worker_num :: u32
  server_num :: u32
  heartbeat_interval :: u32
  scheduler_host :: "string option"
  scheduler_port :: u16
  heartbeat_timeout :: u32
  cluster_available_timeout :: u32
  connect_interval :: u32
  scheduler_timeout :: u32

definition initial_config :: cluster_config where
  "initial_config = \<lparr> worker_num = 0, server_num = 0, heartbeat_interval = 1, scheduler_host = None,
     scheduler_port = 0, heartbeat_timeout = 30, cluster_available_timeout = 30000,
     connect_interval = 100, scheduler_timeout = 3600 * 5 \<rparr>"

text \<open>The counts are stored before the host is checked, also when the check throws.\<close>

definition ClusterConfig_Init ::
  "(string \<Rightarrow> u32) \<Rightarrow> u32 \<Rightarrow> u32 \<Rightarrow> string \<Rightarrow> u16 \<Rightarrow> cluster_config \<Rightarrow> (exn + unit) \<times> cluster_config" where
  "ClusterConfig_Init inet_addr w s host p cfg =
     (let cfg1 = cfg\<lparr> worker_num := w, server_num := s \<rparr> in
      if \<not> CheckIp inet_addr host then (Inl (MsException ''The scheduler_host is illegal''), cfg1)
      else (Inr (), cfg1\<lparr> scheduler_host := Some host, scheduler_port := p \<rparr>))"

definition set_heartbeat_interval :: "u32 \<Rightarrow> cluster_config \<Rightarrow> cluster_config" where
  "set_heartbeat_interval v cfg = cfg\<lparr> heartbeat_interval := v \<rparr>"

definition get_scheduler_host :: "cluster_config \<Rightarrow> exn + string" where
  "get_scheduler_host cfg =
     (case scheduler_host cfg of None \<Rightarrow> Inl (Undefined ''scheduler_host_ is null'') | Some h \<Rightarrow> Inr h)"

definition set_heartbeat_timeout :: "u32 \<Rightarrow> cluster_config \<Rightarrow> cluster_config" where
  "set_heartbeat_timeout v cfg = cfg\<lparr> heartbeat_interval := v \<rparr>"

definition set_cluster_available_timeout :: "u32 \<Rightarrow> cluster_config \<Rightarrow> cluster_config" where
  "set_cluster_available_timeout v cfg = cfg\<lparr> cluster_available_timeout := v \<rparr>"

definition set_connect_interval :: "u32 \<Rightarrow> cluster_config \<Rightarrow> cluster_config" where
  "set_connect_interval v cfg = cfg\<lparr> connect_interval := v \<rparr>"

definition set_scheduler_timeout :: "u32 \<Rightarrow> cluster_config \<Rightarrow> cluster_config" where
  "set_scheduler_timeout v cfg = cfg\<lparr> scheduler_timeout := v \<rparr>"

definition ValidateRankId :: "cluster_config \<Rightarrow> NodeRole \<Rightarrow> u32 \<Rightarrow> bool" where
  "ValidateRankId cfg r rank =
     (if r = SERVER \<and> rank > server_num cfg - 1 then False
      else if r = WORKER \<and> rank > worker_num cfg - 1 then False
      else True)"

section \<open>Lemmas\<close>

lemma nullable_lang: "nullable r \<longleftrightarrow> [] \<in> lang r"
  by (induction r) auto

lemma deriv_lang: "u \<in> lang (deriv c r) \<longleftrightarrow> c # u \<in> lang r"
proof (induction r arbitrary: u)
  case (Seq r s)
  show ?case
    by (auto simp: Seq nullable_lang Cons_eq_append_conv)
qed auto

lemma derivs_lang: "nullable (fold deriv us r) \<longleftrightarrow> us \<in> lang r"
  by (induction us arbitrary: r) (auto simp: nullable_lang deriv_lang)

lemma regex_match_lang: "regex_match s r \<longleftrightarrow> map of_char s \<in> lang r"
proof -
  have "fold (\<lambda>c r. deriv (of_char c) r) s r = fold deriv (map of_char s) r"
    by (simp add: fold_map comp_def)
  then show ?thesis by (simp add: regex_match_def derivs_lang)
qed

text \<open>A decimal number of one to three digits that is at most 255, as character codes.\<close>

definition decimal :: "nat list \<Rightarrow> nat" where
  "decimal u = foldl (\<lambda>n c. 10 * n + (c - 48)) 0 u"

definition octet :: "nat list \<Rightarrow> bool" where
  "octet u \<longleftrightarrow> 1 \<le> length u \<and> length u \<le> 3 \<and> list_all (\<lambda>c. 48 \<le> c \<and> c \<le> 57) u \<and> decimal u \<le> 255"

lemma lang_Seq_Range:
  "u \<in> lang (Seq (Range a b) s) \<longleftrightarrow> (\<exists>c v. u = c # v \<and> a \<le> c \<and> c \<le> b \<and> v \<in> lang s)"
  by auto (metis append_Cons append_Nil)

lemma lang_Seq_Opt:
  "u \<in> lang (Seq (Opt r) s) \<longleftrightarrow> u \<in> lang (Seq r s) \<or> u \<in> lang s"
  by (auto simp: Opt_def)

lemma lang_octet_re:
  "u \<in> lang octet_re \<longleftrightarrow>
    (\<exists>a. u = [a] \<and> 48 \<le> a \<and> a \<le> 57) \<or>
    (\<exists>a b. u = [a, b] \<and> 48 \<le> a \<and> a \<le> 57 \<and> 48 \<le> b \<and> b \<le> 57) \<or>
    (\<exists>a b c. u = [a, b, c] \<and> 48 \<le> b \<and> b \<le> 57 \<and> 48 \<le> c \<and> c \<le> 57 \<and>
      (48 \<le> a \<and> a \<le> 49 \<or> a = 50 \<and> b \<le> 52 \<or> a = 50 \<and> b = 53 \<and> c \<le> 53))"
proof -
  have D: "v \<in> lang (Seq digit_re (Opt digit_re)) \<longleftrightarrow>
      (\<exists>b. v = [b] \<and> 48 \<le> b \<and> b \<le> 57) \<or>
      (\<exists>b c. v = [b, c] \<and> 48 \<le> b \<and> b \<le> 57 \<and> 48 \<le> c \<and> c \<le> 57)" for v
    unfolding digit_re_def lang_Seq_Range by (auto simp: Opt_def)
  have 1: "u \<in> lang (Seq (Chr 50) (Seq (Chr 53) (Range 48 53))) \<longleftrightarrow>
      (\<exists>c. u = [50, 53, c] \<and> 48 \<le> c \<and> c \<le> 53)"
    unfolding Chr_def lang_Seq_Range by auto
  have 2: "u \<in> lang (Seq (Chr 50) (Seq (Range 48 52) digit_re)) \<longleftrightarrow>
      (\<exists>b c. u = [50, b, c] \<and> 48 \<le> b \<and> b \<le> 52 \<and> 48 \<le> c \<and> c \<le> 57)"
    unfolding Chr_def digit_re_def lang_Seq_Range by auto
  have 3: "u \<in> lang (Seq (Opt (Range 48 49)) (Seq digit_re (Opt digit_re))) \<longleftrightarrow>
      (\<exists>a v. u = a # v \<and> 48 \<le> a \<and> a \<le> 49 \<and>
        ((\<exists>b. v = [b] \<and> 48 \<le> b \<and> b \<le> 57) \<or>
         (\<exists>b c. v = [b, c] \<and> 48 \<le> b \<and> b \<le> 57 \<and> 48 \<le> c \<and> c \<le> 57))) \<or>
      (\<exists>b. u = [b] \<and> 48 \<le> b \<and> b \<le> 57) \<or>
      (\<exists>b c. u = [b, c] \<and> 48 \<le> b \<and> b \<le> 57 \<and> 48 \<le> c \<and> c \<le> 57)"
    unfolding lang_Seq_Opt lang_Seq_Range D ..
  show ?thesis
    unfolding octet_re_def lang.simps(5) Un_iff 1 2 3 by fastforce
qed

lemma octet_lang: "u \<in> lang octet_re \<longleftrightarrow> octet u"
proof -
  consider "u = []" | a where "u = [a]" | a b where "u = [a, b]" | a b c where "u = [a, b, c]"
    | "length u > 3"
    by (cases u; cases "tl u"; cases "tl (tl u)"; cases "tl (tl (tl u))") auto
  then show ?thesis
    by cases (auto simp: lang_octet_re octet_def decimal_def)
qed

lemma lang_Seq_group:
  "w \<in> lang (Seq (Seq octet_re AnyChar) r) \<longleftrightarrow>
   (\<exists>u x v. w = u @ x # v \<and> octet u \<and> x \<noteq> 10 \<and> x \<noteq> 13 \<and> v \<in> lang r)"
proof
  assume "\<exists>u x v. w = u @ x # v \<and> octet u \<and> x \<noteq> 10 \<and> x \<noteq> 13 \<and> v \<in> lang r"
  then obtain u x v where "w = (u @ [x]) @ v" "octet u" "x \<noteq> 10" "x \<noteq> 13" "v \<in> lang r" by auto
  moreover from this have "u @ [x] \<in> lang (Seq octet_re AnyChar)" by (auto simp: octet_lang)
  ultimately show "w \<in> lang (Seq (Seq octet_re AnyChar) r)"
    unfolding lang.simps(6) [of "Seq octet_re AnyChar"] by blast
qed (auto simp: octet_lang; blast)

lemma length_hex_group [simp]: "length (hex_group dis k n) = n"
  by (simp add: hex_group_def)

text \<open>The state before attempt \<open>k\<close> (from 0), when no earlier attempt succeeded.\<close>

definition attempt_state :: "('s \<Rightarrow> bool \<times> 's) \<Rightarrow> nat \<Rightarrow> 's \<Rightarrow> 's" where
  "attempt_state func k s = ((\<lambda>t. snd (func t)) ^^ k) s"

lemma Retry_skip:
  "\<forall>j<k. \<not> fst (func (attempt_state func j s)) \<Longrightarrow>
   Retry func (k + m) s = Retry func m (attempt_state func k s)"
proof (induction k arbitrary: s)
  case 0
  then show ?case by (simp add: attempt_state_def)
next
  case (Suc k)
  have shift: "attempt_state func j (snd (func s)) = attempt_state func (Suc j) s" for j
    by (simp add: attempt_state_def funpow_Suc_right del: funpow.simps)
  have "\<not> fst (func s)"
    using Suc.prems by (auto simp: attempt_state_def)
  then have "Retry func (Suc k + m) s = Retry func (k + m) (snd (func s))"
    by (cases "func s") simp
  also have "\<dots> = Retry func m (attempt_state func k (snd (func s)))"
    using Suc.prems by (intro Suc.IH) (simp add: shift)
  finally show ?case by (simp add: shift)
qed

section \<open>Properties\<close>

text \<open>
  C40: the strings \<open>CheckIpWithRegex\<close> accepts are exactly four decimal numbers of one to three
  digits and at most 255, separated by single arbitrary characters other than line ends.  So
  every dotted quad passes, but the unescaped dot of the pattern also lets a string without any
  dot pass.
\<close>

theorem CheckIpWithRegex_language:
  "(CheckIpWithRegex s \<longleftrightarrow>
     (\<exists>a x b y c z d. map of_char s = a @ x # b @ y # c @ z # d \<and> octet a \<and> octet b \<and> octet c \<and> octet d \<and>
        {10, 13} \<inter> {x, y, z :: nat} = {})) \<and>
   CheckIpWithRegex ''192.168.0.1'' \<and> CheckIpWithRegex ''1234567''"
proof -
  have L: "CheckIpWithRegex t \<longleftrightarrow>
     (\<exists>a x b y c z d. map of_char t = a @ x # b @ y # c @ z # d \<and> octet a \<and> octet b \<and> octet c \<and> octet d \<and>
        {10, 13} \<inter> {x, y, z :: nat} = {})" for t
    unfolding CheckIpWithRegex_def regex_match_lang ip_pattern_def Let_def lang_Seq_group octet_lang
    by (auto; blast)
  have "CheckIpWithRegex ''192.168.0.1''"
    unfolding L
    by (rule exI [of _ "[49, 57, 50]"], rule exI [of _ 46], rule exI [of _ "[49, 54, 56]"],
        rule exI [of _ 46], rule exI [of _ "[48]"], rule exI [of _ 46], rule exI [of _ "[49]"])
       (simp add: octet_def decimal_def)
  moreover have "CheckIpWithRegex ''1234567''"
    unfolding L
    by (rule exI [of _ "[49]"], rule exI [of _ 50], rule exI [of _ "[51]"],
        rule exI [of _ 52], rule exI [of _ "[53]"], rule exI [of _ 54], rule exI [of _ "[55]"])
       (simp add: octet_def decimal_def)
  ultimately show ?thesis by (intro conjI L)
qed

text \<open>
  \<open>Retry\<close> calls the function until its first success and at most \<open>max_attempts\<close> times, returns
  whether there was one, and leaves the state of exactly those calls.
\<close>

theorem Retry_first_success:
  "(k < n \<and> fst (func (attempt_state func k s)) \<and> (\<forall>j<k. \<not> fst (func (attempt_state func j s))) \<longrightarrow>
      Retry func n s = (True, snd (func (attempt_state func k s)))) \<and>
   ((\<forall>j<n. \<not> fst (func (attempt_state func j s))) \<longrightarrow>
      Retry func n s = (False, attempt_state func n s))"
proof (intro conjI impI; (elim conjE)?)
  assume k: "k < n" "fst (func (attempt_state func k s))" "\<forall>j<k. \<not> fst (func (attempt_state func j s))"
  then obtain m where "n = k + Suc m" using less_iff_Suc_add by auto
  with Retry_skip [OF k(3), of "Suc m"] k(2)
  show "Retry func n s = (True, snd (func (attempt_state func k s)))"
    by (cases "func (attempt_state func k s)") simp
next
  assume "\<forall>j<n. \<not> fst (func (attempt_state func j s))"
  from Retry_skip [OF this, of 0] show "Retry func n s = (False, attempt_state func n s)" by simp
qed

theorem Retry_first_success_witness:
  "Retry (\<lambda>c. (c = 2, c + 1)) 5 (0 :: nat) = (True, 3) \<and> Retry (\<lambda>c. (c = 2, c + 1)) 2 (0 :: nat) = (False, 2)"
proof -
  have count: "attempt_state (\<lambda>c. (c = 2, c + 1)) k (0 :: nat) = k" for k
    by (induction k) (simp_all add: attempt_state_def)
  show ?thesis
    using Retry_first_success [of 2 5 "\<lambda>c. (c = 2, c + 1)" "0 :: nat"]
      Retry_first_success [of 0 2 "\<lambda>c. (c = 2, c + 1)" "0 :: nat"]
    unfolding count by simp
qed

text \<open>
  \<open>ValidateRankId\<close> accepts exactly the ranks below the number of nodes of the role; when the
  configured number is 0 the subtraction wraps and every rank is accepted.
\<close>

theorem ValidateRankId_bounds:
  "(ValidateRankId cfg SERVER r \<longleftrightarrow> server_num cfg = 0 \<or> r < server_num cfg) \<and>
   (ValidateRankId cfg WORKER r \<longleftrightarrow> worker_num cfg = 0 \<or> r < worker_num cfg) \<and>
   ValidateRankId cfg SCHEDULER r"
proof -
  have "\<not> (r > n - 1) \<longleftrightarrow> n = 0 \<or> r < n" for n r :: u32
  proof (cases "n = 0")
    case True
    then show ?thesis by simp
  next
    case False
    then have "0 < unat n" by (simp add: unat_gt_0)
    with False show ?thesis
      by (simp add: not_less word_le_nat_alt word_less_nat_alt unat_minus_one) linarith
  qed
  then show ?thesis by (auto simp: ValidateRankId_def)
qed

text \<open>
  \<open>set_heartbeat_timeout\<close> does not set the heartbeat timeout; it overwrites the heartbeat
  interval.
\<close>

theorem set_heartbeat_timeout_sets_interval:
  "heartbeat_timeout (set_heartbeat_timeout v cfg) = heartbeat_timeout cfg \<and>
   heartbeat_interval (set_heartbeat_timeout v cfg) = v"
  by (simp add: set_heartbeat_timeout_def)

text \<open>
  An identifier made by \<open>GenerateUUID\<close> has 36 characters, the dashes and the version digit 4
  where a version 4 UUID has them, the variant digit in 8..b, and hexadecimal digits elsewhere.
\<close>

theorem GenerateUUID_shape:
  assumes "dis2 \<in> {8..11}"
  shows "length (GenerateUUID dis dis2) = 36 \<and>
    (\<forall>i\<in>{8, 13, 18, 23}. GenerateUUID dis dis2 ! i = CHR ''-'') \<and>
    GenerateUUID dis dis2 ! 14 = CHR ''4'' \<and>
    GenerateUUID dis dis2 ! 19 \<in> set ''89ab'' \<and>
    set (GenerateUUID dis dis2) \<subseteq> set ''0123456789abcdef-''"
proof -
  have v: "hex_digit dis2 \<in> set ''89ab''"
  proof -
    from assms have "dis2 = 8 \<or> dis2 = 9 \<or> dis2 = 10 \<or> dis2 = 11" by auto
    then show ?thesis by (auto simp: hex_digit_def)
  qed
  have hex: "hex_digit n \<in> set ''0123456789abcdef''" for n
    unfolding hex_digit_def by (rule nth_mem) simp
  then have "set (hex_group dis k n) \<subseteq> set ''0123456789abcdef''" for k n
    by (auto simp: hex_group_def)
  with hex [of dis2] have "set (GenerateUUID dis dis2) \<subseteq> set ''0123456789abcdef-''"
    by (fastforce simp: GenerateUUID_def)
  with v show ?thesis
    by (simp add: GenerateUUID_def nth_append)
qed

theorem GenerateUUID_shape_witness:
  "length (GenerateUUID (\<lambda>i. i mod 16) 9) = 36 \<and> GenerateUUID (\<lambda>i. i mod 16) 9 ! 14 = CHR ''4''"
  using GenerateUUID_shape [of 9 "\<lambda>i. i mod 16"] by simp

end
