(* ===== verification/Node_Manager.thy ===== *)
theory Node_Manager
  imports Comm_Util Convert_Utils
begin

text \<open>
  \<open>NodeManager\<close> of \<open>src/even-http/ps/core\<close>: the scheduler's book-keeping of the cluster.  It
  assigns ranks, records heartbeats, and decides when the cluster is ready, timed out or finished.
  Time (\<open>gettimeofday\<close>) is an argument of the operations that read the clock.
\<close>

record node_manager =
  nm_is_cluster_ready :: bool
  nm_is_cluster_finish :: bool
  nm_is_cluster_timeout :: bool
  nm_is_node_timeout :: bool
  total_node_num :: u32
  current_node_num :: int
  next_worker_rank_id :: int
  next_server_rank_id :: int
  nodes_info :: "(string \<times> NodeInfo) list"
  heartbeats :: "(string \<times> int) list"
  heartbeats_finish_nodes :: "string list"
  timeout_nodes_info :: "(string \<times> NodeInfo) list"
  finish_nodes_id :: "string list"

definition new_node_manager :: node_manager where
  "new_node_manager = \<lparr> nm_is_cluster_ready = False, nm_is_cluster_finish = False,
     nm_is_cluster_timeout = False, nm_is_node_timeout = False, total_node_num = 0,
     current_node_num = -1, next_worker_rank_id = -1, next_server_rank_id = -1, nodes_info = [],
     heartbeats = [], heartbeats_finish_nodes = [], timeout_nodes_info = [], finish_nodes_id = [] \<rparr>"

definition InitNodeNum :: "cluster_config \<Rightarrow> node_manager \<Rightarrow> node_manager" where
  "InitNodeNum cfg nm = nm\<lparr> total_node_num := server_num cfg + worker_num cfg \<rparr>"

text \<open>\<open>rank_id_\<close> is stored as \<open>uint32_t\<close> and returned as \<open>int\<close>; \<open>port_\<close> is a \<open>uint16_t\<close>.\<close>

definition NextRankId :: "RegisterMessage \<Rightarrow> node_manager \<Rightarrow> int \<times> node_manager" where
  "NextRankId m nm =
     (let nid = rm_node_id m in
      case map_of (nodes_info nm) nid of
        Some info \<Rightarrow> (sint (node_rank_id info), nm)
      | None \<Rightarrow>
          (case rm_role m of
             SERVER \<Rightarrow>
               let r = int32 (next_server_rank_id nm + 1);
                   info = \<lparr> ip = rm_ip m, port = word_of_int (rm_port m), node_id = nid,
                            node_role = SERVER, node_rank_id = word_of_int r \<rparr>
               in (r, nm\<lparr> next_server_rank_id := r, nodes_info := map_set nid info (nodes_info nm) \<rparr>)
           | WORKER \<Rightarrow>
               let r = int32 (next_worker_rank_id nm + 1);
                   info = default_NodeInfo\<lparr> node_role := WORKER, node_id := nid, node_rank_id := word_of_int r \<rparr>
               in (r, nm\<lparr> next_worker_rank_id := r, nodes_info := map_set nid info (nodes_info nm) \<rparr>)
           | SCHEDULER \<Rightarrow> (-1, nm)))"

definition UpdateHeartbeat :: "int \<Rightarrow> string \<Rightarrow> node_manager \<Rightarrow> node_manager" where
  "UpdateHeartbeat current_time nid nm =
     (let (info, nodes) = map_index default_NodeInfo nid (nodes_info nm) in
      nm\<lparr> nodes_info := nodes, heartbeats := map_set nid current_time (heartbeats nm) \<rparr>)"

definition UpdateNodeFinishState :: "string \<Rightarrow> node_manager \<Rightarrow> node_manager" where
  "UpdateNodeFinishState nid nm =
     nm\<lparr> heartbeats_finish_nodes := set_insert nid (heartbeats_finish_nodes nm) \<rparr>"

definition CheckNodesFinishState :: "node_manager \<Rightarrow> bool" where
  "CheckNodesFinishState nm \<longleftrightarrow> length (heartbeats_finish_nodes nm) = length (nodes_info nm)"

definition FetchServersMeta :: "node_manager \<Rightarrow> ServersMeta list" where
  "FetchServersMeta nm =
     map (\<lambda>(k, info). \<lparr> sm_rank_id = sint (node_rank_id info), sm_ip = ip info, sm_port = uint (port info) \<rparr>)
       (filter (\<lambda>(k, info). node_role info = SERVER) (nodes_info nm))"

text \<open>The loop over the heartbeats: a node whose last heartbeat is too old is recorded as timed out.\<close>

fun timeout_loop :: "cluster_config \<Rightarrow> int \<Rightarrow> (string \<times> int) list \<Rightarrow> node_manager \<Rightarrow> node_manager" where
  "timeout_loop cfg now [] nm = nm"
| "timeout_loop cfg now ((nid, t) # hbs) nm =
     (if t + uint (heartbeat_timeout cfg) < now then
        let (info, nodes) = map_index default_NodeInfo nid (nodes_info nm) in
        timeout_loop cfg now hbs
          (nm\<lparr> nodes_info := nodes, timeout_nodes_info := map_set nid info (timeout_nodes_info nm) \<rparr>)
      else timeout_loop cfg now hbs nm)"

text \<open>Part 1 of \<open>UpdateClusterState\<close>: nodes that timed out count as finished.\<close>

definition after_timeouts :: "cluster_config \<Rightarrow> int \<Rightarrow> node_manager \<Rightarrow> node_manager" where
  "after_timeouts cfg now nm =
     (let nm1 = timeout_loop cfg now (heartbeats nm) (nm\<lparr> timeout_nodes_info := [] \<rparr>) in
      if timeout_nodes_info nm1 \<noteq> [] then
        nm1\<lparr> nm_is_cluster_timeout := True,
             finish_nodes_id := fold set_insert (map fst (timeout_nodes_info nm1)) (finish_nodes_id nm1) \<rparr>
      else nm1)"

definition UpdateClusterState :: "cluster_config \<Rightarrow> int \<Rightarrow> node_manager \<Rightarrow> exn + node_manager" where
  "UpdateClusterState cfg now nm =
     (let nm2 = after_timeouts cfg now nm;
          set_ready = (\<lambda>nm'. if length (nodes_info nm') = unat (total_node_num nm')
                             then nm'\<lparr> nm_is_cluster_ready := True \<rparr> else nm');
          set_finish = (\<lambda>nm'. nm'\<lparr> nm_is_cluster_finish := True, nm_is_cluster_ready := True \<rparr>)
      in if length (finish_nodes_id nm2) = unat (total_node_num nm2) then Inr (set_ready (set_finish nm2))
         else case SizeToInt (word_of_nat (length (finish_nodes_id nm2))) of
                Inl e \<Rightarrow> Inl e
              | Inr n \<Rightarrow> if n = current_node_num nm2 then Inr (set_ready (set_finish nm2))
                         else Inr (set_ready nm2))"

definition CheckClusterTimeout :: "node_manager \<Rightarrow> node_manager" where
  "CheckClusterTimeout nm =
     (if unat (total_node_num nm) \<noteq> length (nodes_info nm) then
        nm\<lparr> current_node_num := int32 (int (length (nodes_info nm))), nm_is_cluster_timeout := True \<rparr>
      else nm)"

definition AddFinishNode :: "FinishMessage \<Rightarrow> node_manager \<Rightarrow> node_manager" where
  "AddFinishNode m nm = nm\<lparr> finish_nodes_id := set_insert (fm_node_id m) (finish_nodes_id nm) \<rparr>"

definition set_cluster_timeout :: "bool \<Rightarrow> node_manager \<Rightarrow> node_manager" where
  "set_cluster_timeout b nm = nm\<lparr> nm_is_cluster_timeout := b \<rparr>"

section \<open>Runs of the node manager\<close>

text \<open>
  The calls the scheduler makes, in any order: its TCP thread registers nodes and records
  heartbeats and finish messages, its timer thread updates the state.
\<close>

datatype nm_call =
    Register RegisterMessage
  | Heartbeat int string
  | NodeFinish string
  | UpdateState int
  | ClusterTimeout
  | AddFinish FinishMessage

primrec nm_exec :: "cluster_config \<Rightarrow> nm_call \<Rightarrow> node_manager \<Rightarrow> exn + node_manager" where
  "nm_exec cfg (Register m) nm = Inr (snd (NextRankId m nm))"
| "nm_exec cfg (Heartbeat now nid) nm = Inr (UpdateHeartbeat now nid nm)"
| "nm_exec cfg (NodeFinish nid) nm = Inr (UpdateNodeFinishState nid nm)"
| "nm_exec cfg (UpdateState now) nm = UpdateClusterState cfg now nm"
| "nm_exec cfg ClusterTimeout nm = Inr (CheckClusterTimeout nm)"
| "nm_exec cfg (AddFinish m) nm = Inr (AddFinishNode m nm)"

definition ranks :: "NodeRole \<Rightarrow> node_manager \<Rightarrow> u32 list" where
  "ranks r nm = map (node_rank_id \<circ> snd) (filter (\<lambda>(k, info). node_role info = r) (nodes_info nm))"

definition ranks_ok :: "node_manager \<Rightarrow> bool" where
  "ranks_ok nm \<longleftrightarrow>
     ranks SERVER nm = map word_of_nat [0..<length (ranks SERVER nm)] \<and>
     next_server_rank_id nm = int (length (ranks SERVER nm)) - 1 \<and>
     ranks WORKER nm = map word_of_nat [0..<length (ranks WORKER nm)] \<and>
     next_worker_rank_id nm = int (length (ranks WORKER nm)) - 1"

definition nm_inv :: "node_manager \<Rightarrow> bool" where
  "nm_inv nm \<longleftrightarrow> distinct (map fst (nodes_info nm)) \<and> distinct (map fst (heartbeats nm)) \<and>
     distinct (finish_nodes_id nm) \<and> distinct (heartbeats_finish_nodes nm) \<and>
     fst ` set (heartbeats nm) \<subseteq> fst ` set (nodes_info nm) \<and>
     (length (nodes_info nm) < 2 ^ 31 \<longrightarrow> ranks_ok nm)"

text \<open>What never goes back: known nodes keep their entry, and the flags stay set.\<close>

definition nm_mono :: "node_manager \<Rightarrow> node_manager \<Rightarrow> bool" where
  "nm_mono nm nm' \<longleftrightarrow> map_of (nodes_info nm) \<subseteq>\<^sub>m map_of (nodes_info nm') \<and>
     length (nodes_info nm) \<le> length (nodes_info nm') \<and>
     set (finish_nodes_id nm) \<subseteq> set (finish_nodes_id nm') \<and>
     (nm_is_cluster_ready nm \<longrightarrow> nm_is_cluster_ready nm') \<and>
     (nm_is_cluster_finish nm \<longrightarrow> nm_is_cluster_finish nm') \<and>
     (nm_is_cluster_timeout nm \<longrightarrow> nm_is_cluster_timeout nm')"

section \<open>The operations keep the invariant\<close>

lemma ranks_cong: "nodes_info nm = nodes_info nm' \<Longrightarrow> ranks r nm = ranks r nm'"
  by (simp add: ranks_def)

lemma ranks_append:
  "nodes_info nm' = nodes_info nm @ [(k, info)] \<Longrightarrow>
   ranks r nm' = ranks r nm @ (if node_role info = r then [node_rank_id info] else [])"
  by (simp add: ranks_def)

lemma length_ranks_le: "length (ranks r nm) \<le> length (nodes_info nm)"
  by (simp add: ranks_def)

lemma ranks_ok_frame:
  "nodes_info nm' = nodes_info nm \<Longrightarrow> next_server_rank_id nm' = next_server_rank_id nm \<Longrightarrow>
   next_worker_rank_id nm' = next_worker_rank_id nm \<Longrightarrow> ranks_ok nm' = ranks_ok nm"
  using ranks_cong [of nm' nm] by (simp add: ranks_ok_def)

lemma next_rank:
  assumes "next = int (length rs) - 1" "length rs \<le> n" "n < 2 ^ 31"
  shows "int32 (next + 1) = int (length rs)"
  using assms by (simp add: int32_id)

text \<open>The effect of a registration, by cases.\<close>

lemma NextRankId_known:
  "map_of (nodes_info nm) (rm_node_id m) = Some info \<Longrightarrow> NextRankId m nm = (sint (node_rank_id info), nm)"
  by (simp add: NextRankId_def)

lemma NextRankId_new:
  assumes "map_of (nodes_info nm) (rm_node_id m) = None"
  shows "NextRankId m nm =
    (case rm_role m of
       SERVER \<Rightarrow> (int32 (next_server_rank_id nm + 1),
         nm\<lparr> next_server_rank_id := int32 (next_server_rank_id nm + 1),
             nodes_info := nodes_info nm @ [(rm_node_id m,
               \<lparr> ip = rm_ip m, port = word_of_int (rm_port m), node_id = rm_node_id m, node_role = SERVER,
                 node_rank_id = word_of_int (int32 (next_server_rank_id nm + 1)) \<rparr>)] \<rparr>)
     | WORKER \<Rightarrow> (int32 (next_worker_rank_id nm + 1),
         nm\<lparr> next_worker_rank_id := int32 (next_worker_rank_id nm + 1),
             nodes_info := nodes_info nm @ [(rm_node_id m,
               default_NodeInfo\<lparr> node_role := WORKER, node_id := rm_node_id m,
                 node_rank_id := word_of_int (int32 (next_worker_rank_id nm + 1)) \<rparr>)] \<rparr>)
     | SCHEDULER \<Rightarrow> (-1, nm))"
proof -
  have "rm_node_id m \<notin> fst ` set (nodes_info nm)" using assms by (simp add: map_of_eq_None_iff)
  then show ?thesis using assms by (simp add: NextRankId_def map_set_fresh Let_def split: NodeRole.splits)
qed

lemma ranks_ok_NextRankId:
  assumes "ranks_ok nm" "length (nodes_info nm) < 2 ^ 31"
  shows "ranks_ok (snd (NextRankId m nm))"
proof (cases "map_of (nodes_info nm) (rm_node_id m)")
  case (Some info)
  with assms(1) show ?thesis by (simp add: NextRankId_known)
next
  case None
  have s: "int32 (next_server_rank_id nm + 1) = int (length (ranks SERVER nm))"
    and w: "int32 (next_worker_rank_id nm + 1) = int (length (ranks WORKER nm))"
    using assms next_rank [OF _ length_ranks_le assms(2)] by (auto simp: ranks_ok_def)
  have app: "ranks r (nm\<lparr> next_server_rank_id := a, nodes_info := nodes_info nm @ [(k, info)] \<rparr>) =
      ranks r nm @ (if node_role info = r then [node_rank_id info] else [])"
    "ranks r (nm\<lparr> next_worker_rank_id := a, nodes_info := nodes_info nm @ [(k, info)] \<rparr>) =
      ranks r nm @ (if node_role info = r then [node_rank_id info] else [])" for r a k info
    by (simp_all add: ranks_def)
  from assms(1) show ?thesis
    unfolding NextRankId_new [OF None] s w
    by (cases "rm_role m") (simp_all add: ranks_ok_def app default_NodeInfo_def)
qed

lemma NextRankId_nodes:
  assumes "distinct (map fst (nodes_info nm))"
  shows "distinct (map fst (nodes_info (snd (NextRankId m nm)))) \<and>
   fst ` set (nodes_info nm) \<subseteq> fst ` set (nodes_info (snd (NextRankId m nm))) \<and>
   map_of (nodes_info nm) \<subseteq>\<^sub>m map_of (nodes_info (snd (NextRankId m nm))) \<and>
   length (nodes_info nm) \<le> length (nodes_info (snd (NextRankId m nm)))"
proof (cases "map_of (nodes_info nm) (rm_node_id m)")
  case (Some info)
  with assms show ?thesis by (simp add: NextRankId_known)
next
  case None
  then have "rm_node_id m \<notin> fst ` set (nodes_info nm)" by (simp add: map_of_eq_None_iff)
  with assms show ?thesis
    unfolding NextRankId_new [OF None]
    by (cases "rm_role m") (auto simp: map_le_def map_add_def split: option.splits)
qed

lemma NextRankId_frame:
  "heartbeats (snd (NextRankId m nm)) = heartbeats nm \<and>
   finish_nodes_id (snd (NextRankId m nm)) = finish_nodes_id nm \<and>
   heartbeats_finish_nodes (snd (NextRankId m nm)) = heartbeats_finish_nodes nm \<and>
   nm_is_cluster_ready (snd (NextRankId m nm)) = nm_is_cluster_ready nm \<and>
   nm_is_cluster_finish (snd (NextRankId m nm)) = nm_is_cluster_finish nm \<and>
   nm_is_cluster_timeout (snd (NextRankId m nm)) = nm_is_cluster_timeout nm"
  by (simp add: NextRankId_def Let_def split: option.splits NodeRole.splits)

lemma UpdateHeartbeat_nodes:
  "nodes_info (UpdateHeartbeat now nid nm) =
     (case map_of (nodes_info nm) nid of Some i \<Rightarrow> nodes_info nm
      | None \<Rightarrow> nodes_info nm @ [(nid, default_NodeInfo)])"
  by (simp add: UpdateHeartbeat_def map_index_present map_index_absent split: option.splits prod.splits)

lemma ranks_UpdateHeartbeat:
  "ranks_ok nm \<Longrightarrow> ranks_ok (UpdateHeartbeat now nid nm)"
proof -
  have "ranks r (UpdateHeartbeat now nid nm) = ranks r nm" if "r \<noteq> SCHEDULER" for r
    using that by (simp add: ranks_def UpdateHeartbeat_nodes default_NodeInfo_def split: option.splits)
  moreover have "next_server_rank_id (UpdateHeartbeat now nid nm) = next_server_rank_id nm"
    "next_worker_rank_id (UpdateHeartbeat now nid nm) = next_worker_rank_id nm"
    by (simp_all add: UpdateHeartbeat_def split: prod.splits)
  ultimately show "ranks_ok nm \<Longrightarrow> ?thesis" by (simp add: ranks_ok_def)
qed

text \<open>The nodes whose last heartbeat is older than the timeout.\<close>

definition expired :: "cluster_config \<Rightarrow> int \<Rightarrow> (string \<times> int) list \<Rightarrow> string set" where
  "expired cfg now hbs = {nid. \<exists>t. (nid, t) \<in> set hbs \<and> t + uint (heartbeat_timeout cfg) < now}"

lemma timeout_loop_known:
  "fst ` set hbs \<subseteq> fst ` set (nodes_info nm) \<Longrightarrow>
   \<exists>ti. timeout_loop cfg now hbs nm = nm\<lparr> timeout_nodes_info := ti \<rparr> \<and>
     fst ` set ti = fst ` set (timeout_nodes_info nm) \<union> expired cfg now hbs"
proof (induction cfg now hbs nm rule: timeout_loop.induct)
  case (1 cfg now nm)
  then show ?case by (intro exI [of _ "timeout_nodes_info nm"]) (simp add: expired_def)
next
  case (2 cfg now nid t hbs nm)
  then obtain info where info: "map_of (nodes_info nm) nid = Some info"
    by (metis (no_types, lifting) fst_conv image_subset_iff list.set_intros(1) map_of_eq_None_iff not_None_eq)
  have exp: "expired cfg now ((nid, t) # hbs) =
      (if t + uint (heartbeat_timeout cfg) < now then insert nid (expired cfg now hbs) else expired cfg now hbs)"
    by (auto simp: expired_def)
  show ?case
  proof (cases "t + uint (heartbeat_timeout cfg) < now")
    case True
    with 2 info show ?thesis by (fastforce simp: map_index_present exp)
  next
    case False
    with 2 show ?thesis by (simp add: exp)
  qed
qed

lemma set_fold_set_insert [simp]: "set (fold set_insert xs ys) = set xs \<union> set ys"
  by (induction xs arbitrary: ys) auto

lemma distinct_fold_set_insert [simp]: "distinct (fold set_insert xs ys) = distinct ys"
  by (induction xs arbitrary: ys) auto

lemma after_timeouts_effect:
  assumes "fst ` set (heartbeats nm) \<subseteq> fst ` set (nodes_info nm)"
  shows "\<exists>ti fin. after_timeouts cfg now nm =
      nm\<lparr> timeout_nodes_info := ti, finish_nodes_id := fin,
          nm_is_cluster_timeout := nm_is_cluster_timeout nm \<or> expired cfg now (heartbeats nm) \<noteq> {} \<rparr> \<and>
    fst ` set ti = expired cfg now (heartbeats nm) \<and>
    set fin = set (finish_nodes_id nm) \<union> expired cfg now (heartbeats nm) \<and>
    (distinct (finish_nodes_id nm) \<longrightarrow> distinct fin)"
proof -
  obtain ti where ti: "timeout_loop cfg now (heartbeats nm) (nm\<lparr> timeout_nodes_info := [] \<rparr>) =
      nm\<lparr> timeout_nodes_info := ti \<rparr>" "fst ` set ti = expired cfg now (heartbeats nm)"
    using timeout_loop_known [of "heartbeats nm" "nm\<lparr> timeout_nodes_info := [] \<rparr>" cfg now] assms by auto
  show ?thesis
  proof (cases "ti = []")
    case True
    with ti have "expired cfg now (heartbeats nm) = {}" by simp
    with ti True show ?thesis
      by (intro exI [of _ "[]"] exI [of _ "finish_nodes_id nm"]) (simp add: after_timeouts_def)
  next
    case False
    with ti have "expired cfg now (heartbeats nm) \<noteq> {}" by (metis image_is_empty set_empty2)
    with ti False show ?thesis
      by (intro exI [of _ ti] exI [of _ "fold set_insert (map fst ti) (finish_nodes_id nm)"])
         (auto simp: after_timeouts_def)
  qed
qed

definition finish_reached :: "node_manager \<Rightarrow> bool" where
  "finish_reached nm \<longleftrightarrow> length (finish_nodes_id nm) = unat (total_node_num nm) \<or>
     int (length (finish_nodes_id nm)) = current_node_num nm"

lemma SizeToInt_small: "n < 2 ^ 31 \<Longrightarrow> SizeToInt (word_of_nat n) = Inr (int n)"
  by (simp add: SizeToInt_def unat_of_nat int32_id unsigned_of_nat take_bit_nat_eq_self)

lemma UpdateClusterState_effect:
  assumes "length (finish_nodes_id (after_timeouts cfg now nm)) < 2 ^ 31"
  defines "nm2 \<equiv> after_timeouts cfg now nm"
  shows "UpdateClusterState cfg now nm =
    Inr (nm2\<lparr> nm_is_cluster_finish := nm_is_cluster_finish nm2 \<or> finish_reached nm2,
              nm_is_cluster_ready := nm_is_cluster_ready nm2 \<or> finish_reached nm2 \<or>
                length (nodes_info nm2) = unat (total_node_num nm2) \<rparr>)"
  using assms(1)
  by (auto simp: UpdateClusterState_def nm2_def Let_def SizeToInt_small finish_reached_def)

lemma UpdateClusterState_Inr:
  assumes "UpdateClusterState cfg now nm = Inr nm'"
  shows "\<exists>fin rdy. nm' = (after_timeouts cfg now nm)\<lparr> nm_is_cluster_finish := fin, nm_is_cluster_ready := rdy \<rparr> \<and>
    (nm_is_cluster_finish (after_timeouts cfg now nm) \<longrightarrow> fin) \<and>
    (nm_is_cluster_ready (after_timeouts cfg now nm) \<longrightarrow> rdy)"
proof -
  have eq: "nm2 = nm2\<lparr> nm_is_cluster_finish := nm_is_cluster_finish nm2, nm_is_cluster_ready := nm_is_cluster_ready nm2 \<rparr>"
    "nm2\<lparr> nm_is_cluster_ready := b \<rparr> = nm2\<lparr> nm_is_cluster_finish := nm_is_cluster_finish nm2, nm_is_cluster_ready := b \<rparr>"
    for nm2 :: node_manager and b by simp_all
  show ?thesis
    using assms unfolding UpdateClusterState_def Let_def
    by (auto split: if_splits sum.splits intro: eq)
qed

lemma after_timeouts_frame:
  assumes "nm_inv nm"
  shows "\<exists>ti fin. after_timeouts cfg now nm =
      nm\<lparr> timeout_nodes_info := ti, finish_nodes_id := fin,
          nm_is_cluster_timeout := nm_is_cluster_timeout nm \<or> expired cfg now (heartbeats nm) \<noteq> {} \<rparr> \<and>
    fst ` set ti = expired cfg now (heartbeats nm) \<and>
    set fin = set (finish_nodes_id nm) \<union> expired cfg now (heartbeats nm) \<and> distinct fin"
  using assms after_timeouts_effect [of nm cfg now] unfolding nm_inv_def by blast

lemma nm_inv_frame:
  "nm_inv nm \<Longrightarrow> nodes_info nm' = nodes_info nm \<Longrightarrow> heartbeats nm' = heartbeats nm \<Longrightarrow>
   next_server_rank_id nm' = next_server_rank_id nm \<Longrightarrow> next_worker_rank_id nm' = next_worker_rank_id nm \<Longrightarrow>
   distinct (finish_nodes_id nm') \<Longrightarrow> distinct (heartbeats_finish_nodes nm') \<Longrightarrow> nm_inv nm'"
  using ranks_ok_frame [of nm' nm] by (simp add: nm_inv_def)

lemma nm_inv_NextRankId:
  assumes "nm_inv nm"
  shows "nm_inv (snd (NextRankId m nm))"
proof -
  have d: "distinct (map fst (nodes_info nm))" using assms by (simp add: nm_inv_def)
  have "fst ` set (heartbeats nm) \<subseteq> fst ` set (nodes_info nm)" using assms by (simp add: nm_inv_def)
  also have "\<dots> \<subseteq> fst ` set (nodes_info (snd (NextRankId m nm)))" using NextRankId_nodes [OF d] by blast
  finally have hb: "fst ` set (heartbeats nm) \<subseteq> fst ` set (nodes_info (snd (NextRankId m nm)))" .
  have "length (nodes_info nm) < 2 ^ 31 \<longrightarrow> ranks_ok (snd (NextRankId m nm))"
    using assms ranks_ok_NextRankId [of nm m] by (simp add: nm_inv_def)
  with assms hb NextRankId_nodes [OF d, of m] NextRankId_frame [of m nm] show ?thesis
    by (simp add: nm_inv_def)
qed

lemma nm_inv_UpdateHeartbeat: "nm_inv nm \<Longrightarrow> nm_inv (UpdateHeartbeat now nid nm)"
proof -
  assume inv: "nm_inv nm"
  have hb: "heartbeats (UpdateHeartbeat now nid nm) = map_set nid now (heartbeats nm)"
    "finish_nodes_id (UpdateHeartbeat now nid nm) = finish_nodes_id nm"
    "heartbeats_finish_nodes (UpdateHeartbeat now nid nm) = heartbeats_finish_nodes nm"
    by (simp_all add: UpdateHeartbeat_def split: prod.splits)
  have "length (nodes_info (UpdateHeartbeat now nid nm)) \<ge> length (nodes_info nm)"
    by (simp add: UpdateHeartbeat_nodes split: option.splits)
  moreover have "distinct (map fst (nodes_info (UpdateHeartbeat now nid nm)))"
    "fst ` set (nodes_info (UpdateHeartbeat now nid nm)) = insert nid (fst ` set (nodes_info nm))"
    using inv map_of_eq_None_iff [of "nodes_info nm" nid]
    by (auto simp: UpdateHeartbeat_nodes nm_inv_def split: option.splits)
  ultimately show ?thesis
    using inv hb ranks_UpdateHeartbeat by (auto simp: nm_inv_def)
qed

lemma nm_inv_UpdateClusterState:
  assumes "nm_inv nm" "UpdateClusterState cfg now nm = Inr nm'"
  shows "nm_inv nm' \<and> nm_mono nm nm'"
proof -
  obtain ti fin where at: "after_timeouts cfg now nm =
      nm\<lparr> timeout_nodes_info := ti, finish_nodes_id := fin,
          nm_is_cluster_timeout := nm_is_cluster_timeout nm \<or> expired cfg now (heartbeats nm) \<noteq> {} \<rparr>"
      "distinct fin" "set (finish_nodes_id nm) \<subseteq> set fin"
    using after_timeouts_frame [OF assms(1), of cfg now] by blast
  obtain f r where nm': "nm' = (after_timeouts cfg now nm)\<lparr> nm_is_cluster_finish := f, nm_is_cluster_ready := r \<rparr>"
      "nm_is_cluster_finish nm \<longrightarrow> f" "nm_is_cluster_ready nm \<longrightarrow> r"
    using UpdateClusterState_Inr [OF assms(2)] at(1) by auto
  have "ranks_ok nm' = ranks_ok nm" unfolding nm'(1) at(1) by (rule ranks_ok_frame) simp_all
  with assms(1) at nm' show ?thesis by (simp add: nm_inv_def nm_mono_def)
qed

lemma nm_exec_inv: "nm_inv nm \<Longrightarrow> nm_exec cfg c nm = Inr nm' \<Longrightarrow> nm_inv nm'"
proof (cases c)
  assume "nm_inv nm" and exec: "nm_exec cfg c nm = Inr nm'"
  then have d: "distinct (finish_nodes_id nm)" "distinct (heartbeats_finish_nodes nm)"
    by (auto simp: nm_inv_def)
  show ?thesis if "c = NodeFinish nid" for nid
    by (rule nm_inv_frame [OF \<open>nm_inv nm\<close>]) (use that exec d in \<open>auto simp: UpdateNodeFinishState_def\<close>)
  show ?thesis if "c = ClusterTimeout"
    by (rule nm_inv_frame [OF \<open>nm_inv nm\<close>]) (use that exec d in \<open>auto simp: CheckClusterTimeout_def\<close>)
  show ?thesis if "c = AddFinish m" for m
    by (rule nm_inv_frame [OF \<open>nm_inv nm\<close>]) (use that exec d in \<open>auto simp: AddFinishNode_def\<close>)
qed (use nm_inv_NextRankId nm_inv_UpdateHeartbeat nm_inv_UpdateClusterState in auto)

lemma UpdateHeartbeat_mono: "nm_mono nm (UpdateHeartbeat now nid nm)"
proof -
  have "nm_is_cluster_ready (UpdateHeartbeat now nid nm) = nm_is_cluster_ready nm"
    "nm_is_cluster_finish (UpdateHeartbeat now nid nm) = nm_is_cluster_finish nm"
    "nm_is_cluster_timeout (UpdateHeartbeat now nid nm) = nm_is_cluster_timeout nm"
    "finish_nodes_id (UpdateHeartbeat now nid nm) = finish_nodes_id nm"
    by (simp_all add: UpdateHeartbeat_def split: prod.splits)
  then show ?thesis
    by (auto simp: nm_mono_def UpdateHeartbeat_nodes map_le_def map_add_def split: option.splits)
qed

lemma nm_exec_mono: "nm_inv nm \<Longrightarrow> nm_exec cfg c nm = Inr nm' \<Longrightarrow> nm_mono nm nm'"
proof (cases c)
  assume inv: "nm_inv nm" and exec: "nm_exec cfg c nm = Inr nm'"
  show ?thesis if "c = Register m" for m
    using inv exec that NextRankId_nodes [of nm m] NextRankId_frame [of m nm]
    by (auto simp: nm_mono_def nm_inv_def)
  show ?thesis if "c = NodeFinish nid" for nid
    using exec that by (auto simp: nm_mono_def UpdateNodeFinishState_def)
  show ?thesis if "c = ClusterTimeout"
    using exec that by (auto simp: nm_mono_def CheckClusterTimeout_def)
  show ?thesis if "c = AddFinish m" for m
    using exec that by (auto simp: nm_mono_def AddFinishNode_def)
qed (use nm_inv_UpdateClusterState UpdateHeartbeat_mono in auto)

interpretation nm: component "nm_exec cfg" nm_inv nm_mono for cfg
proof unfold_locales
  show "nm_mono s s''" if "nm_mono s s'" "nm_mono s' s''" for s s' s''
    using that by (auto simp: nm_mono_def intro: map_le_trans)
qed (fact nm_exec_inv nm_exec_mono | simp add: nm_mono_def)+

lemma nm_inv_initial: "nm_inv (InitNodeNum cfg new_node_manager)"
  by (simp add: nm_inv_def ranks_ok_def ranks_def InitNodeNum_def new_node_manager_def)

section \<open>Properties\<close>

lemma ranks_ok_distinct:
  assumes "rs = map word_of_nat [0..<length rs]" "length rs < 2 ^ 32"
  shows "distinct (rs :: u32 list) \<and> unat ` set rs = {0..<length rs}"
proof -
  have "map unat rs = map unat (map word_of_nat [0..<length rs] :: u32 list)"
    using assms(1) by (rule arg_cong)
  also have "\<dots> = [0..<length rs]"
    using assms(2) by (intro nth_equalityI) (simp_all add: unat_of_nat)
  finally have m: "map unat rs = [0..<length rs]" .
  have "distinct rs" using m distinct_map distinct_upt by metis
  moreover have "unat ` set rs = {0..<length rs}" using arg_cong [OF m, of set] by simp
  ultimately show ?thesis ..
qed



text \<open>
  A rank is stable.  The rank a registration returned is returned again for the same node
  identifier after any further calls, even if the node then announces another role or address,
  and the repeated registration changes nothing.
\<close>

theorem rank_stable:
  assumes "nm_inv nm" "NextRankId m nm = (r, nm1)" "r \<noteq> -1"
    and "run (nm_exec cfg) calls nm1 = Inr nm2" "rm_node_id m' = rm_node_id m"
  shows "NextRankId m' nm2 = (r, nm2)"
proof -
  have inv1: "nm_inv nm1" using nm_inv_NextRankId [OF assms(1), of m] assms(2) by simp
  obtain info where info: "map_of (nodes_info nm1) (rm_node_id m) = Some info" "sint (node_rank_id info) = r"
  proof (cases "map_of (nodes_info nm) (rm_node_id m)")
    case (Some i)
    with assms(2) that show ?thesis by (simp add: NextRankId_known)
  next
    case None
    with assms(2,3) that show ?thesis
      by (cases "rm_role m") (auto simp: NextRankId_new int32_def map_add_def)
  qed
  moreover have "map_of (nodes_info nm1) \<subseteq>\<^sub>m map_of (nodes_info nm2)"
    using nm.run_mono [OF inv1 assms(4)] by (simp add: nm_mono_def)
  ultimately have "map_of (nodes_info nm2) (rm_node_id m') = Some info"
    using assms(5) by (metis domI map_le_def)
  with info(2) show ?thesis by (simp add: NextRankId_known)
qed

theorem rank_stable_witness:
  "\<exists>nm2. run (nm_exec initial_config) [Heartbeat 7 ''b'']
      (snd (NextRankId \<lparr> rm_ip = ''10.0.0.1'', rm_port = 80, rm_node_id = ''a'', rm_role = SERVER \<rparr> new_node_manager)) = Inr nm2 \<and>
    NextRankId \<lparr> rm_ip = ''10.0.0.9'', rm_port = 1, rm_node_id = ''a'', rm_role = WORKER \<rparr> nm2 = (0, nm2)"
proof -
  let ?m = "\<lparr> rm_ip = ''10.0.0.1'', rm_port = 80, rm_node_id = ''a'', rm_role = SERVER \<rparr>"
  have inv: "nm_inv new_node_manager"
    by (simp add: nm_inv_def ranks_ok_def ranks_def new_node_manager_def)
  have reg: "NextRankId ?m new_node_manager = (0, snd (NextRankId ?m new_node_manager))"
    by (simp add: NextRankId_def new_node_manager_def Let_def int32_id)
  have run: "run (nm_exec initial_config) [Heartbeat 7 ''b''] (snd (NextRankId ?m new_node_manager)) =
      Inr (UpdateHeartbeat 7 ''b'' (snd (NextRankId ?m new_node_manager)))"
    by simp
  show ?thesis
    using rank_stable [OF inv reg _ run, of "\<lparr> rm_ip = ''10.0.0.9'', rm_port = 1, rm_node_id = ''a'', rm_role = WORKER \<rparr>"]
      run by simp
qed

text \<open>
  C39: what a timer tick does.  \<open>UpdateClusterState\<close> records exactly the nodes whose last heartbeat
  is older than the timeout, counts them as finished and sets the timeout flag if there is one;
  it sets the finish flag when the finished nodes reach the total or the reduced number of nodes,
  and the ready flag when all nodes are registered or the cluster is finished.  It clears no flag
  and forgets no node.
\<close>

theorem UpdateClusterState_spec:
  fixes cfg :: cluster_config and now :: int
  assumes "nm_inv nm" "length (finish_nodes_id nm) + length (heartbeats nm) < 2 ^ 31"
  defines "dead \<equiv> expired cfg now (heartbeats nm)"
  shows "\<exists>nm'. UpdateClusterState cfg now nm = Inr nm' \<and> nodes_info nm' = nodes_info nm \<and>
    fst ` set (timeout_nodes_info nm') = dead \<and>
    set (finish_nodes_id nm') = set (finish_nodes_id nm) \<union> dead \<and>
    (nm_is_cluster_timeout nm' \<longleftrightarrow> nm_is_cluster_timeout nm \<or> dead \<noteq> {}) \<and>
    (nm_is_cluster_finish nm' \<longleftrightarrow> nm_is_cluster_finish nm \<or>
       card (set (finish_nodes_id nm')) = unat (total_node_num nm) \<or>
       int (card (set (finish_nodes_id nm'))) = current_node_num nm) \<and>
    (nm_is_cluster_ready nm' \<longleftrightarrow> nm_is_cluster_ready nm \<or>
       card (set (finish_nodes_id nm')) = unat (total_node_num nm) \<or>
       int (card (set (finish_nodes_id nm'))) = current_node_num nm \<or>
       length (nodes_info nm) = unat (total_node_num nm))"
proof -
  obtain ti fin where at: "after_timeouts cfg now nm =
      nm\<lparr> timeout_nodes_info := ti, finish_nodes_id := fin,
          nm_is_cluster_timeout := nm_is_cluster_timeout nm \<or> dead \<noteq> {} \<rparr>"
      "fst ` set ti = dead" "set fin = set (finish_nodes_id nm) \<union> dead" "distinct fin"
    using after_timeouts_frame [OF assms(1), of cfg now] unfolding dead_def by blast
  have "card (set fin) \<le> card (set (finish_nodes_id nm)) + card dead"
    unfolding at(3) by (rule card_Un_le)
  moreover have "dead \<subseteq> set (map fst (heartbeats nm))"
    unfolding dead_def expired_def by (auto intro: rev_image_eqI)
  then have "card dead \<le> length (heartbeats nm)"
    using card_mono [of "set (map fst (heartbeats nm))" dead] card_length [of "map fst (heartbeats nm)"]
    by simp
  ultimately have "length fin < 2 ^ 31"
    using assms(2) card_length [of "finish_nodes_id nm"] distinct_card [OF at(4)] by linarith
  then have eff: "UpdateClusterState cfg now nm =
      Inr ((after_timeouts cfg now nm)\<lparr> nm_is_cluster_finish := nm_is_cluster_finish nm \<or> finish_reached (after_timeouts cfg now nm),
        nm_is_cluster_ready := nm_is_cluster_ready nm \<or> finish_reached (after_timeouts cfg now nm) \<or>
          length (nodes_info nm) = unat (total_node_num nm) \<rparr>)"
    using UpdateClusterState_effect [of cfg now nm] at(1) by simp
  have "length fin = card (set (finish_nodes_id nm) \<union> dead)"
    using distinct_card [OF at(4)] at(3) by simp
  then show ?thesis
    unfolding eff at(1) by (simp add: finish_reached_def at(2,3))
qed

theorem UpdateClusterState_spec_witness:
  "\<exists>nm'. UpdateClusterState initial_config 100
      (UpdateHeartbeat 5 ''a'' (UpdateHeartbeat 90 ''b'' (new_node_manager\<lparr> total_node_num := 2 \<rparr>))) = Inr nm' \<and>
    set (finish_nodes_id nm') = {''a''} \<and> nm_is_cluster_ready nm' \<and> nm_is_cluster_timeout nm' \<and> \<not> nm_is_cluster_finish nm'"
proof -
  define nm where "nm = UpdateHeartbeat 5 ''a'' (UpdateHeartbeat 90 ''b'' (new_node_manager\<lparr> total_node_num := 2 \<rparr>))"
  have "nm_inv (new_node_manager\<lparr> total_node_num := 2 \<rparr>)"
    by (simp add: nm_inv_def ranks_ok_def ranks_def new_node_manager_def)
  then have inv: "nm_inv nm" unfolding nm_def by (intro nm_inv_UpdateHeartbeat)
  have hb: "heartbeats nm = [(''b'', 90), (''a'', 5)]" "finish_nodes_id nm = []" "length (nodes_info nm) = 2"
    "total_node_num nm = 2" "current_node_num nm = -1" "\<not> nm_is_cluster_finish nm"
    by (simp_all add: nm_def UpdateHeartbeat_def map_index_def new_node_manager_def)
  have dead: "expired initial_config 100 (heartbeats nm) = {''a''}"
    unfolding hb(1) by (auto simp: expired_def initial_config_def)
  show ?thesis
    using UpdateClusterState_spec [OF inv, of initial_config 100] hb
    unfolding dead nm_def [symmetric] by (elim exE conjE meta_mp [THEN exE]) (auto simp: dead)
qed

text \<open>
  The address book.  A new server appears in \<open>FetchServersMeta\<close> with the rank it was given, its
  address and its port modulo 65536, behind the servers already there; a new worker or a repeated
  registration changes nothing in it.
\<close>

theorem FetchServersMeta_after_register:
  "FetchServersMeta (snd (NextRankId m nm)) =
     FetchServersMeta nm @
     (if map_of (nodes_info nm) (rm_node_id m) = None \<and> rm_role m = SERVER
      then [\<lparr> sm_rank_id = fst (NextRankId m nm), sm_ip = rm_ip m, sm_port = rm_port m mod 2 ^ 16 \<rparr>] else [])"
proof (cases "map_of (nodes_info nm) (rm_node_id m)")
  case (Some info)
  then show ?thesis by (simp add: NextRankId_known)
next
  case None
  then show ?thesis
    unfolding NextRankId_new [OF None]
    by (cases "rm_role m")
       (simp_all add: FetchServersMeta_def default_NodeInfo_def int32_def uint_word_of_int)
qed

text \<open>
  A heartbeat of an unknown node is not rejected.  It enters the node into the table with the
  default description, so the node counts towards readiness, and a later registration as a server
  returns rank 0 without entering it into the address book.
\<close>

theorem unknown_heartbeat_registers:
  fixes now :: int
  assumes "map_of (nodes_info nm) (rm_node_id m) = None"
  defines "nm' \<equiv> UpdateHeartbeat now (rm_node_id m) nm"
  shows "length (nodes_info nm') = Suc (length (nodes_info nm)) \<and>
    NextRankId m nm' = (0, nm') \<and> FetchServersMeta nm' = FetchServersMeta nm"
proof -
  have n: "nodes_info nm' = nodes_info nm @ [(rm_node_id m, default_NodeInfo)]"
    using assms by (simp add: UpdateHeartbeat_nodes)
  then have "map_of (nodes_info nm') (rm_node_id m) = Some default_NodeInfo"
    using assms(1) by (simp add: map_add_def)
  with n show ?thesis
    by (simp add: NextRankId_known FetchServersMeta_def default_NodeInfo_def)
qed

theorem unknown_heartbeat_registers_witness:
  "NextRankId \<lparr> rm_ip = ''10.0.0.1'', rm_port = 80, rm_node_id = ''a'', rm_role = SERVER \<rparr>
      (UpdateHeartbeat 3 ''a'' new_node_manager) = (0, UpdateHeartbeat 3 ''a'' new_node_manager) \<and>
   FetchServersMeta (UpdateHeartbeat 3 ''a'' new_node_manager) = []"
  using unknown_heartbeat_registers
    [of new_node_manager "\<lparr> rm_ip = ''10.0.0.1'', rm_port = 80, rm_node_id = ''a'', rm_role = SERVER \<rparr>" 3]
  by (simp add: new_node_manager_def FetchServersMeta_def)

end
