(* ===== verification/Tcp_Server.thy ===== *)
theory Tcp_Server
  imports Tcp_Message Comm_Util
begin

text \<open>
  \<open>TcpServer\<close> and \<open>TcpConnection\<close> of \<open>src/even-http/ps/core\<close>: creation of the listener, the table of
  connections, and the callbacks libevent calls.  What libevent and the socket calls answer is a
  parameter of the operation; a null pointer is \<open>None\<close> or false.  Logging is left out.
\<close>

section \<open>Connections\<close>

text \<open>\<open>conn_out\<close> is the output buffer of \<open>buffer_event_\<close>.\<close>

record tcp_connection =
  conn_fd :: int
  conn_handler :: tcp_message_handler
  conn_out :: "byte list option"

definition new_connection :: "byte list \<Rightarrow> int \<Rightarrow> tcp_connection" where
  "new_connection uninit fd =
     \<lparr> conn_fd = fd, conn_handler = new_handler uninit, conn_out = Some [] \<rparr>"

definition InitConnection :: "bool \<Rightarrow> tcp_connection \<Rightarrow> tcp_connection" where
  "InitConnection cb c = c\<lparr> conn_handler := SetCallback (conn_handler c) cb \<rparr>"

definition OnReadHandler :: "tcp_connection \<Rightarrow> byte list \<Rightarrow> (exn, tcp_connection, frame) rx" where
  "OnReadHandler c bs =
     rx_bind (ReceiveMessage (conn_handler c) (Some bs)) (\<lambda>h. ([], Inr (c\<lparr> conn_handler := h \<rparr>)))"

text \<open>\<open>SendMessage (buffer, num)\<close>: a failed write is only logged.\<close>

definition SendRaw :: "bev_write \<Rightarrow> byte list \<Rightarrow> tcp_connection \<Rightarrow> exn + tcp_connection" where
  "SendRaw bufferevent_write bs c =
     (case conn_out c of None \<Rightarrow> Inl (Undefined ''buffer_event_ is null'')
      | Some out \<Rightarrow> (case bufferevent_write out bs of None \<Rightarrow> Inr c | Some out' \<Rightarrow> Inr (c\<lparr> conn_out := Some out' \<rparr>)))"

definition conn_SendMessage ::
  "bev_write \<Rightarrow> tcp_connection \<Rightarrow> byte list option \<Rightarrow> u32 \<Rightarrow> byte list option \<Rightarrow> exn + bool \<times> tcp_connection" where
  "conn_SendMessage bufferevent_write c meta protos data =
     (case SendMessage bufferevent_write (conn_out c) meta protos data of
        Inl e \<Rightarrow> Inl e
      | Inr (res, out) \<Rightarrow> Inr (res, c\<lparr> conn_out := Some out \<rparr>))"

text \<open>
  \<open>SendMessage\<close> of a \<open>CommMessage\<close>: the serialised message preceded by its size as 8 bytes.
\<close>

definition conn_SendCommMessage ::
  "bev_write \<Rightarrow> tcp_connection \<Rightarrow> byte list option \<Rightarrow> exn + bool \<times> tcp_connection" where
  "conn_SendCommMessage bufferevent_write c message =
     (case conn_out c of None \<Rightarrow> Inl (MsException ''buffer_event_ is null'') | Some out \<Rightarrow>
      case message of None \<Rightarrow> Inl (MsException ''message is null'') | Some bs \<Rightarrow>
        (case write_part bufferevent_write bs
                (write_part bufferevent_write (le_bytes 8 (length bs)) (True, out)) of
           (res, out') \<Rightarrow> Inr (res, c\<lparr> conn_out := Some out' \<rparr>)))"

section \<open>The server\<close>

text \<open>
  \<open>srv_base\<close>, \<open>srv_signal\<close> and \<open>srv_listener\<close> tell whether the pointer is set; a callback is present
  or not.  \<open>srv_connections\<close> is the \<open>std::map\<close> from sockets to shared pointers.
\<close>

record tcp_server =
  srv_base :: bool
  srv_signal :: bool
  srv_listener :: bool
  srv_address :: string
  srv_port :: u16
  srv_is_stop :: bool
  srv_connections :: "(int \<times> tcp_connection option) list"
  srv_client_connection :: bool
  srv_client_disconnection :: bool
  srv_client_accept :: bool
  srv_message_callback :: bool
  srv_timer_once :: bool
  srv_timer :: bool

definition new_server :: "string \<Rightarrow> u16 \<Rightarrow> tcp_server" where
  "new_server address p = \<lparr> srv_base = False, srv_signal = False, srv_listener = False, srv_address = address,
     srv_port = p, srv_is_stop = True, srv_connections = [],
     srv_client_connection = False, srv_client_disconnection = False, srv_client_accept = False,
     srv_message_callback = False, srv_timer_once = False, srv_timer = False \<rparr>"

definition free_server :: "tcp_server \<Rightarrow> tcp_server" where
  "free_server s = s\<lparr> srv_signal := False, srv_listener := False, srv_base := False \<rparr>"

definition SetServerCallback :: "bool \<Rightarrow> bool \<Rightarrow> bool \<Rightarrow> tcp_server \<Rightarrow> tcp_server" where
  "SetServerCallback client_conn client_disconn client_accept s =
     s\<lparr> srv_client_connection := client_conn, srv_client_disconnection := client_disconn,
        srv_client_accept := client_accept \<rparr>"

definition set_timer_once_callback :: "bool \<Rightarrow> tcp_server \<Rightarrow> tcp_server" where
  "set_timer_once_callback t s = s\<lparr> srv_timer_once := t \<rparr>"

definition set_timer_callback :: "bool \<Rightarrow> tcp_server \<Rightarrow> tcp_server" where
  "set_timer_callback t s = s\<lparr> srv_timer := t \<rparr>"

definition TcpServer_SetMessageCallback :: "bool \<Rightarrow> tcp_server \<Rightarrow> tcp_server" where
  "TcpServer_SetMessageCallback cb s = s\<lparr> srv_message_callback := cb \<rparr>"

text \<open>
  The answers of the library during \<open>Init\<close>: \<open>getsockname\<close> yields the bound port in host order
  (\<open>None\<close> is a failure).
\<close>

record init_answers =
  ia_use_pthreads :: int
  ia_base_new :: bool
  ia_bind :: bool
  ia_getsockname :: "u16 option"
  ia_evsignal :: bool
  ia_event_add :: int

text \<open>\<open>memset_s (&sin, sizeof (sin), 0, sizeof (sin))\<close> on the 16 bytes of a local structure.\<close>

definition clear_sockaddr :: int where
  "clear_sockaddr = fst (memset_s False (\<lambda>a. 0) 8 16 0 16)"

definition bound_port :: "init_answers \<Rightarrow> tcp_server \<Rightarrow> exn + tcp_server" where
  "bound_port a s =
     (if srv_port s = 0 then
        if clear_sockaddr \<noteq> EOK then Inl (MsException ''Initialize sockaddr_in failed!'')
        else case ia_getsockname a of None \<Rightarrow> Inl (MsException ''Get sock name failed!'')
             | Some p \<Rightarrow> Inr (s\<lparr> srv_port := p \<rparr>)
      else Inr s)"

definition TcpServer_Init ::
  "(string \<Rightarrow> u32) \<Rightarrow> init_answers \<Rightarrow> tcp_server \<Rightarrow> (exn + unit) \<times> tcp_server" where
  "TcpServer_Init inet_addr a s =
     (if ia_use_pthreads a \<noteq> 0 then (Inl (MsException ''Use event pthread failed!''), s)
      else let s1 = s\<lparr> srv_is_stop := False, srv_base := ia_base_new a \<rparr> in
      if \<not> srv_base s1 then (Inl (MsException ''base_ is null''), s1)
      else if \<not> CheckIp inet_addr (srv_address s1) then (Inl (MsException ''The tcp server ip is illegal!''), s1)
      else if clear_sockaddr \<noteq> EOK then (Inl (MsException ''Initialize sockaddr_in failed!''), s1)
      else let s2 = s1\<lparr> srv_listener := ia_bind a \<rparr> in
      if \<not> srv_listener s2 then (Inl (MsException ''listener_ is null''), s2)
      else case bound_port a s2 of Inl e \<Rightarrow> (Inl e, s2) | Inr s3 \<Rightarrow>
      let s4 = s3\<lparr> srv_signal := ia_evsignal a \<rparr> in
      if \<not> srv_signal s4 then (Inl (MsException ''signal_event_ is null''), s4)
      else if ia_event_add a < 0 then (Inl (MsException ''Cannot create signal event.''), s4)
      else (Inr (), s4))"

text \<open>\<open>Start\<close> and \<open>StartWithNoBlock\<close>: \<open>ret\<close> is what the event loop returned.\<close>

definition TcpServer_Start :: "int \<Rightarrow> tcp_server \<Rightarrow> exn + unit" where
  "TcpServer_Start ret s =
     (if \<not> srv_base s then Inl (MsException ''base_ is null'')
      else if ret < -1 then Inl (MsException ''Event base dispatch with unexpected error code!'') else Inr ())"

definition TcpServer_StartWithNoBlock :: "int \<Rightarrow> tcp_server \<Rightarrow> exn + unit" where
  "TcpServer_StartWithNoBlock ret s =
     (if \<not> srv_base s then Inl (MsException ''base_ is null'')
      else if ret < -1 then Inl (MsException ''Event base loop with unexpected error code!'') else Inr ())"

definition StartTimerOnlyOnce :: "bool \<Rightarrow> u32 \<Rightarrow> tcp_server \<Rightarrow> exn + unit" where
  "StartTimerOnlyOnce evtimer_ok time s =
     (if \<not> srv_base s then Inl (MsException ''base_ is null'')
      else if time = 0 then Inl (MsException ''The time should not be 0!'')
      else if \<not> evtimer_ok then Inl (MsException ''ev is null'') else Inr ())"

definition TcpServer_StartTimer :: "bool \<Rightarrow> u32 \<Rightarrow> tcp_server \<Rightarrow> exn + unit" where
  "TcpServer_StartTimer event_ok time s =
     (if \<not> srv_base s then Inl (MsException ''base_ is null'')
      else if time = 0 then Inl (MsException ''The time should not be 0!'')
      else if \<not> event_ok then Inl (MsException ''ev is null'') else Inr ())"

text \<open>
  \<open>Stop\<close>: \<open>got_break\<close> is the answer of \<open>event_base_got_break\<close>, which reads through its argument.  The
  first component tells whether \<open>event_base_loopbreak\<close> is called (its failure is only logged).
\<close>

definition TcpServer_Stop :: "bool \<Rightarrow> tcp_server \<Rightarrow> exn + bool \<times> tcp_server" where
  "TcpServer_Stop got_break s =
     (if \<not> srv_base s then Inl (Undefined ''base_ is null'')
      else if got_break then Inr (False, s\<lparr> srv_is_stop := True \<rparr>)
      else if \<not> srv_is_stop s then Inr (True, s\<lparr> srv_is_stop := True \<rparr>)
      else Inr (False, s))"

text \<open>\<open>connections_.insert\<close> keeps an entry that is already there; \<open>operator[]\<close> inserts a null pointer.\<close>

definition AddConnection :: "int \<Rightarrow> tcp_connection option \<Rightarrow> tcp_server \<Rightarrow> exn + tcp_server" where
  "AddConnection fd connection s =
     (case connection of None \<Rightarrow> Inl (MsException ''connection is null'')
      | Some c \<Rightarrow> Inr (if fd \<in> fst ` set (srv_connections s) then s
                      else s\<lparr> srv_connections := map_set fd (Some c) (srv_connections s) \<rparr>))"

definition RemoveConnection :: "int \<Rightarrow> tcp_server \<Rightarrow> tcp_server" where
  "RemoveConnection fd s = s\<lparr> srv_connections := map_erase fd (srv_connections s) \<rparr>"

definition GetConnectionByFd :: "int \<Rightarrow> tcp_server \<Rightarrow> tcp_connection option \<times> tcp_server" where
  "GetConnectionByFd fd s =
     (case map_index None fd (srv_connections s) of (c, cs) \<Rightarrow> (c, s\<lparr> srv_connections := cs \<rparr>))"

text \<open>
  The loops over \<open>connections_\<close> visit the keys in increasing order; the connections written before an
  exception keep what was written.
\<close>

fun send_each :: "(tcp_connection option \<Rightarrow> exn + tcp_connection) \<Rightarrow> int list \<Rightarrow> tcp_server
    \<Rightarrow> (exn + unit) \<times> tcp_server" where
  "send_each send [] s = (Inr (), s)"
| "send_each send (fd # fds) s =
     (case send (Option.bind (map_of (srv_connections s) fd) id) of
        Inl e \<Rightarrow> (Inl e, s)
      | Inr c \<Rightarrow> send_each send fds (s\<lparr> srv_connections := map_set fd (Some c) (srv_connections s) \<rparr>))"

definition connection_keys :: "tcp_server \<Rightarrow> int list" where
  "connection_keys s = sort (map fst (srv_connections s))"

definition SendToAllClients :: "bev_write \<Rightarrow> byte list option \<Rightarrow> tcp_server \<Rightarrow> (exn + unit) \<times> tcp_server" where
  "SendToAllClients bufferevent_write data s =
     (case data of None \<Rightarrow> (Inl (MsException ''data is null''), s)
      | Some bs \<Rightarrow> send_each (\<lambda>conn. case conn of None \<Rightarrow> Inl (Undefined ''connection is null'')
                                     | Some c \<Rightarrow> SendRaw bufferevent_write bs c) (connection_keys s) s)"

definition TcpServer_SendCommMessage ::
  "bev_write \<Rightarrow> tcp_connection option \<Rightarrow> byte list option \<Rightarrow> exn + bool \<times> tcp_connection" where
  "TcpServer_SendCommMessage bufferevent_write conn message =
     (case conn of None \<Rightarrow> Inl (MsException ''conn is null'') | Some c \<Rightarrow>
      case message of None \<Rightarrow> Inl (MsException ''message is null'') | Some bs \<Rightarrow>
        conn_SendCommMessage bufferevent_write c message)"

definition TcpServer_SendMessage ::
  "bev_write \<Rightarrow> tcp_connection option \<Rightarrow> byte list option \<Rightarrow> u32 \<Rightarrow> byte list option \<Rightarrow> exn + bool \<times> tcp_connection" where
  "TcpServer_SendMessage bufferevent_write conn meta protos data =
     (case conn of None \<Rightarrow> Inl (MsException ''conn is null'') | Some c \<Rightarrow>
      case meta of None \<Rightarrow> Inl (MsException ''meta is null'') | Some m \<Rightarrow>
      case data of None \<Rightarrow> Inl (MsException ''data is null'') | Some d \<Rightarrow>
        conn_SendMessage bufferevent_write c meta protos data)"

definition TcpServer_Broadcast :: "bev_write \<Rightarrow> byte list option \<Rightarrow> tcp_server \<Rightarrow> (exn + unit) \<times> tcp_server" where
  "TcpServer_Broadcast bufferevent_write message s =
     (case message of None \<Rightarrow> (Inl (MsException ''message is null''), s)
      | Some bs \<Rightarrow> send_each (\<lambda>conn. map_sum id snd (TcpServer_SendCommMessage bufferevent_write conn message))
                     (connection_keys s) s)"

definition ConnectionNum :: "tcp_server \<Rightarrow> int" where
  "ConnectionNum s = int32 (int (length (srv_connections s)))"

section \<open>Callbacks of the event loop\<close>

text \<open>\<open>accepted\<close> is what a \<open>client_accept_\<close> callback returns.\<close>

definition onCreateConnection ::
  "byte list \<Rightarrow> tcp_connection option \<Rightarrow> int \<Rightarrow> tcp_server \<Rightarrow> tcp_connection option" where
  "onCreateConnection uninit accepted fd s =
     (if srv_client_accept s then accepted else Some (new_connection uninit fd))"

definition SetTcpNoDelay :: "int \<Rightarrow> exn + unit" where
  "SetTcpNoDelay ret = (if ret < 0 then Inl (MsException ''Set socket no delay failed!'') else Inr ())"

text \<open>\<open>aa_bev\<close> tells whether a buffer event could be made, \<open>aa_nodelay\<close> is the result of \<open>setsockopt\<close>.\<close>

record accept_answers =
  aa_sockaddr :: bool
  aa_bev :: bool
  aa_loopbreak :: int
  aa_accepted :: "tcp_connection option"
  aa_nodelay :: int
  aa_enable :: int

text \<open>
  The table and the closure share the connection object, so an entry made by \<open>AddConnection\<close> has the
  callback that \<open>InitConnection\<close> sets afterwards.  The first component is the connection the events of
  \<open>fd\<close> go to, \<open>None\<close> when there is none.
\<close>

definition ListenerCallback ::
  "byte list \<Rightarrow> accept_answers \<Rightarrow> int \<Rightarrow> tcp_server \<Rightarrow> (exn + tcp_connection option) \<times> tcp_server" where
  "ListenerCallback uninit a fd s =
     (if \<not> srv_base s then (Inl (MsException ''base is null''), s)
      else if \<not> aa_sockaddr a then (Inl (MsException ''sockaddr is null''), s)
      else if \<not> aa_bev a then
        (if aa_loopbreak a \<noteq> 0 then (Inl (MsException ''event base loop break failed!''), s)
         else (Inr None, s))
      else case onCreateConnection uninit (aa_accepted a) fd s of
        None \<Rightarrow> (Inl (MsException ''conn is null''), s)
      | Some conn \<Rightarrow>
          case SetTcpNoDelay (aa_nodelay a) of Inl e \<Rightarrow> (Inl e, s) | Inr _ \<Rightarrow>
          let conn' = InitConnection True conn in
          case AddConnection fd (Some conn') s of
            Inl e \<Rightarrow> (Inl e, s)
          | Inr s1 \<Rightarrow> if aa_enable a = -1 then (Inl (MsException ''Buffer event enable read and write failed!''), s1)
                      else (Inr (Some conn'), s1))"

definition kMessageChunkLength :: nat where "kMessageChunkLength = 4096"

text \<open>
  \<open>ReadCallback\<close> drains the input buffer in chunks; \<open>evbuffer_remove\<close> returns -1 when the buffer is
  \<open>frozen\<close>.
\<close>

function server_read_loop ::
  "bool \<Rightarrow> byte list \<Rightarrow> tcp_connection \<Rightarrow> (exn, tcp_connection, frame) rx" where
  "server_read_loop frozen buf conn =
     (if length buf > 0 then
        if frozen then ([], Inl (MsException ''Can not drain data from the event buffer!''))
        else rx_bind (OnReadHandler conn (take kMessageChunkLength buf))
               (\<lambda>conn'. server_read_loop frozen (drop kMessageChunkLength buf) conn')
      else ([], Inr conn))"
  by pat_completeness auto
termination by (relation "measure (\<lambda>(d, buf, c). length buf)") (auto simp: kMessageChunkLength_def)

declare server_read_loop.simps [simp del]

definition TcpServer_ReadCallback ::
  "bool \<Rightarrow> byte list option \<Rightarrow> tcp_connection option \<Rightarrow> (exn, tcp_connection, frame) rx" where
  "TcpServer_ReadCallback frozen bev connection =
     (case bev of None \<Rightarrow> ([], Inl (MsException ''bev is null'')) | Some buf \<Rightarrow>
      case connection of None \<Rightarrow> ([], Inl (MsException ''connection is null'')) | Some c \<Rightarrow>
        server_read_loop frozen buf c)"

text \<open>The closure given to \<open>InitConnection\<close> passes a message on when a message callback is set.\<close>

definition on_server_receive :: "tcp_server \<Rightarrow> frame list \<Rightarrow> frame list" where
  "on_server_receive s fs = (if srv_message_callback s then fs else [])"

text \<open>
  The disconnections reported, each with the server the callback sees: at end of file the
  connection is still in the table, after an error it is not.
\<close>

definition TcpServer_EventCallback ::
  "bool \<Rightarrow> bool \<Rightarrow> bool \<Rightarrow> tcp_connection option \<Rightarrow> tcp_server \<Rightarrow> exn + (tcp_server \<times> int) list \<times> tcp_server" where
  "TcpServer_EventCallback bev ev_eof ev_error data s =
     (if \<not> bev then Inl (MsException ''bev is null'') else
      case data of None \<Rightarrow> Inl (MsException ''data is null'') | Some conn \<Rightarrow>
        let s' = RemoveConnection (conn_fd conn) s in
        if ev_eof then Inr (if srv_client_disconnection s then [(s, conn_fd conn)] else [], s')
        else if ev_error then Inr (if srv_client_disconnection s then [(s', conn_fd conn)] else [], s')
        else Inr ([], s))"

definition SignalCallback :: "int \<Rightarrow> tcp_server option \<Rightarrow> exn + unit" where
  "SignalCallback loopexit data =
     (case data of None \<Rightarrow> Inl (MsException ''server is null'')
      | Some s \<Rightarrow> if loopexit = -1 then Inl (MsException ''Event base loop exit failed.'') else Inr ())"

text \<open>Whether the callback runs.\<close>

definition TcpServer_TimerCallback :: "tcp_server option \<Rightarrow> exn + bool" where
  "TcpServer_TimerCallback arg =
     (case arg of None \<Rightarrow> Inl (MsException ''arg is null'') | Some s \<Rightarrow> Inr (srv_timer s))"

definition TcpServer_TimerOnceCallback :: "tcp_server option \<Rightarrow> exn + bool" where
  "TcpServer_TimerOnceCallback arg =
     (case arg of None \<Rightarrow> Inl (MsException ''arg is null'') | Some s \<Rightarrow> Inr (srv_timer_once s))"

section \<open>Reading\<close>

abbreviation put_conn_handler :: "tcp_message_handler \<Rightarrow> tcp_connection \<Rightarrow> tcp_connection" where
  "put_conn_handler h c \<equiv> c\<lparr> conn_handler := h \<rparr>"

abbreviation conn_byte :: "tcp_connection \<Rightarrow> byte \<Rightarrow> (exn, tcp_connection, frame) rx" where
  "conn_byte \<equiv> rx_embed conn_handler put_conn_handler rx_byte"

interpretation conn_rx: embedded_parser "\<lambda>h xs. ReceiveMessage h (Some xs)" rx_byte
  "\<lambda>xs. length xs \<le> SECUREC_MEM_MAX_LEN" rx_inv encode_frame wf_frame rx_idle conn_handler put_conn_handler
  by unfold_locales simp_all

lemma OnReadHandler_embed:
  "OnReadHandler c bs = rx_embed conn_handler put_conn_handler (\<lambda>h xs. ReceiveMessage h (Some xs)) c bs"
  by (simp add: OnReadHandler_def rx_embed_def)

lemma OnReadHandler_bytes:
  assumes "rx_inv (conn_handler c)"
  shows "OnReadHandler c (take kMessageChunkLength bs) = rx_fold conn_byte c (take kMessageChunkLength bs)"
  unfolding OnReadHandler_embed
  by (rule conn_rx.embedded.feed_bytes [OF assms])
     (simp add: kMessageChunkLength_def SECUREC_MEM_MAX_LEN_def)

lemma server_read_loop_bytes:
  "rx_inv (conn_handler c) \<Longrightarrow> server_read_loop False buf c = rx_fold conn_byte c buf"
proof (induction "length buf" arbitrary: buf c rule: less_induct)
  case less
  let ?now = "take kMessageChunkLength buf" and ?rest = "drop kMessageChunkLength buf"
  show ?case
  proof (cases "buf = []")
    case True
    then show ?thesis by (simp add: server_read_loop.simps)
  next
    case False
    then have short: "length ?rest < length buf" by (simp add: kMessageChunkLength_def)
    have "server_read_loop False buf c =
        rx_bind (rx_fold conn_byte c ?now) (\<lambda>c'. server_read_loop False ?rest c')"
      using False OnReadHandler_bytes [OF less.prems] by (subst server_read_loop.simps) simp
    also have "\<dots> = rx_bind (rx_fold conn_byte c ?now) (\<lambda>c'. rx_fold conn_byte c' ?rest)"
      by (rule rx_bind_cong_Inr) (rule less.hyps [OF short], rule conn_rx.embedded.fold_inv [OF less.prems])
    also have "\<dots> = rx_fold conn_byte c (?now @ ?rest)" by (simp only: rx_fold_append)
    finally show ?thesis by simp
  qed
qed

interpretation srv_rx: framing "\<lambda>c buf. TcpServer_ReadCallback False (Some buf) (Some c)" conn_byte "\<lambda>_. True"
  "\<lambda>c. rx_inv (conn_handler c)" encode_frame wf_frame "\<lambda>c. rx_idle (conn_handler c)"
proof unfold_locales
  show "TcpServer_ReadCallback False (Some xs) (Some c) = rx_fold conn_byte c xs"
    if "rx_inv (conn_handler c)" for c xs
    using that by (simp add: TcpServer_ReadCallback_def server_read_loop_bytes)
qed (fact conn_rx.embedded.step_inv conn_rx.embedded.idle_inv conn_rx.embedded.encode_step)+

section \<open>The table of connections\<close>

text \<open>What the event loop and the users of the server do with the table.\<close>

datatype srv_op =
    SrvAccept "byte list" accept_answers int
  | SrvEvent bool bool tcp_connection
  | SrvLookup int

fun srv_exec :: "srv_op \<Rightarrow> tcp_server \<Rightarrow> exn + tcp_server" where
  "srv_exec (SrvAccept uninit a fd) s =
     (case ListenerCallback uninit a fd s of (Inl e, s') \<Rightarrow> Inl e | (Inr c, s') \<Rightarrow> Inr s')"
| "srv_exec (SrvEvent ev_eof ev_error c) s =
     map_sum id snd (TcpServer_EventCallback True ev_eof ev_error (Some c) s)"
| "srv_exec (SrvLookup fd) s = Inr (snd (GetConnectionByFd fd s))"

definition srv_fds :: "tcp_server \<Rightarrow> int set" where
  "srv_fds s = fst ` set (srv_connections s)"

text \<open>The abstract table: a set of sockets.\<close>

fun fds_exec :: "srv_op \<Rightarrow> int set \<Rightarrow> int set" where
  "fds_exec (SrvAccept uninit a fd) S = (if aa_bev a then insert fd S else S)"
| "fds_exec (SrvEvent ev_eof ev_error c) S = (if ev_eof \<or> ev_error then S - {conn_fd c} else S)"
| "fds_exec (SrvLookup fd) S = insert fd S"

definition srv_inv :: "tcp_server \<Rightarrow> bool" where
  "srv_inv s \<longleftrightarrow> distinct (map fst (srv_connections s)) \<and> \<not> srv_client_accept s \<and>
     (\<forall>fd c. map_of (srv_connections s) fd = Some (Some c) \<longrightarrow> conn_fd c = fd \<and> message_callback (conn_handler c))"

definition srv_same :: "tcp_server \<Rightarrow> tcp_server \<Rightarrow> bool" where
  "srv_same s s' \<longleftrightarrow> s'\<lparr> srv_connections := srv_connections s \<rparr> = s"

lemma ListenerCallback_Inr:
  assumes "ListenerCallback uninit a fd s = (Inr r, s')" "\<not> srv_client_accept s"
  shows "s' = (if aa_bev a \<and> fd \<notin> srv_fds s
    then s\<lparr> srv_connections := srv_connections s @ [(fd, Some (InitConnection True (new_connection uninit fd)))] \<rparr> else s)"
  using assms
  by (auto simp: ListenerCallback_def onCreateConnection_def AddConnection_def SetTcpNoDelay_def srv_fds_def
      map_set_fresh Let_def split: if_splits)

lemma keys_map_erase: "fst ` set (map_erase k m) = fst ` set m - {k}"
  by (force simp: map_erase_def)

lemma srv_exec_fds:
  assumes "\<not> srv_client_accept s" "srv_exec x s = Inr s'"
  shows "srv_fds s' = fds_exec x (srv_fds s)"
proof (cases x)
  case (SrvAccept uninit a fd)
  with assms obtain r where "ListenerCallback uninit a fd s = (Inr r, s')"
    by (auto split: prod.splits sum.splits)
  from ListenerCallback_Inr [OF this assms(1)] SrvAccept show ?thesis by (simp add: srv_fds_def insert_absorb)
next
  case (SrvEvent ev_eof ev_error c)
  with assms(2) have "s' = (if ev_eof \<or> ev_error then RemoveConnection (conn_fd c) s else s)"
    by (auto simp: TcpServer_EventCallback_def Let_def split: if_splits)
  with SrvEvent show ?thesis by (simp add: srv_fds_def RemoveConnection_def keys_map_erase)
next
  case (SrvLookup fd)
  with assms(2) have "srv_connections s' = snd (map_index None fd (srv_connections s))"
    by (auto simp: GetConnectionByFd_def split: prod.splits)
  with SrvLookup show ?thesis by (simp add: srv_fds_def)
qed

lemma srv_exec_same:
  assumes "\<not> srv_client_accept s" "srv_exec x s = Inr s'"
  shows "srv_same s s'"
proof (cases x)
  case (SrvAccept uninit a fd)
  with assms obtain r where "ListenerCallback uninit a fd s = (Inr r, s')"
    by (auto split: prod.splits sum.splits)
  from ListenerCallback_Inr [OF this assms(1)] show ?thesis by (simp add: srv_same_def)
qed (use assms in \<open>auto simp: srv_same_def TcpServer_EventCallback_def RemoveConnection_def Let_def
    GetConnectionByFd_def split: if_splits prod.splits\<close>)

lemma srv_same_fields:
  "srv_same s s' \<Longrightarrow> srv_client_accept s' = srv_client_accept s \<and> srv_message_callback s' = srv_message_callback s"
  unfolding srv_same_def by (metis tcp_server.select_convs tcp_server.surjective tcp_server.update_convs(7))

lemma new_connection_ready:
  "conn_fd (InitConnection True (new_connection uninit fd)) = fd"
  "message_callback (conn_handler (InitConnection True (new_connection uninit fd)))"
  by (simp_all add: InitConnection_def new_connection_def SetCallback_def)

lemma srv_exec_inv:
  assumes "srv_inv s" "srv_exec x s = Inr s'"
  shows "srv_inv s'"
proof (cases x)
  case (SrvAccept uninit a fd)
  with assms obtain r where "ListenerCallback uninit a fd s = (Inr r, s')"
    by (auto split: prod.splits sum.splits)
  then have "s' = (if aa_bev a \<and> fd \<notin> srv_fds s
    then s\<lparr> srv_connections := srv_connections s @ [(fd, Some (InitConnection True (new_connection uninit fd)))] \<rparr> else s)"
    using assms(1) by (intro ListenerCallback_Inr) (simp_all add: srv_inv_def)
  with assms(1) show ?thesis
    by (auto simp: srv_inv_def srv_fds_def map_add_def new_connection_ready split: if_splits option.splits)
next
  case (SrvEvent ev_eof ev_error c)
  with assms show ?thesis
    by (auto simp: srv_inv_def TcpServer_EventCallback_def RemoveConnection_def Let_def split: if_splits)
next
  case (SrvLookup fd)
  with assms show ?thesis
    by (auto simp: srv_inv_def GetConnectionByFd_def map_index_def split: option.splits if_splits)
qed

interpretation srv: component srv_exec srv_inv srv_same
proof unfold_locales
  show "srv_same s s'" if "srv_inv s" "srv_exec l s = Inr s'" for s l s'
    using that srv_exec_same by (simp add: srv_inv_def)
  show "srv_same s s" for s by (simp add: srv_same_def)
  show "srv_same s s''" if "srv_same s s'" "srv_same s' s''" for s s' s''
    using that unfolding srv_same_def
    by (metis tcp_server.select_convs(7) tcp_server.surjective tcp_server.update_convs(7))
qed (fact srv_exec_inv)

lemma run_fds:
  "srv_inv s \<Longrightarrow> run srv_exec xs s = Inr s' \<Longrightarrow> srv_fds s' = fold fds_exec xs (srv_fds s)"
proof (induction xs arbitrary: s)
  case Nil
  then show ?case by simp
next
  case (Cons x xs)
  then obtain s1 where s1: "srv_exec x s = Inr s1" "run srv_exec xs s1 = Inr s'" by (auto split: sum.splits)
  with Cons.prems(1) have "srv_fds s1 = fds_exec x (srv_fds s)"
    by (intro srv_exec_fds) (simp_all add: srv_inv_def)
  with Cons.IH [of s1] Cons.prems(1) s1 srv_exec_inv show ?case by simp
qed

section \<open>Writing to every connection\<close>

lemma send_each_null:
  "fd \<in> set ks \<Longrightarrow> map_of (srv_connections s) fd = Some None \<Longrightarrow> send None = Inl e \<Longrightarrow>
   \<exists>e'. fst (send_each send ks s) = Inl e'"
proof (induction ks arbitrary: s)
  case (Cons k ks)
  then show ?case by (cases "k = fd") (auto split: sum.splits)
qed simp

lemma send_each_all:
  assumes "distinct ks" "\<forall>k\<in>set ks. \<exists>c. map_of (srv_connections s) k = Some (Some c) \<and> send (Some c) = Inr (g c)"
  shows "\<exists>s'. send_each send ks s = (Inr (), s') \<and> (\<forall>k. map_of (srv_connections s') k =
    (if k \<in> set ks then map_option (map_option g) (map_of (srv_connections s) k) else map_of (srv_connections s) k))"
  using assms
proof (induction ks arbitrary: s)
  case (Cons k ks)
  then obtain c where c: "map_of (srv_connections s) k = Some (Some c)" "send (Some c) = Inr (g c)" by auto
  let ?s = "s\<lparr> srv_connections := map_set k (Some (g c)) (srv_connections s) \<rparr>"
  have "\<exists>s'. send_each send ks ?s = (Inr (), s') \<and> (\<forall>j. map_of (srv_connections s') j =
    (if j \<in> set ks then map_option (map_option g) (map_of (srv_connections ?s) j) else map_of (srv_connections ?s) j))"
    using Cons.prems by (intro Cons.IH) auto
  with c Cons.prems(1) show ?case by auto
qed simp

section \<open>Initialisation\<close>

lemma clear_sockaddr_EOK [simp]: "clear_sockaddr = EOK"
  by (simp add: clear_sockaddr_def memset_s_def SECUREC_MEMSET_PARAM_OK_def SECUREC_MEM_MAX_LEN_def)

section \<open>Properties\<close>

text \<open>
  C5: what one end sends, the read callback of the server's connection delivers.  The stream the
  calls of \<open>SendMessage\<close> produce may arrive in any pieces, of any size; the callback drains each
  piece in chunks of 4096 bytes, and together the callbacks deliver the sent frames exactly once,
  in order, and leave the connection idle.
\<close>

theorem server_delivers_sent_frames:
  assumes "rx_idle (conn_handler c)" "list_all wf_frame fs"
    and appends: "\<And>out bs. bufferevent_write out bs = Some (out @ bs)"
    and "send_frames bufferevent_write [] fs = Inr (True, concat bufs)"
  shows "\<exists>c'. rx_idle (conn_handler c') \<and>
    rx_fold (\<lambda>c buf. TcpServer_ReadCallback False (Some buf) (Some c)) c bufs = (fs, Inr c')"
proof -
  have "concat bufs = concat (map encode_frame fs)"
    using send_frames_encode [OF assms(2) appends, of "[]"] assms(4) by simp
  then show ?thesis by (intro srv_rx.frames_delivered [OF assms(1,2)]) (simp_all add: list_all_iff)
qed

theorem server_delivers_sent_frames_witness:
  "\<exists>c'. rx_idle (conn_handler c') \<and>
     rx_fold (\<lambda>c buf. TcpServer_ReadCallback False (Some buf) (Some c))
       (InitConnection True (new_connection (replicate 16 0) 7))
       [[1, 0, 0, 0, 2, 0], [], [0, 0, 3, 0, 0, 0, 0, 0, 0, 0, 7, 8, 9]] =
     ([\<lparr> frame_proto = 1, frame_meta = [7, 8], frame_data = [9] \<rparr>], Inr c')"
proof (rule server_delivers_sent_frames [where bufferevent_write = "\<lambda>out bs. Some (out @ bs)"])
  show "send_frames (\<lambda>out bs. Some (out @ bs)) [] [\<lparr> frame_proto = 1, frame_meta = [7, 8], frame_data = [9] \<rparr>] =
      Inr (True, concat [[1, 0, 0, 0, 2, 0], [], [0, 0, 3, 0, 0, 0, 0, 0, 0, 0, 7, 8, 9]])"
    by (simp add: SendMessage_frame encode_frame_def header_bytes_def frame_header_def codec_simps)
qed (simp_all add: rx_idle_def rx_inv_def new_handler_def SetCallback_def wf_frame_def
    InitConnection_def new_connection_def)



text \<open>
  A broadcast reaches everyone.  If no entry of the table is null, every connection has a
  buffer event and writes succeed, the loop over the connections ends normally and appends to the
  output of every connection the size of the message as 8 bytes and the message.
\<close>

theorem broadcast_reaches_all:
  assumes "distinct (map fst (srv_connections s))"
    and "\<And>out bs. bufferevent_write out bs = Some (out @ bs)"
    and "\<forall>fd\<in>srv_fds s. \<exists>c. map_of (srv_connections s) fd = Some (Some c) \<and> conn_out c \<noteq> None"
  shows "\<exists>s'. TcpServer_Broadcast bufferevent_write (Some bs) s = (Inr (), s') \<and>
    map_of (srv_connections s') = (\<lambda>fd. map_option (map_option (\<lambda>c.
      c\<lparr> conn_out := map_option (\<lambda>out. out @ le_bytes 8 (length bs) @ bs) (conn_out c) \<rparr>)) (map_of (srv_connections s) fd))"
proof -
  define g where "g = (\<lambda>c :: tcp_connection. c\<lparr> conn_out := map_option (\<lambda>out. out @ le_bytes 8 (length bs) @ bs) (conn_out c) \<rparr>)"
  define send where "send = (\<lambda>conn. map_sum id snd (TcpServer_SendCommMessage bufferevent_write conn (Some bs)))"
  have send: "send (Some c) = Inr (g c)" if "conn_out c \<noteq> None" for c
    using that assms(2)
    by (auto simp: send_def g_def TcpServer_SendCommMessage_def conn_SendCommMessage_def write_part_def)
  have keys: "set (connection_keys s) = srv_fds s" by (simp add: connection_keys_def srv_fds_def)
  have "\<exists>s'. send_each send (connection_keys s) s = (Inr (), s') \<and> (\<forall>k. map_of (srv_connections s') k =
    (if k \<in> set (connection_keys s) then map_option (map_option g) (map_of (srv_connections s) k)
     else map_of (srv_connections s) k))"
  proof (rule send_each_all)
    show "distinct (connection_keys s)" using assms(1) by (simp add: connection_keys_def)
    show "\<forall>k\<in>set (connection_keys s). \<exists>c. map_of (srv_connections s) k = Some (Some c) \<and> send (Some c) = Inr (g c)"
      unfolding keys using assms(3) send by fastforce
  qed
  moreover have "map_of (srv_connections s) k = None" if "k \<notin> srv_fds s" for k
    using that by (simp add: map_of_eq_None_iff srv_fds_def)
  ultimately show ?thesis
    unfolding TcpServer_Broadcast_def option.case send_def [symmetric] g_def [symmetric] keys
    by (metis option.map(1) ext)
qed

theorem broadcast_reaches_all_witness:
  "let s = (new_server ''127.0.0.1'' 0)\<lparr> srv_connections := [(5, Some (new_connection [] 5))] \<rparr>
   in \<exists>s'. TcpServer_Broadcast (\<lambda>out bs. Some (out @ bs)) (Some [9]) s = (Inr (), s') \<and>
        map_of (srv_connections s') 5 = Some (Some ((new_connection [] 5)\<lparr> conn_out := Some [1, 0, 0, 0, 0, 0, 0, 0, 9] \<rparr>))"
proof -
  define s where "s = (new_server ''127.0.0.1'' 0)\<lparr> srv_connections := [(5, Some (new_connection [] 5))] \<rparr>"
  obtain s' where "TcpServer_Broadcast (\<lambda>out bs. Some (out @ bs)) (Some [9]) s = (Inr (), s')"
    "map_of (srv_connections s') = (\<lambda>fd. map_option (map_option (\<lambda>c.
      c\<lparr> conn_out := map_option (\<lambda>out. out @ le_bytes 8 (length [9 :: byte]) @ [9]) (conn_out c) \<rparr>)) (map_of (srv_connections s) fd))"
    using broadcast_reaches_all [of s "\<lambda>out bs. Some (out @ bs)" "[9]"]
    by (auto simp: s_def srv_fds_def new_connection_def)
  then show ?thesis by (simp add: s_def new_connection_def codec_simps)
qed

text \<open>
  A lookup of an unknown socket spoils the table.  \<open>GetConnectionByFd\<close> answers null and leaves
  a null entry; a connection accepted later on that socket is not stored, and every broadcast
  then ends in an exception.
\<close>

theorem lookup_leaves_null_entry:
  assumes "fd \<notin> srv_fds s" "GetConnectionByFd fd s = (r, s1)"
  shows "r = None \<and> AddConnection fd (Some c) s1 = Inr s1 \<and>
    (\<exists>e. fst (TcpServer_Broadcast bufferevent_write (Some bs) s1) = Inl e)"
proof -
  have "map_of (srv_connections s) fd = None" using assms(1) by (simp add: map_of_eq_None_iff srv_fds_def)
  with assms(2) have s1: "r = None" "srv_connections s1 = srv_connections s @ [(fd, None)]"
    by (auto simp: GetConnectionByFd_def map_index_absent)
  with \<open>map_of (srv_connections s) fd = None\<close> have "map_of (srv_connections s1) fd = Some None"
    by (simp add: map_add_def)
  moreover have "fd \<in> set (connection_keys s1)" using s1 by (simp add: connection_keys_def)
  ultimately show ?thesis
    using s1 send_each_null [of fd "connection_keys s1" s1]
    by (simp add: AddConnection_def TcpServer_Broadcast_def TcpServer_SendCommMessage_def)
qed

theorem lookup_leaves_null_entry_witness:
  "let s1 = snd (GetConnectionByFd 5 (new_server ''127.0.0.1'' 0))
   in AddConnection 5 (Some (new_connection [] 5)) s1 = Inr s1 \<and>
      (\<exists>e. fst (TcpServer_Broadcast (\<lambda>out bs. Some (out @ bs)) (Some [9]) s1) = Inl e)"
  using lookup_leaves_null_entry [of 5 "new_server ''127.0.0.1'' 0" _ "snd (GetConnectionByFd 5 (new_server ''127.0.0.1'' 0))"
      "new_connection [] 5" "\<lambda>out bs. Some (out @ bs)" "[9]"]
  by (simp add: srv_fds_def new_server_def Let_def prod_eq_iff)

text \<open>
  \<open>Init\<close> succeeds exactly when the address is a legal one and every library call succeeds, and
  then the server runs with base, listener and signal event set and a known port: the configured
  one, or the one the system bound when the configured port is 0.
\<close>

theorem TcpServer_Init_success:
  "TcpServer_Init inet_addr a s = (Inr (), s') \<longleftrightarrow>
     ia_use_pthreads a = 0 \<and> ia_base_new a \<and> CheckIp inet_addr (srv_address s) \<and> ia_bind a \<and>
     (srv_port s = 0 \<longrightarrow> ia_getsockname a \<noteq> None) \<and> ia_evsignal a \<and> 0 \<le> ia_event_add a \<and>
     s' = s\<lparr> srv_is_stop := False, srv_base := True, srv_listener := True, srv_signal := True,
            srv_port := (if srv_port s = 0 then the (ia_getsockname a) else srv_port s) \<rparr>"
  by (auto simp: TcpServer_Init_def bound_port_def Let_def split: if_splits option.splits sum.splits)

theorem TcpServer_Init_success_witness:
  "let a = \<lparr> ia_use_pthreads = 0, ia_base_new = True, ia_bind = True, ia_getsockname = Some 4242,
         ia_evsignal = True, ia_event_add = 0 \<rparr>;
       s = new_server ''127.0.0.1'' 0
   in TcpServer_Init (\<lambda>_. 16777343) a s = (Inr (), s\<lparr> srv_is_stop := False, srv_base := True, srv_listener := True,
        srv_signal := True, srv_port := 4242 \<rparr>)"
proof -
  have "CheckIp (\<lambda>_. 16777343) ''127.0.0.1''" by code_simp
  then show ?thesis unfolding Let_def TcpServer_Init_success by (simp add: new_server_def)
qed

end
