(* ===== verification/Tcp_Client.thy ===== *)
theory Tcp_Client
  imports Tcp_Server
begin

text \<open>
  \<open>TcpClient\<close> of \<open>src/even-http/ps/core\<close>: connecting, the callbacks of the event loop, and sending.
  All clients of a process share one event base; it and the flag that the loop was started are the
  state \<open>client_statics\<close>.  The answers of libevent and of the socket calls are parameters.  The
  callback for raw reads is left out: nothing sets it.
\<close>

section \<open>State\<close>

text \<open>\<open>cli_out\<close> is the output buffer of \<open>buffer_event_\<close>; \<open>None\<close> is a null pointer.\<close>

record client_statics =
  event_base :: bool
  is_started :: bool

record tcp_client =
  cli_handler :: tcp_message_handler
  cli_message_callback :: bool
  cli_connected_callback :: bool
  cli_disconnected_callback :: bool
  cli_timer_callback :: bool
  cli_timeout :: bool
  cli_out :: "byte list option"
  cli_address :: string
  cli_port :: u16
  cli_is_stop :: bool
  cli_is_connected :: bool

definition initial_statics :: client_statics where
  "initial_statics = \<lparr> event_base = False, is_started = False \<rparr>"

definition new_client :: "byte list \<Rightarrow> string \<Rightarrow> u16 \<Rightarrow> tcp_client" where
  "new_client uninit address p = \<lparr> cli_handler = SetCallback (new_handler uninit) True,
     cli_message_callback = False, cli_connected_callback = False, cli_disconnected_callback = False,
     cli_timer_callback = False, cli_timeout = False, cli_out = None, cli_address = address,
     cli_port = p, cli_is_stop = True, cli_is_connected = False \<rparr>"

definition free_client :: "tcp_client \<Rightarrow> tcp_client" where
  "free_client c = c\<lparr> cli_out := None, cli_timeout := False \<rparr>"

definition set_disconnected_callback :: "bool \<Rightarrow> tcp_client \<Rightarrow> tcp_client" where
  "set_disconnected_callback cb c = c\<lparr> cli_disconnected_callback := cb \<rparr>"

definition set_connected_callback :: "bool \<Rightarrow> tcp_client \<Rightarrow> tcp_client" where
  "set_connected_callback cb c = c\<lparr> cli_connected_callback := cb \<rparr>"

definition TcpClient_SetMessageCallback :: "bool \<Rightarrow> tcp_client \<Rightarrow> tcp_client" where
  "TcpClient_SetMessageCallback cb c = c\<lparr> cli_message_callback := cb \<rparr>"

definition TcpClient_set_timer_callback :: "bool \<Rightarrow> tcp_client \<Rightarrow> tcp_client" where
  "TcpClient_set_timer_callback cb c = c\<lparr> cli_timer_callback := cb \<rparr>"

section \<open>Connecting\<close>

text \<open>
  \<open>WaitConnected\<close> looks at the flag first; otherwise \<open>others\<close> is what the event thread does to the
  client until it is notified or the time is over.
\<close>

definition WaitConnected :: "(tcp_client \<Rightarrow> tcp_client) \<Rightarrow> tcp_client \<Rightarrow> bool \<times> tcp_client" where
  "WaitConnected others c =
     (if cli_is_connected c then (True, c) else let c' = others c in (cli_is_connected c', c'))"

record connect_answers =
  ca_use_pthreads :: int
  ca_base_new :: bool
  ca_bev :: bool
  ca_enable :: int
  ca_connect :: int

definition TcpClient_Init :: "(string \<Rightarrow> u32) \<Rightarrow> connect_answers \<Rightarrow> client_statics \<Rightarrow> tcp_client
    \<Rightarrow> (exn + unit) \<times> client_statics \<times> tcp_client" where
  "TcpClient_Init inet_addr a st c =
     (let c1 = c\<lparr> cli_out := None \<rparr> in
      if \<not> CheckIp inet_addr (cli_address c1) then (Inl (MsException ''The tcp client ip is illegal!''), st, c1)
      else if ca_use_pthreads a \<noteq> 0 then (Inl (MsException ''Use event pthread failed!''), st, c1)
      else if \<not> event_base st \<and> \<not> ca_base_new a then (Inl (MsException ''event_base_ is null''), st, c1)
      else let (st1, c2) = (if \<not> event_base st then (st\<lparr> event_base := True \<rparr>, c1\<lparr> cli_is_stop := False \<rparr>) else (st, c1)) in
      if clear_sockaddr \<noteq> EOK then (Inl (MsException ''Initialize sockaddr_in failed!''), st1, c2)
      else if \<not> ca_bev a then (Inl (MsException ''buffer_event_ is null''), st1, c2)
      else let c3 = c2\<lparr> cli_out := Some [] \<rparr> in
      if ca_enable a = -1 then (Inl (MsException ''Buffer event enable read and write failed!''), st1, c3)
      else if ca_connect a < 0 then (Inl (MsException ''Connect server is failed!''), st1, c3)
      else (Inr (), st1, c3))"

text \<open>
  \<open>StartWithDelay\<close>: \<open>base_new\<close> and \<open>evtimer_new\<close> tell whether the objects could be made; a null timer
  is handed on to \<open>evtimer_add\<close>, whose answer is \<open>timer_add\<close>.
\<close>

definition StartWithDelay ::
  "bool \<Rightarrow> bool \<Rightarrow> int \<Rightarrow> client_statics \<Rightarrow> tcp_client \<Rightarrow> (exn + unit) \<times> client_statics \<times> tcp_client" where
  "StartWithDelay base_new evtimer_new timer_add st c =
     (if cli_out c \<noteq> None then (Inr (), st, c)
      else let st1 = st\<lparr> event_base := base_new \<rparr>; c1 = c\<lparr> cli_timeout := evtimer_new \<rparr> in
      if timer_add = -1 then (Inl (MsException ''Event timeout failed!''), st1, c1) else (Inr (), st1, c1))"

definition TimeoutCallback :: "(string \<Rightarrow> u32) \<Rightarrow> connect_answers \<Rightarrow> client_statics \<Rightarrow> tcp_client option
    \<Rightarrow> (exn + unit) \<times> client_statics \<times> tcp_client option" where
  "TimeoutCallback inet_addr a st arg =
     (case arg of None \<Rightarrow> (Inl (MsException ''arg is null''), st, None)
      | Some c \<Rightarrow> (case TcpClient_Init inet_addr a st c of (r, st', c') \<Rightarrow> (r, st', Some c')))"

text \<open>\<open>Stop\<close>, as for the server, on the shared base.\<close>

definition TcpClient_Stop :: "bool \<Rightarrow> client_statics \<Rightarrow> tcp_client \<Rightarrow> exn + bool \<times> tcp_client" where
  "TcpClient_Stop got_break st c =
     (if \<not> event_base st then Inl (Undefined ''event_base_ is null'')
      else if got_break then Inr (False, c\<lparr> cli_is_stop := True \<rparr>)
      else if \<not> cli_is_stop c then Inr (True, c\<lparr> cli_is_stop := True \<rparr>)
      else Inr (False, c))"

text \<open>\<open>Start\<close>: whether this call ran the loop, which the first caller does.\<close>

definition TcpClient_Start :: "int \<Rightarrow> client_statics \<Rightarrow> (exn + bool) \<times> client_statics" where
  "TcpClient_Start ret st =
     (if is_started st then (Inr False, st)
      else let st1 = st\<lparr> is_started := True \<rparr> in
      if \<not> event_base st1 then (Inl (MsException ''event_base_ is null''), st1)
      else if ret < -1 then (Inl (MsException ''Event base dispatch with unexpected error code!''), st1)
      else (Inr True, st1))"

definition TcpClient_StartWithNoBlock :: "int \<Rightarrow> client_statics \<Rightarrow> exn + unit" where
  "TcpClient_StartWithNoBlock ret st =
     (if \<not> event_base st then Inl (MsException ''event_base_ is null'')
      else if ret < -1 then Inl (MsException ''Event base loop with unexpected error code!'') else Inr ())"

definition TcpClient_StartTimer :: "bool \<Rightarrow> u32 \<Rightarrow> client_statics \<Rightarrow> exn + unit" where
  "TcpClient_StartTimer event_ok time st =
     (if \<not> event_base st then Inl (MsException ''event_base_ is null'')
      else if time = 0 then Inl (MsException ''The time should not be 0!'')
      else if \<not> event_ok then Inl (MsException ''ev is null'') else Inr ())"

definition TcpClient_TimerCallback :: "tcp_client option \<Rightarrow> exn + bool" where
  "TcpClient_TimerCallback arg =
     (case arg of None \<Rightarrow> Inl (MsException ''arg is null'') | Some c \<Rightarrow> Inr (cli_timer_callback c))"

section \<open>Events\<close>

datatype client_call = ConnectedCall | DisconnectedCall

definition NotifyConnected :: "tcp_client \<Rightarrow> tcp_client" where
  "NotifyConnected c = c\<lparr> cli_is_connected := True \<rparr>"

text \<open>The user callbacks that run, the result and the client; \<open>nodelay\<close> is the result of \<open>setsockopt\<close>.\<close>

definition TcpClient_EventCallback ::
  "int \<Rightarrow> bool \<Rightarrow> bool \<Rightarrow> bool \<Rightarrow> bool \<Rightarrow> tcp_client option \<Rightarrow> client_call list \<times> (exn + unit) \<times> tcp_client option" where
  "TcpClient_EventCallback nodelay bev ev_connected ev_error ev_eof ptr =
     (if \<not> bev then ([], Inl (MsException ''bev is null''), ptr) else
      case ptr of None \<Rightarrow> ([], Inl (MsException ''ptr is null''), ptr) | Some c \<Rightarrow>
      if ev_connected then
        (if cli_connected_callback c then [ConnectedCall] else [], SetTcpNoDelay nodelay, Some (NotifyConnected c))
      else if ev_error then
        (if cli_disconnected_callback c then [DisconnectedCall] else [], Inr (), Some c)
      else if ev_eof then ([], Inr (), Some c)
      else ([], Inr (), Some c))"

definition TcpClient_OnReadHandler ::
  "tcp_client \<Rightarrow> byte list option \<Rightarrow> (exn, tcp_client, frame) rx" where
  "TcpClient_OnReadHandler c buf =
     (case buf of None \<Rightarrow> ([], Inl (MsException ''buf is null''))
      | Some bs \<Rightarrow> rx_bind (ReceiveMessage (cli_handler c) (Some bs)) (\<lambda>h. ([], Inr (c\<lparr> cli_handler := h \<rparr>))))"

text \<open>The loop ends when \<open>evbuffer_remove\<close> returns 0 or, on a \<open>frozen\<close> buffer, -1.\<close>

function client_read_loop :: "bool \<Rightarrow> byte list \<Rightarrow> tcp_client \<Rightarrow> (exn, tcp_client, frame) rx" where
  "client_read_loop frozen input c =
     (if \<not> frozen \<and> length input > 0 then
        rx_bind (TcpClient_OnReadHandler c (Some (take kMessageChunkLength input)))
          (\<lambda>c'. client_read_loop frozen (drop kMessageChunkLength input) c')
      else ([], Inr c))"
  by pat_completeness auto
termination by (relation "measure (\<lambda>(f, input, c). length input)") (auto simp: kMessageChunkLength_def)

declare client_read_loop.simps [simp del]

text \<open>\<open>bev\<close> is the input of the buffer event, \<open>None\<close> for a null pointer.\<close>

definition TcpClient_ReadCallback ::
  "bool \<Rightarrow> byte list option \<Rightarrow> tcp_client option \<Rightarrow> (exn, tcp_client, frame) rx" where
  "TcpClient_ReadCallback frozen bev ctx =
     (case bev of None \<Rightarrow> ([], Inl (MsException ''bev is null'')) | Some input \<Rightarrow>
      case ctx of None \<Rightarrow> ([], Inl (MsException ''ctx is null'')) | Some c \<Rightarrow> client_read_loop frozen input c)"

text \<open>The closure of the constructor passes a message on when a message callback is set.\<close>

definition on_client_receive :: "tcp_client \<Rightarrow> frame list \<Rightarrow> frame list" where
  "on_client_receive c fs = (if cli_message_callback c then fs else [])"

section \<open>Sending\<close>

definition TcpClient_SendMessage ::
  "bev_write \<Rightarrow> tcp_client \<Rightarrow> byte list option \<Rightarrow> u32 \<Rightarrow> byte list option \<Rightarrow> exn + bool \<times> tcp_client" where
  "TcpClient_SendMessage bufferevent_write c meta protos data =
     map_sum id (\<lambda>(res, out). (res, c\<lparr> cli_out := Some out \<rparr>))
       (SendMessage bufferevent_write (cli_out c) meta protos data)"

text \<open>
  \<open>SendMessage\<close> of a \<open>CommMessage\<close> with the given serialised meta and data; \<open>byte_size\<close> is its
  \<open>ByteSizeLong\<close>, which protobuf computes.  The size passes through a 32-bit \<open>int\<close>.
\<close>

definition TcpClient_SendCommMessage ::
  "bev_write \<Rightarrow> (byte list \<Rightarrow> byte list \<Rightarrow> nat) \<Rightarrow> tcp_client \<Rightarrow> byte list \<Rightarrow> byte list \<Rightarrow> exn + bool \<times> tcp_client" where
  "TcpClient_SendCommMessage bufferevent_write byte_size c meta data =
     (case cli_out c of None \<Rightarrow> Inl (MsException ''buffer_event_ is null'') | Some out \<Rightarrow>
      case IntToUint (word_of_nat (byte_size meta data)) of Inl e \<Rightarrow> Inl e | Inr buf_size \<Rightarrow>
      case SizeToUint (word_of_nat (length meta)) of Inl e \<Rightarrow> Inl e | Inr meta_size \<Rightarrow>
        let mh = \<lparr> message_proto = protos_code PROTOBUF, message_meta_length = meta_size, message_length = ucast buf_size \<rparr> in
        (case write_part bufferevent_write data (write_part bufferevent_write meta
                (write_part bufferevent_write (header_bytes mh) (True, out))) of
           (res, out') \<Rightarrow> Inr (res, c\<lparr> cli_out := Some out' \<rparr>)))"

section \<open>Reading\<close>

abbreviation put_cli_handler :: "tcp_message_handler \<Rightarrow> tcp_client \<Rightarrow> tcp_client" where
  "put_cli_handler h c \<equiv> c\<lparr> cli_handler := h \<rparr>"

abbreviation cli_byte :: "tcp_client \<Rightarrow> byte \<Rightarrow> (exn, tcp_client, frame) rx" where
  "cli_byte \<equiv> rx_embed cli_handler put_cli_handler rx_byte"

interpretation cli_member: embedded_parser "\<lambda>h xs. ReceiveMessage h (Some xs)" rx_byte
  "\<lambda>xs. length xs \<le> SECUREC_MEM_MAX_LEN" rx_inv encode_frame wf_frame rx_idle cli_handler put_cli_handler
  by unfold_locales simp_all

lemma client_OnReadHandler_bytes:
  assumes "rx_inv (cli_handler c)"
  shows "TcpClient_OnReadHandler c (Some (take kMessageChunkLength bs)) = rx_fold cli_byte c (take kMessageChunkLength bs)"
proof -
  have "TcpClient_OnReadHandler c (Some xs) =
      rx_embed cli_handler put_cli_handler (\<lambda>h xs. ReceiveMessage h (Some xs)) c xs" for xs
    by (simp add: TcpClient_OnReadHandler_def rx_embed_def)
  then show ?thesis
    using cli_member.embedded.feed_bytes [OF assms, of "take kMessageChunkLength bs"]
    by (simp add: kMessageChunkLength_def SECUREC_MEM_MAX_LEN_def)
qed

lemma client_read_loop_bytes:
  "rx_inv (cli_handler c) \<Longrightarrow> client_read_loop False input c = rx_fold cli_byte c input"
proof (induction "length input" arbitrary: input c rule: less_induct)
  case less
  let ?now = "take kMessageChunkLength input" and ?rest = "drop kMessageChunkLength input"
  show ?case
  proof (cases "input = []")
    case True
    then show ?thesis by (simp add: client_read_loop.simps)
  next
    case False
    then have short: "length ?rest < length input" by (simp add: kMessageChunkLength_def)
    have "client_read_loop False input c =
        rx_bind (rx_fold cli_byte c ?now) (\<lambda>c'. client_read_loop False ?rest c')"
      using False client_OnReadHandler_bytes [OF less.prems] by (subst client_read_loop.simps) simp
    also have "\<dots> = rx_bind (rx_fold cli_byte c ?now) (\<lambda>c'. rx_fold cli_byte c' ?rest)"
      by (rule rx_bind_cong_Inr) (rule less.hyps [OF short], rule cli_member.embedded.fold_inv [OF less.prems])
    also have "\<dots> = rx_fold cli_byte c (?now @ ?rest)" by (simp only: rx_fold_append)
    finally show ?thesis by simp
  qed
qed

interpretation cli_rx: framing "\<lambda>c buf. TcpClient_ReadCallback False (Some buf) (Some c)" cli_byte "\<lambda>_. True"
  "\<lambda>c. rx_inv (cli_handler c)" encode_frame wf_frame "\<lambda>c. rx_idle (cli_handler c)"
proof unfold_locales
  show "TcpClient_ReadCallback False (Some xs) (Some c) = rx_fold cli_byte c xs"
    if "rx_inv (cli_handler c)" for c xs
    using that by (simp add: TcpClient_ReadCallback_def client_read_loop_bytes)
qed (fact cli_member.embedded.step_inv cli_member.embedded.idle_inv cli_member.embedded.encode_step)+

text \<open>A handler inside a message takes the next bytes of the stream, whatever they are, as its end.\<close>

lemma rx_bytes_partial:
  assumes "message_callback h" "0 < remaining_length h" "remaining_length h \<le> length bs"
    and "message_buffer h = Some (cap, buf)" "length buf + remaining_length h = unat (message_length (msg_header h))"
    and "unat (message_meta_length (msg_header h)) \<le> unat (message_length (msg_header h))"
  shows "\<exists>fs. fst (rx_fold rx_byte h bs) = \<lparr> frame_proto = message_proto (msg_header h),
      frame_meta = take (unat (message_meta_length (msg_header h))) (buf @ take (remaining_length h) bs),
      frame_data = drop (unat (message_meta_length (msg_header h))) (buf @ take (remaining_length h) bs) \<rparr> # fs"
proof -
  let ?now = "take (remaining_length h) bs" and ?rest = "drop (remaining_length h) bs"
  have now: "length ?now = remaining_length h" "?now \<noteq> []" using assms(2,3) by auto
  have "rx_fold rx_byte h bs = rx_bind (rx_fold rx_byte h ?now) (\<lambda>h'. rx_fold rx_byte h' ?rest)"
    by (simp flip: rx_fold_append)
  also have "rx_fold rx_byte h ?now = finish (absorb h ?now)"
    using now by (intro rx_bytes_payload) simp_all
  finally have "rx_fold rx_byte h bs = rx_bind (finish (absorb h ?now)) (\<lambda>h'. rx_fold rx_byte h' ?rest)" .
  then show ?thesis
    using assms now by (simp add: finish_def absorb_def deliver_def Let_def rx_simps)
qed

lemma fst_rx_embed_fold:
  "fst (rx_bind r (\<lambda>s. ([], Inr (f s)))) = fst r"
  by (cases r; cases "snd r") (auto simp: rx_bind_def)

text \<open>A message shorter than its header says leaves the handler waiting.\<close>

lemma rx_bytes_short:
  assumes "rx_idle h" "length payload < unat (message_length mh)"
  shows "\<exists>h'. rx_fold rx_byte h (header_bytes mh @ payload) = ([], Inr h') \<and>
    remaining_length h' = unat (message_length mh) - length payload"
proof -
  define h1 where "h1 = h\<lparr> header_index := 15, header := header_bytes mh, msg_header := mh,
     remaining_length := unat (message_length mh), message_buffer := Some (unat (message_length mh), []) \<rparr>"
  have head: "rx_fold rx_byte h (header_bytes mh) = ([], Inr h1)"
    using assms(1) rx_bytes_header_complete by (simp add: rx_idle_def rx_inv_def h1_def)
  show ?thesis
  proof (cases "payload = []")
    case True
    with head show ?thesis by (simp add: h1_def)
  next
    case False
    with assms(2) have "rx_fold rx_byte h1 payload = finish (absorb h1 payload)"
      by (intro rx_bytes_payload) (simp_all add: h1_def)
    also have "\<dots> = ([], Inr (absorb h1 payload))"
      using assms(2) by (simp add: finish_def absorb_def h1_def)
    finally have tail: "rx_fold rx_byte h1 payload = ([], Inr (absorb h1 payload))" .
    have "remaining_length (absorb h1 payload) = unat (message_length mh) - length payload"
      by (simp add: absorb_def h1_def)
    with head tail show ?thesis by (simp add: rx_fold_append)
  qed
qed

lemma TcpClient_Init_Inr:
  assumes "TcpClient_Init inet_addr a st c = (Inr (), st', c')"
  shows "st' = st\<lparr> event_base := True \<rparr>"
    and "c' = c\<lparr> cli_out := Some [], cli_is_stop := (event_base st \<and> cli_is_stop c) \<rparr>"
  using assms by (auto simp: TcpClient_Init_def Let_def split: if_splits)

section \<open>Properties\<close>

text \<open>
  A reconnect keeps the rest of a broken message.  \<open>Init\<close> does not touch the message handler;
  when the old connection broke inside a message, the first bytes of the new connection complete
  that message and are delivered as its end.
\<close>

theorem reconnect_keeps_partial_frame:
  assumes "TcpClient_Init inet_addr a st c = (Inr (), st', c')"
    and "rx_inv (cli_handler c)" "message_callback (cli_handler c)"
    and "0 < remaining_length (cli_handler c)" "remaining_length (cli_handler c) \<le> length bs"
    and "message_buffer (cli_handler c) = Some (cap, buf)"
    and "unat (message_meta_length (msg_header (cli_handler c))) \<le> unat (message_length (msg_header (cli_handler c)))"
  shows "\<exists>fs. fst (TcpClient_ReadCallback False (Some bs) (Some c')) =
    \<lparr> frame_proto = message_proto (msg_header (cli_handler c)),
      frame_meta = take (unat (message_meta_length (msg_header (cli_handler c)))) (buf @ take (remaining_length (cli_handler c)) bs),
      frame_data = drop (unat (message_meta_length (msg_header (cli_handler c)))) (buf @ take (remaining_length (cli_handler c)) bs) \<rparr> # fs"
proof -
  have h: "cli_handler c' = cli_handler c" using TcpClient_Init_Inr(2) [OF assms(1)] by simp
  have "fst (TcpClient_ReadCallback False (Some bs) (Some c')) = fst (rx_fold rx_byte (cli_handler c) bs)"
    using assms(2) h
    by (simp add: cli_rx.feed_bytes cli_member.embed_fold fst_rx_embed_fold)
  moreover have "length buf + remaining_length (cli_handler c) = unat (message_length (msg_header (cli_handler c)))"
    using assms(2,4,6) by (simp add: rx_inv_def)
  ultimately show ?thesis using rx_bytes_partial [OF assms(3-6) _ assms(7)] by simp
qed

theorem reconnect_keeps_partial_frame_witness:
  "let h = (SetCallback (new_handler (replicate 16 0)) True)\<lparr> header_index := 15, remaining_length := 2,
         message_buffer := Some (2, []), msg_header := \<lparr> message_proto = 0, message_meta_length = 1, message_length = 2 \<rparr> \<rparr>;
       c = (new_client (replicate 16 0) ''127.0.0.1'' 80)\<lparr> cli_handler := h \<rparr>;
       a = \<lparr> ca_use_pthreads = 0, ca_base_new = True, ca_bev = True, ca_enable = 0, ca_connect = 0 \<rparr>
   in \<exists>st' c' fs. TcpClient_Init (\<lambda>_. 16777343) a initial_statics c = (Inr (), st', c') \<and>
        fst (TcpClient_ReadCallback False (Some [1, 0, 0]) (Some c')) =
          \<lparr> frame_proto = 0, frame_meta = [1], frame_data = [0] \<rparr> # fs"
proof -
  define h where "h = (SetCallback (new_handler (replicate 16 0)) True)\<lparr> header_index := 15, remaining_length := 2,
    message_buffer := Some (2, []), msg_header := \<lparr> message_proto = 0, message_meta_length = 1, message_length = 2 \<rparr> \<rparr>"
  define c where "c = (new_client (replicate 16 0) ''127.0.0.1'' 80)\<lparr> cli_handler := h \<rparr>"
  define a where "a = \<lparr> ca_use_pthreads = 0, ca_base_new = True, ca_bev = True, ca_enable = 0, ca_connect = 0 \<rparr>"
  have ip: "CheckIp (\<lambda>_. 16777343) ''127.0.0.1''" by code_simp
  then obtain st' c' where init: "TcpClient_Init (\<lambda>_. 16777343) a initial_statics c = (Inr (), st', c')"
    by (simp add: TcpClient_Init_def a_def c_def new_client_def initial_statics_def Let_def)
  have "\<exists>fs. fst (TcpClient_ReadCallback False (Some [1, 0, 0]) (Some c')) =
      \<lparr> frame_proto = 0, frame_meta = [1], frame_data = [0] \<rparr> # fs"
    using reconnect_keeps_partial_frame [OF init, of "[1, 0, 0]" 2 "[]"]
    by (simp add: c_def h_def rx_inv_def new_handler_def SetCallback_def)
  with init show ?thesis by (auto simp: Let_def c_def h_def a_def)
qed

text \<open>
  A \<open>CommMessage\<close> sent by the client is not delivered.  Its header announces the size of the
  whole serialised message, but only the meta part and the data are written.  Where the
  serialisation is larger than these two, as it is with the tags and lengths of its fields, the
  server's connection delivers nothing and keeps waiting for the difference.
\<close>

theorem comm_message_misframed:
  assumes "\<And>out bs. bufferevent_write out bs = Some (out @ bs)" "cli_out c = Some out"
    and "length meta + length data < byte_size meta data" "byte_size meta data < 2 ^ 31"
    and "rx_idle (conn_handler conn)"
  shows "\<exists>c' stream conn'. TcpClient_SendCommMessage bufferevent_write byte_size c meta data = Inr (True, c') \<and>
    cli_out c' = Some (out @ stream) \<and>
    TcpServer_ReadCallback False (Some stream) (Some conn) = ([], Inr conn') \<and>
    remaining_length (conn_handler conn') = byte_size meta data - (length meta + length data)"
proof -
  define n where "n = byte_size meta data"
  define mh where "mh = \<lparr> message_proto = protos_code PROTOBUF, message_meta_length = word_of_nat (length meta),
    message_length = ucast (word_of_nat n :: u32) \<rparr>"
  have small: "length meta < 2 ^ 32" "n < 2 ^ 31" "length (meta @ data) < n" using assms(3,4) by (simp_all add: n_def)
  have len: "unat (message_length mh) = n"
    using small(2) by (simp add: mh_def unsigned_ucast_eq unat_of_nat unsigned_of_nat take_bit_nat_eq_self)
  have "sint (word_of_nat n :: u32) = int n"
    using small(2) by (simp add: signed_of_nat signed_take_bit_int_eq_self)
  then have "IntToUint (word_of_nat n) = Inr (word_of_nat n)" by (simp add: IntToUint_def)
  moreover have "SizeToUint (word_of_nat (length meta)) = Inr (word_of_nat (length meta))"
    using small(1) by (simp add: SizeToUint_Inr unat_of_nat unsigned_of_nat take_bit_nat_eq_self)
  ultimately have send: "TcpClient_SendCommMessage bufferevent_write byte_size c meta data =
      Inr (True, c\<lparr> cli_out := Some (out @ header_bytes mh @ meta @ data) \<rparr>)"
    using assms(1,2) by (simp add: TcpClient_SendCommMessage_def write_part_def mh_def n_def Let_def)
  obtain h where h: "rx_fold rx_byte (conn_handler conn) (header_bytes mh @ meta @ data) = ([], Inr h)"
    "remaining_length h = n - length (meta @ data)"
    using rx_bytes_short [OF assms(5), of "meta @ data" mh] small(3) len by auto
  have "TcpServer_ReadCallback False (Some (header_bytes mh @ meta @ data)) (Some conn) =
      ([], Inr (put_conn_handler h conn))"
    using srv_rx.feed_bytes [of conn] srv_rx.idle_inv [OF assms(5)] h(1) by (simp add: conn_rx.embed_fold)
  with send h(2) show ?thesis by (auto simp: n_def)
qed

theorem comm_message_misframed_witness:
  "\<exists>c' stream conn'. TcpClient_SendCommMessage (\<lambda>out bs. Some (out @ bs)) (\<lambda>m d. length m + length d + 4)
      ((new_client (replicate 16 0) ''127.0.0.1'' 80)\<lparr> cli_out := Some [] \<rparr>) [8, 1] [9] = Inr (True, c') \<and>
    cli_out c' = Some ([] @ stream) \<and>
    TcpServer_ReadCallback False (Some stream) (Some (InitConnection True (new_connection (replicate 16 0) 5))) = ([], Inr conn') \<and>
    remaining_length (conn_handler conn') = 4"
  using comm_message_misframed [of "\<lambda>out bs. Some (out @ bs)"
      "(new_client (replicate 16 0) ''127.0.0.1'' 80)\<lparr> cli_out := Some [] \<rparr>" "[]" "[8, 1]" "[9]"
      "\<lambda>m d. length m + length d + 4" "InitConnection True (new_connection (replicate 16 0) 5)"]
  by (simp add: rx_idle_def rx_inv_def new_handler_def SetCallback_def InitConnection_def new_connection_def)

text \<open>
  Only the client that created the shared event base can break the loop.  A client that was
  initialised while the base already existed keeps \<open>is_stop_\<close> true, so its \<open>Stop\<close> never asks the
  loop to break; the creator's does.
\<close>

theorem only_base_creator_breaks_loop:
  assumes "cli_is_stop c" "TcpClient_Init inet_addr a st c = (Inr (), st', c')"
  shows "TcpClient_Stop False st' c' = Inr (\<not> event_base st, c'\<lparr> cli_is_stop := True \<rparr>)"
  using assms(1) TcpClient_Init_Inr [OF assms(2)] by (auto simp: TcpClient_Stop_def)

theorem only_base_creator_breaks_loop_witness:
  "let c = new_client (replicate 16 0) ''127.0.0.1'' 80;
       a = \<lparr> ca_use_pthreads = 0, ca_base_new = True, ca_bev = True, ca_enable = 0, ca_connect = 0 \<rparr>;
       (r, st', c') = TcpClient_Init (\<lambda>_. 16777343) a initial_statics c
   in r = Inr () \<and> TcpClient_Stop False st' c' = Inr (True, c'\<lparr> cli_is_stop := True \<rparr>)"
proof -
  have ip: "CheckIp (\<lambda>_. 16777343) ''127.0.0.1''" by code_simp
  then obtain st' c' where init: "TcpClient_Init (\<lambda>_. 16777343)
      \<lparr> ca_use_pthreads = 0, ca_base_new = True, ca_bev = True, ca_enable = 0, ca_connect = 0 \<rparr>
      initial_statics (new_client (replicate 16 0) ''127.0.0.1'' 80) = (Inr (), st', c')"
    by (simp add: TcpClient_Init_def new_client_def initial_statics_def Let_def)
  with only_base_creator_breaks_loop [OF _ init] show ?thesis
    by (simp add: new_client_def initial_statics_def)
qed

end
