(* ===== verification/Node_Base.thy ===== *)
theory Node_Base
  imports Comm_Util
begin

text \<open>
  \<open>Node\<close> of \<open>src/even-http/ps/core\<close>: the state every node has.  The scheduler and the other nodes
  extend this record.  Waiting on a condition variable is looking at the condition, then letting
  the other threads run (the argument \<open>others\<close>), then looking again.
\<close>

record node_state =
  node_info :: NodeInfo
  is_ready :: bool
  is_finish :: bool
  is_timeout :: bool
  is_already_stopped :: bool
  is_already_finished :: bool
  next_request_id :: u64

definition new_node :: node_state where
  "new_node = \<lparr> node_info = default_NodeInfo, is_ready = False, is_finish = False, is_timeout = False,
     is_already_stopped = True, is_already_finished = False, next_request_id = 0 \<rparr>"

definition Node_rank_id :: "'a node_state_scheme \<Rightarrow> exn + u32" where
  "Node_rank_id n = (if \<not> is_ready n then Inl (MsException ''The cluster is not ready yet to get rank id!'')
     else Inr (node_rank_id (node_info n)))"

text \<open>\<open>wait_for\<close> with a predicate: the result is the predicate when the wait ends.\<close>

definition wait_for :: "('s \<Rightarrow> bool) \<Rightarrow> ('s \<Rightarrow> 's) \<Rightarrow> 's \<Rightarrow> bool \<times> 's" where
  "wait_for p others s = (if p s then (True, s) else let s' = others s in (p s', s'))"

definition WaitForStart ::
  "('a node_state_scheme \<Rightarrow> 'a node_state_scheme) \<Rightarrow> 'a node_state_scheme \<Rightarrow> bool \<times> 'a node_state_scheme" where
  "WaitForStart others n = wait_for is_ready others n"

text \<open>\<open>wait\<close> without a limit: \<open>None\<close> when the other threads never make the predicate true.\<close>

definition wait_until :: "('s \<Rightarrow> bool) \<Rightarrow> ('s \<Rightarrow> 's) \<Rightarrow> 's \<Rightarrow> 's option" where
  "wait_until p others s = (if p s then Some s else let s' = others s in if p s' then Some s' else None)"

lemma wait_for_result: "wait_for p others s = (b, s') \<Longrightarrow> b = p s'"
  by (auto simp: wait_for_def Let_def split: if_splits)

lemma wait_until_result: "wait_until p others s = Some s' \<Longrightarrow> p s'"
  by (auto simp: wait_until_def Let_def split: if_splits)

end
