(* ===== verification/Sample_Codecs.thy ===== *)
theory Sample_Codecs
  imports Comm_Messages
begin

text \<open>
  One concrete family of codecs for the messages, to show that the contract the nodes rely on can
  be met.  It is not the protobuf wire format: numbers are written in unary and lists with their
  length in front.
\<close>

type_synonym 'a pickler = "('a \<Rightarrow> byte list) \<times> (byte list \<Rightarrow> 'a \<times> byte list)"

definition pickler_ok :: "'a pickler \<Rightarrow> bool" where
  "pickler_ok p \<longleftrightarrow> (\<forall>x bs. snd p (fst p x @ bs) = (x, bs))"

definition p_nat :: "nat pickler" where
  "p_nat = (\<lambda>n. replicate n 1 @ [0],
     \<lambda>bs. (length (takeWhile ((=) 1) bs), drop (Suc (length (takeWhile ((=) 1) bs))) bs))"

definition p_map :: "('a \<Rightarrow> 'b) \<Rightarrow> ('b \<Rightarrow> 'a) \<Rightarrow> 'a pickler \<Rightarrow> 'b pickler" where
  "p_map f g p = (\<lambda>y. fst p (g y), \<lambda>bs. case snd p bs of (x, rest) \<Rightarrow> (f x, rest))"

definition p_pair :: "'a pickler \<Rightarrow> 'b pickler \<Rightarrow> ('a \<times> 'b) pickler" where
  "p_pair p q = (\<lambda>(x, y). fst p x @ fst q y,
     \<lambda>bs. case snd p bs of (x, rest) \<Rightarrow> case snd q rest of (y, rest') \<Rightarrow> ((x, y), rest'))"

primrec take_items :: "'a pickler \<Rightarrow> nat \<Rightarrow> byte list \<Rightarrow> 'a list \<times> byte list" where
  "take_items p 0 bs = ([], bs)"
| "take_items p (Suc n) bs =
     (case snd p bs of (x, rest) \<Rightarrow> case take_items p n rest of (xs, rest') \<Rightarrow> (x # xs, rest'))"

definition p_list :: "'a pickler \<Rightarrow> 'a list pickler" where
  "p_list p = (\<lambda>xs. fst p_nat (length xs) @ concat (map (fst p) xs),
     \<lambda>bs. case snd p_nat bs of (n, rest) \<Rightarrow> take_items p n rest)"

lemma takeWhile_ones: "takeWhile ((=) 1) (replicate n 1 @ 0 # bs) = replicate n (1 :: byte)"
  by (induction n) auto

lemma p_nat_ok: "pickler_ok p_nat"
  by (simp add: pickler_ok_def p_nat_def takeWhile_ones)

lemma p_map_ok: "pickler_ok p \<Longrightarrow> (\<And>y. f (g y) = y) \<Longrightarrow> pickler_ok (p_map f g p)"
  by (simp add: pickler_ok_def p_map_def)

lemma p_pair_ok: "pickler_ok p \<Longrightarrow> pickler_ok q \<Longrightarrow> pickler_ok (p_pair p q)"
  by (auto simp: pickler_ok_def p_pair_def)

lemma take_items_ok: "pickler_ok p \<Longrightarrow> take_items p (length xs) (concat (map (fst p) xs) @ bs) = (xs, bs)"
  by (induction xs) (auto simp: pickler_ok_def)

lemma p_list_ok: "pickler_ok p \<Longrightarrow> pickler_ok (p_list p)"
  using p_nat_ok take_items_ok [of p] by (auto simp: pickler_ok_def p_list_def)

section \<open>The message classes\<close>

definition p_int :: "int pickler" where
  "p_int = p_map (\<lambda>(neg, n). if neg = 0 then int n else - int n) (\<lambda>i. (if i < 0 then 1 else 0, nat \<bar>i\<bar>)) (p_pair p_nat p_nat)"

definition p_u64 :: "u64 pickler" where
  "p_u64 = p_map word_of_nat unat p_nat"

definition p_bool :: "bool pickler" where
  "p_bool = p_map (\<lambda>n. n = 1) (\<lambda>b. if b then 1 else 0) p_nat"

definition p_string :: "string pickler" where
  "p_string = p_list (p_map char_of of_char p_nat)"

definition nth_of :: "'a list \<Rightarrow> nat \<Rightarrow> 'a" where
  "nth_of xs n = (if n < length xs then xs ! n else hd xs)"

definition p_command :: "NodeCommand pickler" where
  "p_command = p_map (nth_of [TERMINATE, REGISTER, HEARTBEAT, SEND_DATA, FETCH_SERVER, FINISH, COLLECTIVE_SEND_DATA])
     (\<lambda>c. case c of TERMINATE \<Rightarrow> 0 | REGISTER \<Rightarrow> 1 | HEARTBEAT \<Rightarrow> 2 | SEND_DATA \<Rightarrow> 3 | FETCH_SERVER \<Rightarrow> 4 | FINISH \<Rightarrow> 5
        | COLLECTIVE_SEND_DATA \<Rightarrow> 6) p_nat"

definition p_role :: "NodeRole pickler" where
  "p_role = p_map (nth_of [SERVER, WORKER, SCHEDULER]) (\<lambda>r. case r of SERVER \<Rightarrow> 0 | WORKER \<Rightarrow> 1 | SCHEDULER \<Rightarrow> 2) p_nat"

definition p_attribute :: "NodeAttribute pickler" where
  "p_attribute = p_map (nth_of [IS_CLUSTER_READY, IS_CLUSTER_FINISH, IS_CLUSTER_TIMEOUT, IS_NODE_TIMEOUT])
     (\<lambda>a. case a of IS_CLUSTER_READY \<Rightarrow> 0 | IS_CLUSTER_FINISH \<Rightarrow> 1 | IS_CLUSTER_TIMEOUT \<Rightarrow> 2 | IS_NODE_TIMEOUT \<Rightarrow> 3) p_nat"

definition codec_of :: "'a pickler \<Rightarrow> 'a codec" where
  "codec_of p = \<lparr> serialize = fst p, parse = (\<lambda>bs. fst (snd p bs)) \<rparr>"

definition sample_codecs :: codecs where
  "sample_codecs = \<lparr>
     c_meta = codec_of (p_map (\<lambda>(c, i, r, k, u). \<lparr> cmd = c, request_id = i, role = r, rank_id = k, user_cmd = u \<rparr>)
       (\<lambda>m. (cmd m, request_id m, role m, rank_id m, user_cmd m))
       (p_pair p_command (p_pair p_u64 (p_pair p_role (p_pair p_int p_int))))),
     c_register = codec_of (p_map (\<lambda>(a, p, n, r). \<lparr> rm_ip = a, rm_port = p, rm_node_id = n, rm_role = r \<rparr>)
       (\<lambda>m. (rm_ip m, rm_port m, rm_node_id m, rm_role m)) (p_pair p_string (p_pair p_int (p_pair p_string p_role)))),
     c_register_resp = codec_of (p_map (\<lambda>(n, k). \<lparr> rr_node_id = n, rr_rank_id = k \<rparr>)
       (\<lambda>m. (rr_node_id m, rr_rank_id m)) (p_pair p_string p_int)),
     c_heartbeat = codec_of (p_map (\<lambda>(n, b). \<lparr> hb_node_id = n, hb_is_node_finish = b \<rparr>)
       (\<lambda>m. (hb_node_id m, hb_is_node_finish m)) (p_pair p_string p_bool)),
     c_heartbeat_resp = codec_of (p_map (\<lambda>l. \<lparr> node_attribute = l \<rparr>) node_attribute (p_list (p_pair p_attribute p_bool))),
     c_fetch_servers = codec_of (p_map (\<lambda>n. \<lparr> fs_node_id = n \<rparr>) fs_node_id p_string),
     c_fetch_servers_resp = codec_of (p_map (\<lambda>l. \<lparr> servers_meta = l \<rparr>) servers_meta
       (p_list (p_map (\<lambda>(k, a, p). \<lparr> sm_rank_id = k, sm_ip = a, sm_port = p \<rparr>) (\<lambda>m. (sm_rank_id m, sm_ip m, sm_port m))
          (p_pair p_int (p_pair p_string p_int))))),
     c_finish = codec_of (p_map (\<lambda>n. \<lparr> fm_node_id = n \<rparr>) fm_node_id p_string) \<rparr>"

lemma p_int_ok: "pickler_ok p_int"
  unfolding p_int_def by (intro p_map_ok p_pair_ok p_nat_ok) auto

lemma p_u64_ok: "pickler_ok p_u64"
  unfolding p_u64_def by (intro p_map_ok p_nat_ok) simp

lemma p_bool_ok: "pickler_ok p_bool"
  unfolding p_bool_def by (intro p_map_ok p_nat_ok) simp

lemma p_string_ok: "pickler_ok p_string"
  unfolding p_string_def by (intro p_list_ok p_map_ok p_nat_ok) simp

lemma p_command_ok: "pickler_ok p_command"
  unfolding p_command_def by (intro p_map_ok p_nat_ok) (simp add: nth_of_def split: NodeCommand.split)

lemma p_role_ok: "pickler_ok p_role"
  unfolding p_role_def by (intro p_map_ok p_nat_ok) (simp add: nth_of_def split: NodeRole.split)

lemma p_attribute_ok: "pickler_ok p_attribute"
  unfolding p_attribute_def by (intro p_map_ok p_nat_ok) (simp add: nth_of_def split: NodeAttribute.split)

lemma codec_of_ok: "pickler_ok p \<Longrightarrow> codec_ok (codec_of p)"
  unfolding pickler_ok_def codec_ok_def codec_of_def by (metis append_Nil2 codec.select_convs fst_conv)

lemma sample_codecs_ok: "codecs_ok sample_codecs"
  unfolding codecs_ok_def sample_codecs_def codecs.select_convs
  by (intro conjI codec_of_ok p_map_ok p_pair_ok p_list_ok p_int_ok p_u64_ok p_bool_ok p_string_ok
      p_command_ok p_role_ok p_attribute_ok) simp_all

end
