(* ===== verification/Scheduler_Node.thy ===== *)
theory Scheduler_Node
  imports Node_Base Node_Manager Tcp_Client Sample_Codecs
begin

text \<open>
  \<open>SchedulerNode\<close> of \<open>src/even-http/ps/core\<close>: the four message handlers, their dispatch, and the timer
  thread that updates the state of the cluster.  A handler gets the connection the message came
  from and answers by writing to it; the result is an exception or the connection after the
  answer, together with the scheduler, whose changes persist in both cases.  The protobuf codecs are
  a parameter, and so are the clock and what the other threads do while one sleeps or waits.
\<close>

section \<open>State\<close>

datatype sched_handler = HandleHeartbeat | HandleRegister | HandleFinish | HandleFetchServers

record scheduler_node = node_state +
  sch_server :: "tcp_server option"
  sch_server_thread :: bool
  sch_update_thread :: bool
  sch_handlers :: "(NodeCommand \<times> sched_handler) list"
  sch_nm :: node_manager

definition new_scheduler :: scheduler_node where
  "new_scheduler = node_state.extend new_node \<lparr> sch_server = None, sch_server_thread = False,
     sch_update_thread = False, sch_handlers = [], sch_nm = new_node_manager \<rparr>"

section \<open>Handlers\<close>

text \<open>The answer goes out with the meta of the request, so it has the request's id and command.\<close>

definition reply :: "bev_write \<Rightarrow> codecs \<Rightarrow> tcp_connection \<Rightarrow> MessageMeta \<Rightarrow> byte list \<Rightarrow> exn + tcp_connection" where
  "reply bufferevent_write cs conn meta data =
     map_sum id snd (TcpServer_SendMessage bufferevent_write (Some conn) (Some (serialize (c_meta cs) meta))
       (protos_code PROTOBUF) (Some data))"

text \<open>The null checks at the start of every handler.\<close>

definition with_args :: "bool \<Rightarrow> tcp_connection option \<Rightarrow> MessageMeta option \<Rightarrow> byte list option \<Rightarrow>
    (tcp_connection \<Rightarrow> MessageMeta \<Rightarrow> byte list \<Rightarrow> (exn + tcp_connection) \<times> scheduler_node) \<Rightarrow>
    scheduler_node \<Rightarrow> (exn + tcp_connection) \<times> scheduler_node" where
  "with_args server conn meta data body s =
     (if \<not> server then (Inl (MsException ''server is null''), s) else
      case conn of None \<Rightarrow> (Inl (MsException ''conn is null''), s) | Some c \<Rightarrow>
      case meta of None \<Rightarrow> (Inl (MsException ''meta is null''), s) | Some m \<Rightarrow>
      case data of None \<Rightarrow> (Inl (MsException ''data is null''), s) | Some bs \<Rightarrow> body c m bs)"

definition heartbeat_answer :: "node_manager \<Rightarrow> HeartbeatRespMessage" where
  "heartbeat_answer nm = \<lparr> node_attribute =
     map_set IS_NODE_TIMEOUT (nm_is_node_timeout nm)
       (map_set IS_CLUSTER_TIMEOUT (nm_is_cluster_timeout nm)
         (map_set IS_CLUSTER_FINISH (nm_is_cluster_finish nm)
           (map_set IS_CLUSTER_READY (nm_is_cluster_ready nm) []))) \<rparr>"

definition sched_ProcessHeartbeat ::
  "bev_write \<Rightarrow> codecs \<Rightarrow> int \<Rightarrow> bool \<Rightarrow> tcp_connection option \<Rightarrow> MessageMeta option \<Rightarrow> byte list option \<Rightarrow>
   scheduler_node \<Rightarrow> (exn + tcp_connection) \<times> scheduler_node" where
  "sched_ProcessHeartbeat bufferevent_write cs now server conn meta data s =
     with_args server conn meta data (\<lambda>c m bs.
       let hb = parse (c_heartbeat cs) bs;
           nm1 = UpdateHeartbeat now (hb_node_id hb) (sch_nm s);
           nm2 = (if hb_is_node_finish hb then UpdateNodeFinishState (hb_node_id hb) nm1 else nm1);
           s1 = s\<lparr> sch_nm := nm2 \<rparr>;
           s2 = (if hb_is_node_finish hb \<and> CheckNodesFinishState nm2 then s1\<lparr> is_finish := True \<rparr> else s1)
       in (reply bufferevent_write cs c m (serialize (c_heartbeat_resp cs) (heartbeat_answer nm2)), s2)) s"

definition sched_ProcessRegister ::
  "bev_write \<Rightarrow> codecs \<Rightarrow> int \<Rightarrow> bool \<Rightarrow> tcp_connection option \<Rightarrow> MessageMeta option \<Rightarrow> byte list option \<Rightarrow>
   scheduler_node \<Rightarrow> (exn + tcp_connection) \<times> scheduler_node" where
  "sched_ProcessRegister bufferevent_write cs now server conn meta data s =
     with_args server conn meta data (\<lambda>c m bs.
       let rm = parse (c_register cs) bs in
       case NextRankId rm (sch_nm s) of (r, nm1) \<Rightarrow>
         if r < 0 then (Inl (MsException ''The rank id is wrong!''), s\<lparr> sch_nm := nm1 \<rparr>)
         else (reply bufferevent_write cs c m
                 (serialize (c_register_resp cs) \<lparr> rr_node_id = rm_node_id rm, rr_rank_id = r \<rparr>),
               s\<lparr> sch_nm := UpdateHeartbeat now (rm_node_id rm) nm1 \<rparr>)) s"

definition sched_ProcessFinish ::
  "bev_write \<Rightarrow> codecs \<Rightarrow> bool \<Rightarrow> tcp_connection option \<Rightarrow> MessageMeta option \<Rightarrow> byte list option \<Rightarrow>
   scheduler_node \<Rightarrow> (exn + tcp_connection) \<times> scheduler_node" where
  "sched_ProcessFinish bufferevent_write cs server conn meta data s =
     with_args server conn meta data (\<lambda>c m bs.
       (reply bufferevent_write cs c m bs, s\<lparr> sch_nm := AddFinishNode (parse (c_finish cs) bs) (sch_nm s) \<rparr>)) s"

definition sched_ProcessFetchServers ::
  "bev_write \<Rightarrow> codecs \<Rightarrow> bool \<Rightarrow> tcp_connection option \<Rightarrow> MessageMeta option \<Rightarrow> byte list option \<Rightarrow>
   scheduler_node \<Rightarrow> (exn + tcp_connection) \<times> scheduler_node" where
  "sched_ProcessFetchServers bufferevent_write cs server conn meta data s =
     with_args server conn meta data (\<lambda>c m bs.
       (reply bufferevent_write cs c m
          (serialize (c_fetch_servers_resp cs) \<lparr> servers_meta = FetchServersMeta (sch_nm s) \<rparr>), s)) s"

definition sched_InitCommandHandler :: "scheduler_node \<Rightarrow> scheduler_node" where
  "sched_InitCommandHandler s = s\<lparr> sch_handlers :=
     map_set FETCH_SERVER HandleFetchServers (map_set FINISH HandleFinish
       (map_set REGISTER HandleRegister (map_set HEARTBEAT HandleHeartbeat (sch_handlers s)))) \<rparr>"

text \<open>The closure \<open>CreateTcpServer\<close> installs; it reads the command through \<open>meta\<close> before any check.\<close>

definition sched_on_message ::
  "bev_write \<Rightarrow> codecs \<Rightarrow> int \<Rightarrow> tcp_connection option \<Rightarrow> MessageMeta option \<Rightarrow> byte list option \<Rightarrow>
   scheduler_node \<Rightarrow> (exn + tcp_connection) \<times> scheduler_node" where
  "sched_on_message bufferevent_write cs now conn meta data s =
     (case meta of None \<Rightarrow> (Inl (Undefined ''meta is null''), s) | Some m \<Rightarrow>
      case map_of (sch_handlers s) (cmd m) of
        None \<Rightarrow> (Inl (MsException ''The cmd is not supported!''), s)
      | Some h \<Rightarrow>
          let server = (sch_server s \<noteq> None) in
          (case h of
             HandleHeartbeat \<Rightarrow> sched_ProcessHeartbeat bufferevent_write cs now server conn meta data s
           | HandleRegister \<Rightarrow> sched_ProcessRegister bufferevent_write cs now server conn meta data s
           | HandleFinish \<Rightarrow> sched_ProcessFinish bufferevent_write cs server conn meta data s
           | HandleFetchServers \<Rightarrow> sched_ProcessFetchServers bufferevent_write cs server conn meta data s))"

section \<open>Start and stop\<close>

text \<open>The port passes through a \<open>uint32_t\<close> and back to \<open>uint16_t\<close>, which keeps it.\<close>

definition sched_CreateTcpServer ::
  "(string \<Rightarrow> u32) \<Rightarrow> init_answers \<Rightarrow> cluster_config \<Rightarrow> scheduler_node \<Rightarrow> (exn + unit) \<times> scheduler_node" where
  "sched_CreateTcpServer inet_addr a cfg s =
     (let s1 = s\<lparr> sch_nm := InitNodeNum cfg (sch_nm s) \<rparr> in
      case get_scheduler_host cfg of Inl e \<Rightarrow> (Inl e, s1) | Inr host \<Rightarrow>
        (case TcpServer_Init inet_addr a
                (TcpServer_SetMessageCallback True (new_server host (scheduler_port cfg))) of
           (Inl e, srv) \<Rightarrow> (Inl e, s1\<lparr> sch_server := Some srv \<rparr>)
         | (Inr _, srv) \<Rightarrow> (Inr (), s1\<lparr> sch_server := Some srv, sch_server_thread := True \<rparr>)))"

definition sched_Initialize ::
  "(string \<Rightarrow> u32) \<Rightarrow> init_answers \<Rightarrow> string \<Rightarrow> cluster_config \<Rightarrow> scheduler_node \<Rightarrow> (exn + unit) \<times> scheduler_node" where
  "sched_Initialize inet_addr a uuid cfg s =
     (case sched_CreateTcpServer inet_addr a cfg (sched_InitCommandHandler s) of
        (Inl e, s1) \<Rightarrow> (Inl e, s1)
      | (Inr _, s1) \<Rightarrow> (Inr (), s1\<lparr> is_already_stopped := False,
          node_info := (node_info s1)\<lparr> node_id := uuid, node_role := SCHEDULER \<rparr> \<rparr>))"

text \<open>
  The three parts of an iteration of the timer thread, between which it sleeps; \<open>elapsed\<close> tells
  whether the time for the cluster to become available is over.
\<close>

definition timer_check_timeout :: "bool \<Rightarrow> scheduler_node \<Rightarrow> scheduler_node" where
  "timer_check_timeout elapsed s =
     (if \<not> nm_is_cluster_ready (sch_nm s) \<and> elapsed then s\<lparr> sch_nm := CheckClusterTimeout (sch_nm s) \<rparr> else s)"

definition timer_update :: "cluster_config \<Rightarrow> int \<Rightarrow> scheduler_node \<Rightarrow> exn + scheduler_node" where
  "timer_update cfg now s =
     (case UpdateClusterState cfg now (sch_nm s) of Inl e \<Rightarrow> Inl e | Inr nm \<Rightarrow>
        Inr (if nm_is_cluster_ready nm then s\<lparr> sch_nm := nm, is_ready := True \<rparr> else s\<lparr> sch_nm := nm \<rparr>))"

definition timer_set_finish :: "scheduler_node \<Rightarrow> scheduler_node" where
  "timer_set_finish s = s\<lparr> is_finish := True \<rparr>"

record tick =
  tick_elapsed :: bool
  tick_sleep :: "scheduler_node \<Rightarrow> scheduler_node"
  tick_now :: int
  tick_finish_sleep :: "scheduler_node \<Rightarrow> scheduler_node"

definition timer_iteration :: "cluster_config \<Rightarrow> tick \<Rightarrow> scheduler_node \<Rightarrow> exn + scheduler_node" where
  "timer_iteration cfg t s =
     (case timer_update cfg (tick_now t) (tick_sleep t (timer_check_timeout (tick_elapsed t) s)) of
        Inl e \<Rightarrow> Inl e
      | Inr s1 \<Rightarrow> Inr (if nm_is_cluster_finish (sch_nm s1) then timer_set_finish (tick_finish_sleep t s1) else s1))"

text \<open>The loop over the iterations the clock grants: whether it ended, and the scheduler.\<close>

fun update_state_loop :: "cluster_config \<Rightarrow> tick list \<Rightarrow> scheduler_node \<Rightarrow> exn + bool \<times> scheduler_node" where
  "update_state_loop cfg [] s = Inr (is_finish s, s)"
| "update_state_loop cfg (t # ts) s =
     (if is_finish s then Inr (True, s)
      else case timer_iteration cfg t s of Inl e \<Rightarrow> Inl e | Inr s1 \<Rightarrow> update_state_loop cfg ts s1)"

definition sched_Start ::
  "(string \<Rightarrow> u32) \<Rightarrow> init_answers \<Rightarrow> string \<Rightarrow> cluster_config \<Rightarrow> (scheduler_node \<Rightarrow> scheduler_node) \<Rightarrow>
   scheduler_node \<Rightarrow> (exn + bool) \<times> scheduler_node" where
  "sched_Start inet_addr a uuid cfg others s =
     (case sched_Initialize inet_addr a uuid cfg s of
        (Inl e, s1) \<Rightarrow> (Inl e, s1)
      | (Inr _, s1) \<Rightarrow> (case WaitForStart others (s1\<lparr> sch_update_thread := True \<rparr>) of (ok, s2) \<Rightarrow> (Inr ok, s2)))"

text \<open>
  \<open>Stop\<close> joins the timer thread, which ends when the node is finished; \<open>None\<close> when it never does.
\<close>

definition sched_Stop ::
  "(scheduler_node \<Rightarrow> scheduler_node) \<Rightarrow> bool \<Rightarrow> scheduler_node \<Rightarrow> ((exn + bool) \<times> scheduler_node) option" where
  "sched_Stop others got_break s =
     (if is_already_stopped s then Some (Inr True, s)
      else let s1 = s\<lparr> is_already_stopped := True \<rparr> in
      if \<not> sch_update_thread s1 then Some (Inl (Undefined ''update_state_thread_ is null''), s1)
      else case wait_until is_finish others s1 of None \<Rightarrow> None | Some s2 \<Rightarrow>
        (case sch_server s2 of None \<Rightarrow> Some (Inl (Undefined ''server_ is null''), s2) | Some srv \<Rightarrow>
         case TcpServer_Stop got_break srv of Inl e \<Rightarrow> Some (Inl e, s2) | Inr (_, srv') \<Rightarrow>
           if \<not> sch_server_thread s2 then Some (Inl (Undefined ''scheduler_thread_ is null''), s2\<lparr> sch_server := Some srv' \<rparr>)
           else Some (Inr True, s2\<lparr> sch_server := Some srv', is_ready := True \<rparr>)))"

definition sched_Finish :: "(scheduler_node \<Rightarrow> scheduler_node) \<Rightarrow> scheduler_node \<Rightarrow> (bool \<times> scheduler_node) option" where
  "sched_Finish others s = map_option (\<lambda>s'. (True, s')) (wait_until is_finish others s)"

section \<open>Runs of the scheduler\<close>

text \<open>
  The steps of its two threads, in any order: the TCP thread handles messages, the timer thread
  executes the parts of its loop.
\<close>

datatype sched_step =
    SchedMessage int "tcp_connection option" "MessageMeta option" "byte list option"
  | SchedCheckTimeout bool
  | SchedUpdate int
  | SchedSetFinish

fun sched_exec ::
  "bev_write \<Rightarrow> codecs \<Rightarrow> cluster_config \<Rightarrow> sched_step \<Rightarrow> scheduler_node \<Rightarrow> exn + scheduler_node" where
  "sched_exec bufferevent_write cs cfg (SchedMessage now conn meta data) s =
     (case sched_on_message bufferevent_write cs now conn meta data s of
        (Inl e, s') \<Rightarrow> Inl e | (Inr c, s') \<Rightarrow> Inr s')"
| "sched_exec bufferevent_write cs cfg (SchedCheckTimeout elapsed) s = Inr (timer_check_timeout elapsed s)"
| "sched_exec bufferevent_write cs cfg (SchedUpdate now) s = timer_update cfg now s"
| "sched_exec bufferevent_write cs cfg SchedSetFinish s =
     Inr (if nm_is_cluster_finish (sch_nm s) then timer_set_finish s else s)"

definition sched_inv :: "scheduler_node \<Rightarrow> bool" where
  "sched_inv s \<longleftrightarrow> nm_inv (sch_nm s) \<and> (is_ready s \<longrightarrow> nm_is_cluster_ready (sch_nm s))"

definition sched_mono :: "scheduler_node \<Rightarrow> scheduler_node \<Rightarrow> bool" where
  "sched_mono s s' \<longleftrightarrow> nm_mono (sch_nm s) (sch_nm s') \<and> (is_ready s \<longrightarrow> is_ready s') \<and> (is_finish s \<longrightarrow> is_finish s') \<and>
     sch_handlers s' = sch_handlers s \<and> sch_server s' = sch_server s"

text \<open>Every step acts on the node manager as some sequence of its calls.\<close>

definition nm_simulates :: "cluster_config \<Rightarrow> scheduler_node \<Rightarrow> scheduler_node \<Rightarrow> bool" where
  "nm_simulates cfg s s' \<longleftrightarrow> (\<exists>calls. run (nm_exec cfg) calls (sch_nm s) = Inr (sch_nm s')) \<and>
     is_ready s' = is_ready s \<and> (is_finish s \<longrightarrow> is_finish s') \<and>
     sch_handlers s' = sch_handlers s \<and> sch_server s' = sch_server s"

lemma nm_simulatesI:
  "run (nm_exec cfg) calls (sch_nm s) = Inr (sch_nm s') \<Longrightarrow> is_ready s' = is_ready s \<Longrightarrow>
   (is_finish s \<Longrightarrow> is_finish s') \<Longrightarrow> sch_handlers s' = sch_handlers s \<Longrightarrow> sch_server s' = sch_server s \<Longrightarrow>
   nm_simulates cfg s s'"
  by (auto simp: nm_simulates_def)

lemma nm_simulates_refl: "nm_simulates cfg s s"
  by (rule nm_simulatesI [where calls = "[]"]) simp_all

lemma with_args_state:
  "(\<And>c m bs. R s (snd (body c m bs))) \<Longrightarrow> R s s \<Longrightarrow> R s (snd (with_args server conn meta data body s))"
  by (simp add: with_args_def split: option.splits)

lemma ProcessHeartbeat_simulates:
  "nm_simulates cfg s (snd (sched_ProcessHeartbeat bufferevent_write cs now server conn meta data s))"
  unfolding sched_ProcessHeartbeat_def
proof (rule with_args_state [where R = "nm_simulates cfg"])
  fix c m bs
  let ?hb = "parse (c_heartbeat cs) bs"
  show "nm_simulates cfg s (snd (let hb = ?hb;
           nm1 = UpdateHeartbeat now (hb_node_id hb) (sch_nm s);
           nm2 = (if hb_is_node_finish hb then UpdateNodeFinishState (hb_node_id hb) nm1 else nm1);
           s1 = s\<lparr> sch_nm := nm2 \<rparr>;
           s2 = (if hb_is_node_finish hb \<and> CheckNodesFinishState nm2 then s1\<lparr> is_finish := True \<rparr> else s1)
       in (reply bufferevent_write cs c m (serialize (c_heartbeat_resp cs) (heartbeat_answer nm2)), s2)))"
    by (rule nm_simulatesI [where calls = "Heartbeat now (hb_node_id ?hb) #
          (if hb_is_node_finish ?hb then [NodeFinish (hb_node_id ?hb)] else [])"]) (simp_all add: Let_def)
qed (rule nm_simulates_refl)

lemma ProcessRegister_simulates:
  "nm_simulates cfg s (snd (sched_ProcessRegister bufferevent_write cs now server conn meta data s))"
  unfolding sched_ProcessRegister_def
proof (rule with_args_state [where R = "nm_simulates cfg"])
  fix c m bs
  let ?rm = "parse (c_register cs) bs"
  obtain r nm1 where r: "NextRankId ?rm (sch_nm s) = (r, nm1)" by (cases "NextRankId ?rm (sch_nm s)")
  show "nm_simulates cfg s (snd (let rm = ?rm in
       case NextRankId rm (sch_nm s) of (r, nm1) \<Rightarrow>
         if r < 0 then (Inl (MsException ''The rank id is wrong!''), s\<lparr> sch_nm := nm1 \<rparr>)
         else (reply bufferevent_write cs c m
                 (serialize (c_register_resp cs) \<lparr> rr_node_id = rm_node_id rm, rr_rank_id = r \<rparr>),
               s\<lparr> sch_nm := UpdateHeartbeat now (rm_node_id rm) nm1 \<rparr>)))"
    by (rule nm_simulatesI [where calls = "Register ?rm # (if r < 0 then [] else [Heartbeat now (rm_node_id ?rm)])"])
       (simp_all add: r Let_def)
qed (rule nm_simulates_refl)

lemma ProcessFinish_simulates:
  "nm_simulates cfg s (snd (sched_ProcessFinish bufferevent_write cs server conn meta data s))"
  unfolding sched_ProcessFinish_def
proof (rule with_args_state [where R = "nm_simulates cfg"])
  fix c m bs
  show "nm_simulates cfg s (snd (reply bufferevent_write cs c m bs,
      s\<lparr> sch_nm := AddFinishNode (parse (c_finish cs) bs) (sch_nm s) \<rparr>))"
    by (rule nm_simulatesI [where calls = "[AddFinish (parse (c_finish cs) bs)]"]) simp_all
qed (rule nm_simulates_refl)

lemma ProcessFetchServers_simulates:
  "nm_simulates cfg s (snd (sched_ProcessFetchServers bufferevent_write cs server conn meta data s))"
  unfolding sched_ProcessFetchServers_def
  by (rule with_args_state [where R = "nm_simulates cfg"]) (simp_all add: nm_simulates_refl)

lemma on_message_simulates:
  "nm_simulates cfg s (snd (sched_on_message bufferevent_write cs now conn meta data s))"
  by (simp add: sched_on_message_def Let_def nm_simulates_refl ProcessHeartbeat_simulates ProcessRegister_simulates
      ProcessFinish_simulates ProcessFetchServers_simulates split: option.split sched_handler.split)

lemma nm_simulates_keeps:
  assumes "nm_simulates cfg s s'" "sched_inv s"
  shows "sched_inv s' \<and> sched_mono s s'"
proof -
  obtain calls where calls: "run (nm_exec cfg) calls (sch_nm s) = Inr (sch_nm s')"
    using assms(1) by (auto simp: nm_simulates_def)
  have inv: "nm_inv (sch_nm s)" using assms(2) by (simp add: sched_inv_def)
  have mono: "nm_mono (sch_nm s) (sch_nm s')" by (rule nm.run_mono [OF inv calls])
  then have "nm_is_cluster_ready (sch_nm s) \<longrightarrow> nm_is_cluster_ready (sch_nm s')" by (simp add: nm_mono_def)
  with assms mono nm.run_inv [OF inv calls] show ?thesis
    by (auto simp: sched_inv_def sched_mono_def nm_simulates_def)
qed

lemma timer_update_keeps:
  assumes "timer_update cfg now s = Inr s'" "sched_inv s"
  shows "sched_inv s' \<and> sched_mono s s'"
proof -
  obtain nm' where nm': "UpdateClusterState cfg now (sch_nm s) = Inr nm'" "sch_nm s' = nm'"
    "is_ready s' = (is_ready s \<or> nm_is_cluster_ready nm')" "is_finish s' = is_finish s"
    "sch_handlers s' = sch_handlers s" "sch_server s' = sch_server s"
    using assms(1) by (auto simp: timer_update_def split: sum.splits if_splits)
  have "nm_inv nm' \<and> nm_mono (sch_nm s) nm'"
    using nm_inv_UpdateClusterState [OF _ nm'(1)] assms(2) by (simp add: sched_inv_def)
  moreover have "nm_is_cluster_ready (sch_nm s) \<longrightarrow> nm_is_cluster_ready nm'"
    using calculation by (simp add: nm_mono_def)
  ultimately show ?thesis using assms(2) nm' by (auto simp: sched_inv_def sched_mono_def)
qed

lemma sched_exec_keeps:
  assumes "sched_inv s" "sched_exec bufferevent_write cs cfg x s = Inr s'"
  shows "sched_inv s' \<and> sched_mono s s'"
proof (cases x)
  case (SchedMessage now conn meta data)
  with assms(2) have "s' = snd (sched_on_message bufferevent_write cs now conn meta data s)"
    by (auto split: prod.splits sum.splits)
  with nm_simulates_keeps [OF on_message_simulates assms(1)] show ?thesis by simp
next
  case (SchedCheckTimeout elapsed)
  have "nm_simulates cfg s (timer_check_timeout elapsed s)"
    by (cases "\<not> nm_is_cluster_ready (sch_nm s) \<and> elapsed")
       (auto simp: timer_check_timeout_def nm_simulates_refl intro: nm_simulatesI [where calls = "[ClusterTimeout]"])
  with nm_simulates_keeps [OF _ assms(1)] SchedCheckTimeout assms(2) show ?thesis by auto
next
  case (SchedUpdate now)
  with timer_update_keeps [OF _ assms(1)] assms(2) show ?thesis by simp
next
  case SchedSetFinish
  have "nm_simulates cfg s (if nm_is_cluster_finish (sch_nm s) then timer_set_finish s else s)"
    by (rule nm_simulatesI [where calls = "[]"]) (simp_all add: timer_set_finish_def)
  with nm_simulates_keeps [OF _ assms(1)] SchedSetFinish assms(2) show ?thesis by auto
qed

interpretation sched: component "sched_exec bufferevent_write cs cfg" sched_inv sched_mono
  for bufferevent_write cs cfg
proof unfold_locales
  show "sched_inv s'" if "sched_inv s" "sched_exec bufferevent_write cs cfg l s = Inr s'" for s l s'
    using sched_exec_keeps [OF that] by simp
  show "sched_mono s s'" if "sched_inv s" "sched_exec bufferevent_write cs cfg l s = Inr s'" for s l s'
    using sched_exec_keeps [OF that] by simp
  show "sched_mono s s" for s by (simp add: sched_mono_def nm.mono_refl)
  show "sched_mono s s''" if "sched_mono s s'" "sched_mono s' s''" for s s' s''
    using that nm.mono_trans by (auto simp: sched_mono_def)
qed

section \<open>Replies\<close>

lemma reply_frame:
  assumes "\<And>out bs. bufferevent_write out bs = Some (out @ bs)" "conn_out c = Some out"
    and "length (serialize (c_meta cs) meta) < 2 ^ 32"
  shows "reply bufferevent_write cs c meta data = Inr (c\<lparr> conn_out := Some (out @ encode_frame
    \<lparr> frame_proto = protos_code PROTOBUF, frame_meta = serialize (c_meta cs) meta, frame_data = data \<rparr>) \<rparr>)"
  using assms(2) SendMessage_frame [OF assms(3,1), of out]
  by (simp add: reply_def TcpServer_SendMessage_def conn_SendMessage_def)

definition sched_up :: "scheduler_node \<Rightarrow> bool" where
  "sched_up s \<longleftrightarrow> sch_server s \<noteq> None \<and> sch_handlers s = sch_handlers (sched_InitCommandHandler new_scheduler)"

lemma sched_up_handlers:
  "sched_up s \<Longrightarrow> map_of (sch_handlers s) REGISTER = Some HandleRegister \<and>
     map_of (sch_handlers s) HEARTBEAT = Some HandleHeartbeat \<and> map_of (sch_handlers s) FINISH = Some HandleFinish \<and>
     map_of (sch_handlers s) FETCH_SERVER = Some HandleFetchServers"
  by (simp add: sched_up_def sched_InitCommandHandler_def)

text \<open>A frame written to an idle client of the connection arrives there.\<close>

lemma client_reads_frame:
  assumes "rx_idle (cli_handler c)" "wf_frame f"
  shows "\<exists>c'. rx_idle (cli_handler c') \<and> TcpClient_ReadCallback False (Some (encode_frame f)) (Some c) = ([f], Inr c')"
  using cli_rx.frames_delivered [OF assms(1), of "[f]" "[encode_frame f]"] assms(2) by simp

lemma server_reads_frame:
  assumes "rx_idle (conn_handler c)" "wf_frame f"
  shows "\<exists>c'. rx_idle (conn_handler c') \<and> conn_out c' = conn_out c \<and>
    TcpServer_ReadCallback False (Some (encode_frame f)) (Some c) = ([f], Inr c')"
proof -
  obtain c' where c': "rx_idle (conn_handler c')" "TcpServer_ReadCallback False (Some (encode_frame f)) (Some c) = ([f], Inr c')"
    using srv_rx.frames_delivered [OF assms(1), of "[f]" "[encode_frame f]"] assms(2) by auto
  then have "rx_embed conn_handler put_conn_handler (rx_fold rx_byte) c (encode_frame f) = ([f], Inr c')"
    using srv_rx.feed_bytes [of c] srv_rx.idle_inv [OF assms(1)] by (simp add: conn_rx.embed_fold rx_embed_def)
  then have "conn_out c' = conn_out c" by (auto simp: conn_rx.embed_Inr)
  with c' show ?thesis by blast
qed

section \<open>Properties\<close>



text \<open>
  C4: the scheduler's state under any interleaving of messages and timer steps.  From a state that
  satisfies the invariant, every sequence of steps that raises no exception keeps it: the ranks of
  the node manager stay well-formed, and the scheduler is only ready when its node manager is.
  Known nodes keep their entries, and readiness, finish and timeout never go back.
\<close>

theorem scheduler_steps_safe:
  assumes "sched_inv s" "run (sched_exec bufferevent_write cs cfg) xs s = Inr s'"
  shows "sched_inv s' \<and> sched_mono s s'"
  using sched.run_inv [OF assms] sched.run_mono [OF assms] by simp

theorem scheduler_steps_safe_witness:
  "let s = (sched_InitCommandHandler new_scheduler)\<lparr> sch_server := Some (new_server ''127.0.0.1'' 80) \<rparr>;
       finish = SchedMessage 100 (Some (new_connection [] 5))
         (Some \<lparr> cmd = FINISH, request_id = 1, role = SERVER, rank_id = 0, user_cmd = 0 \<rparr>) (Some [0])
   in \<exists>s'. run (sched_exec (\<lambda>out bs. Some (out @ bs)) sample_codecs initial_config) [finish, SchedCheckTimeout True] s = Inr s' \<and>
        sched_inv s' \<and> sched_mono s s'"
proof -
  define meta where "meta = \<lparr> cmd = FINISH, request_id = 1, role = SERVER, rank_id = 0, user_cmd = 0 \<rparr>"
  define s where "s = (sched_InitCommandHandler new_scheduler)\<lparr> sch_server := Some (new_server ''127.0.0.1'' 80) \<rparr>"
  define xs where "xs = [SchedMessage 100 (Some (new_connection [] 5)) (Some meta) (Some [0]), SchedCheckTimeout True]"
  have len: "length (serialize (c_meta sample_codecs) meta) < 2 ^ 32"
  proof -
    have "length (serialize (c_meta sample_codecs) meta) = 13" unfolding meta_def by code_simp
    then show ?thesis by simp
  qed
  have inv: "sched_inv s"
    by (simp add: sched_inv_def s_def sched_InitCommandHandler_def new_scheduler_def node_state.defs new_node_def
        nm_inv_def new_node_manager_def ranks_ok_def ranks_def)
  have "map_of (sch_handlers s) FINISH = Some HandleFinish" "sch_server s \<noteq> None"
    by (simp_all add: s_def sched_InitCommandHandler_def)
  moreover have "cmd meta = FINISH" by (simp add: meta_def)
  ultimately obtain s' where s': "run (sched_exec (\<lambda>out bs. Some (out @ bs)) sample_codecs initial_config) xs s = Inr s'"
    using reply_frame [OF _ _ len, of "\<lambda>out bs. Some (out @ bs)" "new_connection [] 5" "[]"]
    by (simp add: xs_def sched_on_message_def sched_ProcessFinish_def with_args_def new_connection_def)
  with scheduler_steps_safe [OF inv s'] show ?thesis by (auto simp: Let_def xs_def meta_def s_def)
qed



text \<open>
  The answer to a heartbeat tells the state of the cluster.  It carries the request's meta and
  four attributes, which are the flags of the node manager after the heartbeat was recorded; and
  the scheduler finishes exactly when the sender reports its end and with it every known node has.
\<close>

theorem heartbeat_answer_reflects_state:
  assumes "codecs_ok cs" "\<And>out bs. bufferevent_write out bs = Some (out @ bs)" "conn_out conn = Some out"
    and "sched_up s" "cmd meta = HEARTBEAT" "length (serialize (c_meta cs) meta) < 2 ^ 32"
  shows "\<exists>conn' s' f. sched_on_message bufferevent_write cs now (Some conn) (Some meta)
      (Some (serialize (c_heartbeat cs) hb)) s = (Inr conn', s') \<and>
    conn_out conn' = Some (out @ encode_frame f) \<and> parse (c_meta cs) (frame_meta f) = meta \<and>
    map_of (node_attribute (parse (c_heartbeat_resp cs) (frame_data f))) =
      [IS_CLUSTER_READY \<mapsto> nm_is_cluster_ready (sch_nm s'), IS_CLUSTER_FINISH \<mapsto> nm_is_cluster_finish (sch_nm s'),
       IS_CLUSTER_TIMEOUT \<mapsto> nm_is_cluster_timeout (sch_nm s'), IS_NODE_TIMEOUT \<mapsto> nm_is_node_timeout (sch_nm s')] \<and>
    (is_finish s' \<longleftrightarrow> is_finish s \<or> hb_is_node_finish hb \<and> CheckNodesFinishState (sch_nm s'))"
proof -
  define nm2 where "nm2 = (let nm1 = UpdateHeartbeat now (hb_node_id hb) (sch_nm s) in
    if hb_is_node_finish hb then UpdateNodeFinishState (hb_node_id hb) nm1 else nm1)"
  define f where "f = \<lparr> frame_proto = protos_code PROTOBUF, frame_meta = serialize (c_meta cs) meta,
    frame_data = serialize (c_heartbeat_resp cs) (heartbeat_answer nm2) \<rparr>"
  define s' where "s' = (if hb_is_node_finish hb \<and> CheckNodesFinishState nm2
    then s\<lparr> sch_nm := nm2, is_finish := True \<rparr> else s\<lparr> sch_nm := nm2 \<rparr>)"
  have p: "parse (c_heartbeat cs) (serialize (c_heartbeat cs) hb) = hb" "parse (c_meta cs) (frame_meta f) = meta"
    "parse (c_heartbeat_resp cs) (frame_data f) = heartbeat_answer nm2"
    using assms(1) by (simp_all add: codecs_ok_def codec_roundtrip f_def)
  have "map_of (sch_handlers s) HEARTBEAT = Some HandleHeartbeat" "sch_server s \<noteq> None"
    using assms(4) sched_up_handlers [OF assms(4)] by (simp_all add: sched_up_def)
  then have "sched_on_message bufferevent_write cs now (Some conn) (Some meta) (Some (serialize (c_heartbeat cs) hb)) s =
      (Inr (conn\<lparr> conn_out := Some (out @ encode_frame f) \<rparr>), s')"
    using assms(5) p(1) reply_frame [OF assms(2,3,6)]
    by (simp add: sched_on_message_def sched_ProcessHeartbeat_def with_args_def Let_def f_def s'_def nm2_def)
  moreover have "sch_nm s' = nm2" "is_finish s' \<longleftrightarrow> is_finish s \<or> hb_is_node_finish hb \<and> CheckNodesFinishState nm2"
    by (auto simp: s'_def)
  moreover have "map_of (node_attribute (heartbeat_answer nm2)) =
      [IS_CLUSTER_READY \<mapsto> nm_is_cluster_ready nm2, IS_CLUSTER_FINISH \<mapsto> nm_is_cluster_finish nm2,
       IS_CLUSTER_TIMEOUT \<mapsto> nm_is_cluster_timeout nm2, IS_NODE_TIMEOUT \<mapsto> nm_is_node_timeout nm2]"
    by (rule ext) (simp add: heartbeat_answer_def)
  ultimately show ?thesis using p(2,3) by auto
qed

theorem heartbeat_answer_reflects_state_witness:
  "let meta = \<lparr> cmd = HEARTBEAT, request_id = 1, role = SERVER, rank_id = 0, user_cmd = 0 \<rparr>;
       s = (sched_InitCommandHandler new_scheduler)\<lparr> sch_server := Some (new_server ''127.0.0.1'' 80) \<rparr>
   in \<exists>conn' s'. sched_on_message (\<lambda>out bs. Some (out @ bs)) sample_codecs 100 (Some (new_connection [] 5)) (Some meta)
      (Some (serialize (c_heartbeat sample_codecs) \<lparr> hb_node_id = ''a'', hb_is_node_finish = True \<rparr>)) s = (Inr conn', s') \<and>
    (is_finish s' \<longleftrightarrow> CheckNodesFinishState (sch_nm s'))"
proof -
  define meta where "meta = \<lparr> cmd = HEARTBEAT, request_id = 1, role = SERVER, rank_id = 0, user_cmd = 0 \<rparr>"
  define s where "s = (sched_InitCommandHandler new_scheduler)\<lparr> sch_server := Some (new_server ''127.0.0.1'' 80) \<rparr>"
  have "length (serialize (c_meta sample_codecs) meta) = 10" unfolding meta_def by code_simp
  moreover have "sched_up s" "\<not> is_finish s"
    by (simp_all add: sched_up_def s_def sched_InitCommandHandler_def new_scheduler_def node_state.defs new_node_def)
  moreover have "conn_out (new_connection [] 5) = Some []" "cmd meta = HEARTBEAT" by (simp_all add: new_connection_def meta_def)
  ultimately show ?thesis
    using heartbeat_answer_reflects_state [OF sample_codecs_ok, of "\<lambda>out bs. Some (out @ bs)" "new_connection [] 5" "[]" s meta 100
        "\<lparr> hb_node_id = ''a'', hb_is_node_finish = True \<rparr>"]
    unfolding Let_def meta_def [symmetric] s_def [symmetric] by auto
qed

end
