(* ===== verification/Abstract_Node.thy ===== *)
theory Abstract_Node
  imports Node_Base Tcp_Client Sample_Codecs
begin

text \<open>
  \<open>AbstractNode\<close> of \<open>src/even-http/ps/core\<close>: the part worker and server nodes share.  It tracks
  requests and their responses, matches collective messages with receivers, and talks to the
  scheduler.  An operation maps the node to a result or an exception and the node after it; the
  mutexes make each access to the shared tables one step.  Pointers to output arguments are
  addresses in a store that is part of the node; \<open>None\<close> in it is a null \<open>shared_ptr\<close>.
\<close>

section \<open>State\<close>

text \<open>
  The closures of \<open>Send\<close>: store the response of one rank, or those of several ranks in order.
\<close>

datatype message_callback =
    CollectOne nat u32 u64
  | CollectMany nat "u32 list" u64

datatype resp_handler = RespHeartbeat | RespRegister | RespFetchServers

record abstract_node = node_state +
  client_to_scheduler :: "tcp_client option"
  client_to_scheduler_thread :: bool
  heart_beat_thread :: bool
  on_node_event_message :: bool
  node_events :: "NodeEvent list"
  nodes_address :: "((NodeRole \<times> u32) \<times> (string \<times> u16)) list"
  connected_nodes :: "(int \<times> tcp_client) list"
  message_tracker :: "(u64 \<times> (u32 \<times> u32)) list"
  receive_messages :: "(u64 \<times> (u32 \<times> byte list option) list) list"
  receive_messages_done :: "((u32 \<times> u64) \<times> bool) list"
  message_callbacks :: "(u64 \<times> message_callback) list"
  received_data :: "((u32 \<times> u64) \<times> byte list option) list"
  receive_callbacks :: "((u32 \<times> u64) \<times> nat) list"
  expected_rank_request_ids :: "(u32 \<times> u64) list"
  actual_rank_request_ids :: "(u32 \<times> u64) list"
  scheduler_time :: int
  resp_handlers :: "(NodeCommand \<times> resp_handler option) list"
  out_one :: "(nat \<times> byte list option) list"
  out_many :: "(nat \<times> byte list option list) list"
  node_statics :: client_statics

definition new_abstract_node :: abstract_node where
  "new_abstract_node = node_state.extend new_node \<lparr> client_to_scheduler = None, client_to_scheduler_thread = False,
     heart_beat_thread = False, on_node_event_message = False, node_events = [], nodes_address = [],
     connected_nodes = [], message_tracker = [], receive_messages = [], receive_messages_done = [],
     message_callbacks = [], received_data = [], receive_callbacks = [], expected_rank_request_ids = [],
     actual_rank_request_ids = [], scheduler_time = 0, resp_handlers = [], out_one = [], out_many = [],
     node_statics = initial_statics \<rparr>"

text \<open>
  What an operation gets from outside: libevent's write, the codecs, the configuration, the answers to
  connecting, the clock, and what the other threads do to the node while the operation waits.
\<close>

record node_env =
  e_write :: bev_write
  e_codecs :: codecs
  e_config :: cluster_config
  e_inet_addr :: "string \<Rightarrow> u32"
  e_connect :: connect_answers
  e_uninit :: "byte list"
  e_now :: int
  e_others :: "abstract_node \<Rightarrow> abstract_node"

type_synonym 'a act = "abstract_node \<Rightarrow> (exn + 'a) \<times> abstract_node"

definition act_return :: "'a \<Rightarrow> 'a act" where
  "act_return x n = (Inr x, n)"

definition act_throw :: "exn \<Rightarrow> 'a act" where
  "act_throw e n = (Inl e, n)"

definition act_bind :: "'a act \<Rightarrow> ('a \<Rightarrow> 'b act) \<Rightarrow> 'b act" where
  "act_bind m f n = (case m n of (Inl e, n') \<Rightarrow> (Inl e, n') | (Inr x, n') \<Rightarrow> f x n')"

definition act_require :: "bool \<Rightarrow> string \<Rightarrow> unit act" where
  "act_require b msg = (if b then act_return () else act_throw (MsException msg))"

section \<open>Tracking requests\<close>

definition AddMessageTrack :: "u32 \<Rightarrow> u64 act" where
  "AddMessageTrack expected_response n =
     (let rid = next_request_id n + 1 in
      (Inr rid, n\<lparr> next_request_id := rid, message_tracker := map_set rid (expected_response, 0) (message_tracker n) \<rparr>))"

text \<open>Every read of the tracker goes through \<open>operator[]\<close>.\<close>

definition CheckMessageTrack :: "u64 \<Rightarrow> abstract_node \<Rightarrow> bool \<times> abstract_node" where
  "CheckMessageTrack rid n =
     (case map_index (0, 0) rid (message_tracker n) of
        (p, tr) \<Rightarrow> (fst p = snd p + 1, n\<lparr> message_tracker := tr \<rparr>))"

definition NotifyMessageArrival :: "MessageMeta \<Rightarrow> abstract_node \<Rightarrow> abstract_node" where
  "NotifyMessageArrival meta n =
     (case map_index (0, 0) (request_id meta) (message_tracker n) of
        (p, tr) \<Rightarrow> n\<lparr> message_tracker := map_set (request_id meta) (fst p, snd p + 1) tr \<rparr>)"

definition all_arrived :: "u64 \<Rightarrow> abstract_node \<Rightarrow> bool \<times> abstract_node" where
  "all_arrived rid n =
     (case map_index (0, 0) rid (message_tracker n) of (p, tr) \<Rightarrow> (fst p = snd p, n\<lparr> message_tracker := tr \<rparr>))"

definition Wait :: "node_env \<Rightarrow> u64 \<Rightarrow> bool act" where
  "Wait env rid n =
     (case all_arrived rid n of (b1, n1) \<Rightarrow>
      case (if b1 then (True, n1) else all_arrived rid (e_others env n1)) of (b, n2) \<Rightarrow>
        (Inr b, n2\<lparr> message_tracker := map_erase rid (message_tracker n2) \<rparr>))"

section \<open>Clients\<close>

datatype client_ref = ToScheduler | ToRank int

text \<open>\<open>client->SendMessage\<close>; its boolean result is not looked at.\<close>

definition client_send :: "node_env \<Rightarrow> client_ref \<Rightarrow> MessageMeta \<Rightarrow> Protos \<Rightarrow> byte list option \<Rightarrow> unit act" where
  "client_send env cl meta protos data n =
     (let send = (\<lambda>c. TcpClient_SendMessage (e_write env) c (Some (serialize (c_meta (e_codecs env)) meta)) (protos_code protos) data)
      in case cl of
        ToScheduler \<Rightarrow>
          (case client_to_scheduler n of None \<Rightarrow> (Inl (Undefined ''client is null''), n) | Some c \<Rightarrow>
             (case send c of Inl e \<Rightarrow> (Inl e, n) | Inr (_, c') \<Rightarrow> (Inr (), n\<lparr> client_to_scheduler := Some c' \<rparr>)))
      | ToRank r \<Rightarrow>
          (case map_of (connected_nodes n) r of None \<Rightarrow> (Inl (Undefined ''client is null''), n) | Some c \<Rightarrow>
             (case send c of Inl e \<Rightarrow> (Inl e, n) | Inr (_, c') \<Rightarrow> (Inr (), n\<lparr> connected_nodes := map_set r c' (connected_nodes n) \<rparr>))))"

definition client_present :: "client_ref \<Rightarrow> abstract_node \<Rightarrow> bool" where
  "client_present cl n = (case cl of ToScheduler \<Rightarrow> client_to_scheduler n \<noteq> None | ToRank r \<Rightarrow> map_of (connected_nodes n) r \<noteq> None)"

definition GetOrCreateTcpClient :: "node_env \<Rightarrow> int \<Rightarrow> client_ref act" where
  "GetOrCreateTcpClient env r n =
     (case map_of (connected_nodes n) r of Some c \<Rightarrow> (Inr (ToRank r), n) | None \<Rightarrow>
      case map_of (nodes_address n) (SERVER, word_of_int r) of
        None \<Rightarrow> (Inl (MsException ''Worker node Fetch servers failed!''), n)
      | Some (address, p) \<Rightarrow>
          (case TcpClient_Init (e_inet_addr env) (e_connect env) (node_statics n)
                  (TcpClient_SetMessageCallback True (new_client (e_uninit env) address p)) of
             (Inl e, st, c) \<Rightarrow> (Inl e, n\<lparr> node_statics := st \<rparr>)
           | (Inr _, st, c) \<Rightarrow> (Inr (ToRank r), n\<lparr> node_statics := st, connected_nodes := map_set r c (connected_nodes n) \<rparr>)))"

section \<open>Sending\<close>

text \<open>A new \<open>MessageMeta\<close> with protobuf's default values.\<close>

definition default_meta :: "NodeCommand \<Rightarrow> MessageMeta" where
  "default_meta c = \<lparr> cmd = c, request_id = 0, role = SERVER, rank_id = 0, user_cmd = 0 \<rparr>"

definition own_meta :: "NodeCommand \<Rightarrow> abstract_node \<Rightarrow> MessageMeta" where
  "own_meta c n = (default_meta c)\<lparr> rank_id := sint (node_rank_id (node_info n)), role := node_role (node_info n) \<rparr>"

text \<open>The \<open>len\<close> bytes behind a data pointer.\<close>

definition data_bytes :: "byte list option \<Rightarrow> nat \<Rightarrow> byte list option act" where
  "data_bytes p len = (case p of None \<Rightarrow> act_return None
     | Some bs \<Rightarrow> if len \<le> length bs then act_return (Some (take len bs)) else act_throw (Undefined ''data out of bounds''))"

definition SendMessageSync :: "node_env \<Rightarrow> client_ref \<Rightarrow> MessageMeta \<Rightarrow> Protos \<Rightarrow> byte list option \<Rightarrow> bool act" where
  "SendMessageSync env cl meta protos data =
     act_bind (\<lambda>n. act_require (client_present cl n) ''client is null'' n) (\<lambda>_.
     act_bind (act_require (data \<noteq> None) ''data is null'') (\<lambda>_.
     act_bind (AddMessageTrack 1) (\<lambda>rid.
     act_bind (client_send env cl (meta\<lparr> request_id := rid \<rparr>) protos data) (\<lambda>_.
     Wait env rid))))"

definition SendMessageAsync :: "node_env \<Rightarrow> client_ref \<Rightarrow> MessageMeta \<Rightarrow> Protos \<Rightarrow> byte list option \<Rightarrow> u64 act" where
  "SendMessageAsync env cl meta protos data =
     act_bind (\<lambda>n. act_require (client_present cl n) ''client is null'' n) (\<lambda>_.
     act_bind (act_require (data \<noteq> None) ''data is null'') (\<lambda>_.
     act_bind (AddMessageTrack 1) (\<lambda>rid.
     act_bind (client_send env cl (meta\<lparr> request_id := rid \<rparr>) protos data) (\<lambda>_.
     act_return rid))))"

definition set_message_callback :: "u64 \<Rightarrow> message_callback option \<Rightarrow> unit act" where
  "set_message_callback rid callback n =
     (case callback of None \<Rightarrow> (Inr (), n)
      | Some cb \<Rightarrow> (Inr (), n\<lparr> message_callbacks := map_set rid cb (message_callbacks n) \<rparr>))"

text \<open>\<open>Broadcast\<close> sends to the servers in the order of their ranks, the order of the map.\<close>

fun broadcast_loop :: "node_env \<Rightarrow> u64 \<Rightarrow> byte list option \<Rightarrow> nat \<Rightarrow> int \<Rightarrow> u32 list \<Rightarrow> unit act" where
  "broadcast_loop env rid message len command [] = act_return ()"
| "broadcast_loop env rid message len command (r # rs) =
     act_bind (GetOrCreateTcpClient env (sint r)) (\<lambda>cl.
     act_bind (data_bytes message len) (\<lambda>bs.
     act_bind (\<lambda>n. client_send env cl ((own_meta SEND_DATA n)\<lparr> request_id := rid, user_cmd := command \<rparr>) RAW bs n) (\<lambda>_.
     broadcast_loop env rid message len command rs)))"

definition Broadcast :: "node_env \<Rightarrow> NodeRole \<Rightarrow> byte list option \<Rightarrow> nat \<Rightarrow> int \<Rightarrow> bool act" where
  "Broadcast env r message len command =
     act_bind (act_require (message \<noteq> None) ''message is null'') (\<lambda>_.
     act_bind (act_require (r = SERVER) ''Currently only supports broadcast to server nodes'') (\<lambda>_.
     act_bind (\<lambda>n. AddMessageTrack (word_of_nat (length (nodes_address n))) n) (\<lambda>rid.
     act_bind (\<lambda>n. broadcast_loop env rid message len command
                 (sort (map (snd \<circ> fst) (nodes_address n))) n) (\<lambda>_.
     Wait env rid))))"

definition Send :: "node_env \<Rightarrow> NodeRole \<Rightarrow> u32 \<Rightarrow> byte list option \<Rightarrow> nat \<Rightarrow> int \<Rightarrow> bool act" where
  "Send env r rank data len command =
     act_bind (act_require (data \<noteq> None) ''data is null'') (\<lambda>_.
     act_bind (act_require (ValidateRankId (e_config env) r rank) ''The node role or rank_id is illegal!'') (\<lambda>_.
     act_bind (GetOrCreateTcpClient env (sint rank)) (\<lambda>cl.
     act_bind (data_bytes data len) (\<lambda>bs n.
     SendMessageSync env cl ((own_meta SEND_DATA n)\<lparr> user_cmd := command \<rparr>) RAW bs n))))"

text \<open>The loop both vector versions of \<open>Send\<close> have; \<open>at\<close> throws behind the end of \<open>lens\<close>.\<close>

fun send_loop :: "node_env \<Rightarrow> u64 \<Rightarrow> NodeRole \<Rightarrow> int \<Rightarrow> u32 list \<Rightarrow> byte list option list \<Rightarrow> nat list \<Rightarrow> unit act" where
  "send_loop env rid r command (rank # ranks) (d # ds) lens =
     act_bind (act_require (ValidateRankId (e_config env) r rank) ''The node role or rank_id is illegal!'') (\<lambda>_.
     act_bind (act_require (lens \<noteq> []) ''out_of_range'') (\<lambda>_.
     act_bind (GetOrCreateTcpClient env (sint rank)) (\<lambda>cl.
     act_bind (data_bytes d (hd lens)) (\<lambda>bs.
     act_bind (\<lambda>n. client_send env cl ((own_meta SEND_DATA n)\<lparr> request_id := rid, user_cmd := command \<rparr>) RAW bs n) (\<lambda>_.
     send_loop env rid r command ranks ds (tl lens))))))"
| "send_loop env rid r command ranks ds lens = act_return ()"

definition SendMany :: "node_env \<Rightarrow> NodeRole \<Rightarrow> u32 list \<Rightarrow> byte list option list \<Rightarrow> nat list \<Rightarrow> int \<Rightarrow> bool act" where
  "SendMany env r ranks data lens command =
     act_bind (AddMessageTrack (word_of_nat (length data))) (\<lambda>rid.
     act_bind (act_require (length ranks = length data) ''The number of rank ids is not equal to the number of data!'') (\<lambda>_.
     act_bind (send_loop env rid r command ranks data lens) (\<lambda>_.
     Wait env rid)))"

definition SendOutput ::
  "node_env \<Rightarrow> NodeRole \<Rightarrow> u32 \<Rightarrow> byte list option \<Rightarrow> nat \<Rightarrow> int \<Rightarrow> nat option \<Rightarrow> bool act" where
  "SendOutput env r rank message len command output =
     act_bind (act_require (message \<noteq> None) ''message is null'') (\<lambda>_.
     case output of None \<Rightarrow> act_throw (MsException ''output is null'') | Some addr \<Rightarrow>
     act_bind (act_require (ValidateRankId (e_config env) r rank) ''The node role or rank_id is illegal!'') (\<lambda>_.
     act_bind (AddMessageTrack 1) (\<lambda>rid.
     act_bind (set_message_callback rid (Some (CollectOne addr rank rid))) (\<lambda>_.
     act_bind (GetOrCreateTcpClient env (sint rank)) (\<lambda>cl.
     act_bind (data_bytes message len) (\<lambda>bs.
     act_bind (\<lambda>n. client_send env cl ((own_meta SEND_DATA n)\<lparr> request_id := rid, user_cmd := command \<rparr>) RAW bs n) (\<lambda>_.
     Wait env rid)))))))"

definition SendManyOutput ::
  "node_env \<Rightarrow> NodeRole \<Rightarrow> u32 list \<Rightarrow> byte list option list \<Rightarrow> nat list \<Rightarrow> int \<Rightarrow> nat option \<Rightarrow> bool act" where
  "SendManyOutput env r ranks data lens command output =
     (case output of None \<Rightarrow> act_throw (MsException ''output is null'') | Some addr \<Rightarrow>
     act_bind (AddMessageTrack (word_of_nat (length data))) (\<lambda>rid.
     act_bind (act_require (length ranks = length data) ''The number of rank ids, data, comm_message_resp should be equal!'') (\<lambda>_.
     act_bind (set_message_callback rid (Some (CollectMany addr ranks rid))) (\<lambda>_.
     act_bind (send_loop env rid r command ranks data lens) (\<lambda>_.
     Wait env rid)))))"

section \<open>Responses\<close>

text \<open>\<open>memcpy_s\<close> into a fresh vector of \<open>size\<close> zero bytes.\<close>

definition copy_vector :: "byte list \<Rightarrow> exn + byte list" where
  "copy_vector data =
     (case memcpy_s_at (replicate (length data) 0) 0 (length data) data (length data) of
        (ret, v) \<Rightarrow> if ret \<noteq> 0 then Inl (MsException ''The memcpy_s error'') else Inr v)"

definition ProcessSendDataResp :: "MessageMeta option \<Rightarrow> byte list option \<Rightarrow> unit act" where
  "ProcessSendDataResp meta data n =
     (case meta of None \<Rightarrow> (Inl (MsException ''meta is null''), n) | Some m \<Rightarrow>
      case data of None \<Rightarrow> (Inl (MsException ''data is null''), n) | Some bs \<Rightarrow>
      case (if length bs > 0 then copy_vector bs else Inr []) of Inl e \<Rightarrow> (Inl e, n) | Inr v \<Rightarrow>
        let rank = word_of_int (rank_id m); rid = request_id m in
        (Inr (), n\<lparr> receive_messages := map_set rid
           (case map_of (receive_messages n) rid of Some res \<Rightarrow> map_set rank (Some v) res | None \<Rightarrow> [(rank, Some v)])
           (receive_messages n) \<rparr>))"

text \<open>A missing response is read through \<open>operator[]\<close> and is a null pointer.\<close>

definition response_of :: "(u32 \<times> byte list option) list \<Rightarrow> u32 \<Rightarrow> byte list option" where
  "response_of res rank = (case map_of res rank of Some v \<Rightarrow> v | None \<Rightarrow> None)"

definition run_callback :: "message_callback \<Rightarrow> abstract_node \<Rightarrow> abstract_node" where
  "run_callback cb n =
     (case cb of
        CollectOne addr rank rid \<Rightarrow>
          let res = (case map_of (receive_messages n) rid of Some r \<Rightarrow> r | None \<Rightarrow> []) in
          n\<lparr> out_one := map_set addr (response_of res rank) (out_one n),
             receive_messages := map_erase rid (receive_messages n) \<rparr>
      | CollectMany addr ranks rid \<Rightarrow>
          let res = (case map_of (receive_messages n) rid of Some r \<Rightarrow> r | None \<Rightarrow> []);
              old = (case map_of (out_many n) addr of Some l \<Rightarrow> l | None \<Rightarrow> []) in
          n\<lparr> out_many := map_set addr (old @ map (response_of res) ranks) (out_many n),
             receive_messages := map_erase rid (receive_messages n) \<rparr>)"

definition RunMessageCallback :: "u64 \<Rightarrow> abstract_node \<Rightarrow> abstract_node" where
  "RunMessageCallback rid n =
     (case CheckMessageTrack rid n of (complete, n1) \<Rightarrow>
        if complete then
          (case map_of (message_callbacks n1) rid of None \<Rightarrow> n1
           | Some cb \<Rightarrow> let n2 = run_callback cb n1 in n2\<lparr> message_callbacks := map_erase rid (message_callbacks n2) \<rparr>)
        else n1)"

text \<open>The callback of the clients to the servers.\<close>

definition on_rank_message :: "MessageMeta \<Rightarrow> byte list option \<Rightarrow> unit act" where
  "on_rank_message meta data =
     act_bind (case cmd meta of
         SEND_DATA \<Rightarrow> act_bind (ProcessSendDataResp (Some meta) data) (\<lambda>_ n. (Inr (), RunMessageCallback (request_id meta) n))
       | COLLECTIVE_SEND_DATA \<Rightarrow> act_return ()
       | _ \<Rightarrow> act_throw (MsException ''The cmd is not supported!''))
     (\<lambda>_ n. (Inr (), NotifyMessageArrival meta n))"

section \<open>Collective messages\<close>

definition NextExpectedRankRequestId :: "u32 \<Rightarrow> abstract_node \<Rightarrow> u64 \<times> abstract_node" where
  "NextExpectedRankRequestId rank n =
     (let rid = (case map_of (expected_rank_request_ids n) rank of Some k \<Rightarrow> k + 1 | None \<Rightarrow> 1) in
      (rid, n\<lparr> expected_rank_request_ids := map_set rank rid (expected_rank_request_ids n) \<rparr>))"

definition NextActualRankRequestId :: "u32 \<Rightarrow> abstract_node \<Rightarrow> u64 \<times> abstract_node" where
  "NextActualRankRequestId rank n =
     (let rid = (case map_of (actual_rank_request_ids n) rank of Some k \<Rightarrow> k + 1 | None \<Rightarrow> 1) in
      (rid, n\<lparr> actual_rank_request_ids := map_set rank rid (actual_rank_request_ids n) \<rparr>))"

definition CollectiveSendAsync :: "node_env \<Rightarrow> NodeRole \<Rightarrow> u32 \<Rightarrow> byte list option \<Rightarrow> u64 act" where
  "CollectiveSendAsync env r rank data =
     act_bind (act_require (data \<noteq> None) ''data is null'') (\<lambda>_.
     act_bind (act_require (ValidateRankId (e_config env) r rank) ''The node role or rank_id is illegal!'') (\<lambda>_.
     act_bind (GetOrCreateTcpClient env (sint rank)) (\<lambda>cl n.
     SendMessageAsync env cl (own_meta COLLECTIVE_SEND_DATA n) RAW data n)))"

text \<open>
  Taking a message out: the end of the closure and of the branch that finds the data already there.
  A missing entry reads as a null pointer.
\<close>

definition take_received :: "(u32 \<times> u64) \<Rightarrow> nat \<Rightarrow> abstract_node \<Rightarrow> abstract_node" where
  "take_received key addr n =
     n\<lparr> out_one := map_set addr (case map_of (received_data n) key of Some v \<Rightarrow> v | None \<Rightarrow> None) (out_one n),
        received_data := map_erase key (received_data n),
        receive_messages_done := map_set key True (receive_messages_done n) \<rparr>"

definition CollectiveReceiveAsync :: "node_env \<Rightarrow> NodeRole \<Rightarrow> u32 \<Rightarrow> nat option \<Rightarrow> (u32 \<times> u64) act" where
  "CollectiveReceiveAsync env r rank output =
     (case output of None \<Rightarrow> act_throw (MsException ''output is null'') | Some addr \<Rightarrow>
     act_bind (act_require (ValidateRankId (e_config env) r rank) ''The node role or rank_id is illegal!'') (\<lambda>_ n.
     case NextExpectedRankRequestId rank n of (rid, n1) \<Rightarrow>
       let key = (rank, rid); n2 = n1\<lparr> receive_messages_done := map_set key False (receive_messages_done n1) \<rparr> in
       (Inr key,
        if key \<in> fst ` set (received_data n2) then take_received key addr n2
        else n2\<lparr> receive_callbacks := map_set key addr (receive_callbacks n2) \<rparr>)))"

definition collective_done :: "(u32 \<times> u64) \<Rightarrow> abstract_node \<Rightarrow> bool \<times> abstract_node" where
  "collective_done key n =
     (case map_index False key (receive_messages_done n) of (b, m) \<Rightarrow> (b, n\<lparr> receive_messages_done := m \<rparr>))"

definition CollectiveWait :: "node_env \<Rightarrow> (u32 \<times> u64) \<Rightarrow> bool act" where
  "CollectiveWait env key n =
     (case collective_done key n of (b1, n1) \<Rightarrow>
      case (if b1 then (True, n1) else collective_done key (e_others env n1)) of (b, n2) \<Rightarrow> (Inr b, n2))"

definition RunReceiveCallback :: "MessageMeta option \<Rightarrow> byte list option \<Rightarrow> unit act" where
  "RunReceiveCallback meta data n =
     (case meta of None \<Rightarrow> (Inl (MsException ''meta is null''), n) | Some m \<Rightarrow>
      case data of None \<Rightarrow> (Inl (MsException ''data is null''), n) | Some bs \<Rightarrow>
      let rank = word_of_int (rank_id m) in
      case NextActualRankRequestId rank n of (rid, n1) \<Rightarrow>
      case copy_vector bs of Inl e \<Rightarrow> (Inl e, n1) | Inr v \<Rightarrow>
        let key = (rank, rid); n2 = n1\<lparr> received_data := map_set key (Some v) (received_data n1) \<rparr> in
        (Inr (),
         case map_of (receive_callbacks n2) key of None \<Rightarrow> n2
         | Some addr \<Rightarrow> let n3 = take_received key addr n2 in
             n3\<lparr> receive_callbacks := map_erase key (receive_callbacks n3) \<rparr>))"

section \<open>Talking to the scheduler\<close>

text \<open>\<open>SendMessageSync\<close> of a \<open>CommMessage\<close>; \<open>byte_size\<close> is protobuf's \<open>ByteSizeLong\<close>.\<close>

definition SendCommMessageSync ::
  "node_env \<Rightarrow> (byte list \<Rightarrow> byte list \<Rightarrow> nat) \<Rightarrow> MessageMeta \<Rightarrow> byte list \<Rightarrow> bool act" where
  "SendCommMessageSync env byte_size meta data =
     act_bind (AddMessageTrack 1) (\<lambda>rid.
     act_bind (\<lambda>n. case client_to_scheduler n of None \<Rightarrow> (Inl (Undefined ''client is null''), n) | Some c \<Rightarrow>
         (case TcpClient_SendCommMessage (e_write env) byte_size c
                 (serialize (c_meta (e_codecs env)) (meta\<lparr> request_id := rid \<rparr>)) data of
            Inl e \<Rightarrow> (Inl e, n) | Inr (_, c') \<Rightarrow> (Inr (), n\<lparr> client_to_scheduler := Some c' \<rparr>))) (\<lambda>_.
     Wait env rid))"

definition AbstractNode_Register :: "node_env \<Rightarrow> client_ref \<Rightarrow> unit act" where
  "AbstractNode_Register env cl =
     act_bind (\<lambda>n. act_require (client_present cl n) ''client is null'' n) (\<lambda>_.
     act_bind (\<lambda>n. SendMessageSync env cl (default_meta REGISTER) PROTOBUF
        (Some (serialize (c_register (e_codecs env)) \<lparr> rm_ip = ip (node_info n), rm_port = uint (port (node_info n)),
           rm_node_id = node_id (node_info n), rm_role = node_role (node_info n) \<rparr>)) n) (\<lambda>ok.
     act_require ok ''register timeout!''))"

definition ProcessRegisterResp :: "node_env \<Rightarrow> MessageMeta option \<Rightarrow> byte list option \<Rightarrow> unit act" where
  "ProcessRegisterResp env meta data n =
     (case meta of None \<Rightarrow> (Inl (MsException ''meta is null''), n) | Some m \<Rightarrow>
      case data of None \<Rightarrow> (Inl (MsException ''data is null''), n) | Some bs \<Rightarrow>
      let resp = parse (c_register_resp (e_codecs env)) bs in
      if rr_node_id resp \<noteq> node_id (node_info n) then (Inl (MsException ''The node id received is not match''), n)
      else (Inr (), n\<lparr> node_info := (node_info n)\<lparr> node_rank_id := word_of_int (rr_rank_id resp) \<rparr> \<rparr>))"

text \<open>The result of \<open>Heartbeat\<close> is true also when the scheduler does not answer in time.\<close>

definition AbstractNode_Heartbeat :: "node_env \<Rightarrow> client_ref \<Rightarrow> bool \<Rightarrow> bool act" where
  "AbstractNode_Heartbeat env cl is_node_finish =
     act_bind (\<lambda>n. SendMessageSync env cl (default_meta HEARTBEAT) PROTOBUF
        (Some (serialize (c_heartbeat (e_codecs env)) \<lparr> hb_node_id = node_id (node_info n), hb_is_node_finish = is_node_finish \<rparr>)) n)
     (\<lambda>_. act_return True)"

definition UpdateSchedulerTime :: "node_env \<Rightarrow> unit act" where
  "UpdateSchedulerTime env n = (Inr (), n\<lparr> scheduler_time := e_now env \<rparr>)"

definition CheckSchedulerTimeout :: "node_env \<Rightarrow> abstract_node \<Rightarrow> bool" where
  "CheckSchedulerTimeout env n \<longleftrightarrow> scheduler_time n + uint (scheduler_timeout (e_config env)) < e_now env"

text \<open>One round of the heartbeat thread, and the loop over the rounds the clock grants.\<close>

definition heartbeat_round :: "node_env \<Rightarrow> client_ref \<Rightarrow> unit act" where
  "heartbeat_round env cl =
     act_bind (AbstractNode_Heartbeat env cl False) (\<lambda>ok n.
       if \<not> ok then
         if \<not> CheckSchedulerTimeout env n \<and> on_node_event_message n
         then (Inr (), n\<lparr> is_finish := True, node_events := node_events n @ [SCHEDULER_TIMEOUT] \<rparr>)
         else (Inr (), n)
       else UpdateSchedulerTime env n)"

primrec heartbeat_loop :: "client_ref \<Rightarrow> node_env list \<Rightarrow> unit act" where
  "heartbeat_loop cl [] = act_return ()"
| "heartbeat_loop cl (env # envs) =
     (\<lambda>n. if is_finish n then (Inr (), n) else act_bind (heartbeat_round env cl) (\<lambda>_. heartbeat_loop cl envs) n)"

text \<open>\<open>at\<close> of a protobuf map aborts when the key is missing.\<close>

definition attribute_at :: "HeartbeatRespMessage \<Rightarrow> NodeAttribute \<Rightarrow> bool act" where
  "attribute_at resp a = (case map_of (node_attribute resp) a of
     None \<Rightarrow> act_throw (Undefined ''node_attribute has no such key'') | Some b \<Rightarrow> act_return b)"

definition raise_event :: "NodeEvent \<Rightarrow> abstract_node \<Rightarrow> abstract_node" where
  "raise_event ev n = n\<lparr> node_events := node_events n @ [ev] \<rparr>"

definition ProcessHeartbeatResp :: "node_env \<Rightarrow> MessageMeta option \<Rightarrow> byte list option \<Rightarrow> unit act" where
  "ProcessHeartbeatResp env meta data =
     (case meta of None \<Rightarrow> act_throw (MsException ''meta is null'') | Some m \<Rightarrow>
      case data of None \<Rightarrow> act_throw (MsException ''data is null'') | Some bs \<Rightarrow>
      let resp = parse (c_heartbeat_resp (e_codecs env)) bs in
      act_bind (attribute_at resp IS_CLUSTER_READY) (\<lambda>ready.
      act_bind (\<lambda>n. (Inr (), n\<lparr> is_ready := ready \<rparr>)) (\<lambda>_.
      act_bind (attribute_at resp IS_CLUSTER_FINISH) (\<lambda>fin.
      act_bind (if fin then act_bind (AbstractNode_Heartbeat env ToScheduler True)
                              (\<lambda>_ n. (Inr (), n\<lparr> is_finish := True \<rparr>))
                else act_return ()) (\<lambda>_.
      act_bind (attribute_at resp IS_CLUSTER_TIMEOUT) (\<lambda>tmo.
      act_bind (\<lambda>n. let n1 = n\<lparr> is_timeout := tmo \<rparr> in
          (Inr (), if tmo \<and> on_node_event_message n1 then raise_event CLUSTER_TIMEOUT (n1\<lparr> is_ready := True \<rparr>) else n1)) (\<lambda>_.
      act_bind (attribute_at resp IS_NODE_TIMEOUT) (\<lambda>node_tmo n.
      (Inr (), if node_tmo \<and> on_node_event_message n then raise_event NODE_TIMEOUT n else n)))))))))"

definition FetchServers :: "node_env \<Rightarrow> client_ref \<Rightarrow> unit act" where
  "FetchServers env cl =
     act_bind (\<lambda>n. SendMessageSync env cl (default_meta FETCH_SERVER) PROTOBUF
        (Some (serialize (c_fetch_servers (e_codecs env)) \<lparr> fs_node_id = node_id (node_info n) \<rparr>)) n) (\<lambda>ok.
     act_require ok ''Fetch servers address timeout!'')"

definition ProcessFetchServersResp :: "node_env \<Rightarrow> MessageMeta option \<Rightarrow> byte list option \<Rightarrow> unit act" where
  "ProcessFetchServersResp env meta data n =
     (case meta of None \<Rightarrow> (Inl (MsException ''meta is null''), n) | Some m \<Rightarrow>
      case data of None \<Rightarrow> (Inl (MsException ''data is null''), n) | Some bs \<Rightarrow>
      (Inr (), n\<lparr> nodes_address := fold (\<lambda>sm. map_set (SERVER, word_of_int (sm_rank_id sm)) (sm_ip sm, word_of_int (sm_port sm)))
         (servers_meta (parse (c_fetch_servers_resp (e_codecs env)) bs)) (nodes_address n) \<rparr>))"

definition WaitForDisconnect :: "node_env \<Rightarrow> bool act" where
  "WaitForDisconnect env n = (case wait_for is_finish (e_others env) n of (b, n') \<Rightarrow> (Inr b, n'))"

definition Disconnect :: "node_env \<Rightarrow> client_ref \<Rightarrow> bool act" where
  "Disconnect env cl =
     act_bind (\<lambda>n. SendMessageSync env cl (default_meta FINISH) PROTOBUF
        (Some (serialize (c_finish (e_codecs env)) \<lparr> fm_node_id = node_id (node_info n) \<rparr>)) n) (\<lambda>_.
     WaitForDisconnect env)"

definition AbstractNode_InitCommandHandler :: "unit act" where
  "AbstractNode_InitCommandHandler n = (Inr (), n\<lparr> resp_handlers :=
     map_set FINISH None (map_set FETCH_SERVER (Some RespFetchServers)
       (map_set REGISTER (Some RespRegister) (map_set HEARTBEAT (Some RespHeartbeat) (resp_handlers n)))) \<rparr>)"

text \<open>The callback of the client to the scheduler.\<close>

definition on_scheduler_message :: "node_env \<Rightarrow> MessageMeta \<Rightarrow> byte list option \<Rightarrow> unit act" where
  "on_scheduler_message env meta data =
     act_bind (\<lambda>n. case map_of (resp_handlers n) (cmd meta) of
         None \<Rightarrow> (Inl (MsException ''The cmd is not supported!''), n)
       | Some None \<Rightarrow> (Inr (), n)
       | Some (Some h) \<Rightarrow>
           (case h of RespHeartbeat \<Rightarrow> ProcessHeartbeatResp env (Some meta) data n
            | RespRegister \<Rightarrow> ProcessRegisterResp env (Some meta) data n
            | RespFetchServers \<Rightarrow> ProcessFetchServersResp env (Some meta) data n))
     (\<lambda>_ n. (Inr (), NotifyMessageArrival meta n))"

text \<open>Connecting to the scheduler, and the callback that connects again.\<close>

definition connect_scheduler :: "node_env \<Rightarrow> tcp_client \<Rightarrow> unit act" where
  "connect_scheduler env c n =
     (case TcpClient_Init (e_inet_addr env) (e_connect env) (node_statics n) c of
        (r, st, c') \<Rightarrow> (r, n\<lparr> node_statics := st, client_to_scheduler := Some c' \<rparr>))"

definition on_scheduler_disconnected :: "node_env \<Rightarrow> unit act" where
  "on_scheduler_disconnected env n =
     (case client_to_scheduler n of None \<Rightarrow> (Inl (Undefined ''client_to_scheduler_ is null''), n)
      | Some c \<Rightarrow> connect_scheduler env c n)"

definition scheduler_connected :: "abstract_node \<Rightarrow> bool" where
  "scheduler_connected n = (case client_to_scheduler n of None \<Rightarrow> False | Some c \<Rightarrow> cli_is_connected c)"

definition InitClientToScheduler :: "node_env \<Rightarrow> bool act" where
  "InitClientToScheduler env n =
     (case get_scheduler_host (e_config env) of Inl e \<Rightarrow> (Inl e, n) | Inr host \<Rightarrow>
      act_bind (connect_scheduler env
          (TcpClient_SetMessageCallback True (new_client (e_uninit env) host (scheduler_port (e_config env))))) (\<lambda>_ n1.
        let n2 = n1\<lparr> client_to_scheduler_thread := True,
                    client_to_scheduler := map_option (set_disconnected_callback True) (client_to_scheduler n1) \<rparr> in
        (case wait_for scheduler_connected (e_others env) n2 of (b, n3) \<Rightarrow> (Inr b, n3))) n)"

definition set_event_callback :: "bool \<Rightarrow> unit act" where
  "set_event_callback cb n = (Inr (), n\<lparr> on_node_event_message := cb \<rparr>)"

section \<open>Lemmas on the tracker\<close>

lemma map_index_value: "fst (map_index d k m) = (case map_of m k of Some v \<Rightarrow> v | None \<Rightarrow> d)"
  by (simp add: map_index_def split: option.split)

lemma map_of_map_index: "map_of (snd (map_index d k m)) = (map_of m)(k \<mapsto> fst (map_index d k m))"
  by (auto simp: map_index_def split: option.split)

lemmas index_simps = map_index_value map_of_map_index case_prod_beta

text \<open>What the operations on one table leave alone.\<close>

lemma tracker_frame [simp]:
  "message_callbacks (NotifyMessageArrival m n) = message_callbacks n"
  "receive_messages (NotifyMessageArrival m n) = receive_messages n"
  "out_one (NotifyMessageArrival m n) = out_one n" "out_many (NotifyMessageArrival m n) = out_many n"
  "message_callbacks (snd (CheckMessageTrack rid n)) = message_callbacks n"
  "receive_messages (snd (CheckMessageTrack rid n)) = receive_messages n"
  "out_one (snd (CheckMessageTrack rid n)) = out_one n" "out_many (snd (CheckMessageTrack rid n)) = out_many n"
  "message_tracker (run_callback cb n) = message_tracker n"
  by (simp_all add: NotifyMessageArrival_def CheckMessageTrack_def run_callback_def Let_def
      split: prod.split message_callback.split)

lemma Notify_tracker:
  "map_of (message_tracker (NotifyMessageArrival m n)) rid =
     (if request_id m = rid
      then (case map_of (message_tracker n) rid of Some p \<Rightarrow> Some (fst p, snd p + 1) | None \<Rightarrow> Some (0, 1))
      else map_of (message_tracker n) rid)"
  by (auto simp: NotifyMessageArrival_def index_simps split: option.split)

lemma Check_tracker:
  "map_of (message_tracker (snd (CheckMessageTrack rid n))) k =
     (if k = rid then Some (case map_of (message_tracker n) rid of Some p \<Rightarrow> p | None \<Rightarrow> (0, 0))
      else map_of (message_tracker n) k)"
  by (auto simp: CheckMessageTrack_def index_simps split: option.split)

lemma Check_result:
  "fst (CheckMessageTrack rid n) \<longleftrightarrow>
     (case map_of (message_tracker n) rid of Some p \<Rightarrow> fst p = snd p + 1 | None \<Rightarrow> False)"
  by (simp add: CheckMessageTrack_def index_simps split: option.split)

definition arrivals :: "u64 \<Rightarrow> MessageMeta list \<Rightarrow> nat" where
  "arrivals rid ms = length (filter (\<lambda>m. request_id m = rid) ms)"

lemma fold_Notify_tracker:
  "map_of (message_tracker n) rid = Some (k, a) \<Longrightarrow>
   map_of (message_tracker (fold NotifyMessageArrival ms n)) rid = Some (k, a + word_of_nat (arrivals rid ms))"
proof (induction ms arbitrary: n a)
  case (Cons m ms)
  then show ?case by (cases "request_id m = rid") (simp_all add: Notify_tracker arrivals_def algebra_simps)
qed (simp add: arrivals_def)

lemma all_arrived_value:
  "map_of (message_tracker n) rid = Some (k, a) \<Longrightarrow> all_arrived rid n = (k = a, n)"
  by (simp add: all_arrived_def map_index_present)

lemma Wait_tracked:
  assumes "map_of (message_tracker n) rid = Some (k, a)"
    and "map_of (message_tracker (e_others env n)) rid = Some (k', b)"
  shows "Wait env rid n =
    (if k = a then (Inr True, n\<lparr> message_tracker := map_erase rid (message_tracker n) \<rparr>)
     else (Inr (k' = b), (e_others env n)\<lparr> message_tracker := map_erase rid (message_tracker (e_others env n)) \<rparr>))"
  using assms by (simp add: Wait_def all_arrived_value)

section \<open>Frames of sending\<close>

text \<open>The tables of requests, which sending does not change.\<close>

definition same_tables :: "abstract_node \<Rightarrow> abstract_node \<Rightarrow> bool" where
  "same_tables n n' \<longleftrightarrow> message_tracker n' = message_tracker n \<and> message_callbacks n' = message_callbacks n \<and>
     receive_messages n' = receive_messages n \<and> out_one n' = out_one n \<and> out_many n' = out_many n \<and>
     node_events n' = node_events n \<and> is_finish n' = is_finish n"

lemma same_tables_refl: "same_tables n n"
  by (simp add: same_tables_def)

lemma same_tables_trans: "same_tables n n' \<Longrightarrow> same_tables n' n'' \<Longrightarrow> same_tables n n''"
  by (simp add: same_tables_def)

lemma act_bind_same:
  assumes "\<And>n. same_tables n (snd (m n))" "\<And>x n. same_tables n (snd (f x n))"
  shows "same_tables n (snd (act_bind m f n))"
  using assms(1) [of n] assms(2) same_tables_trans
  by (cases "m n"; cases "fst (m n)") (fastforce simp: act_bind_def)+

lemma send_same:
  "same_tables n (snd (act_return x n))" "same_tables n (snd (act_throw e n))"
  "same_tables n (snd (act_require b msg n))" "same_tables n (snd (data_bytes d len n))"
  "same_tables n (snd (GetOrCreateTcpClient env r n))" "same_tables n (snd (client_send env cl meta protos data n))"
  by (auto simp: act_return_def act_throw_def act_require_def data_bytes_def GetOrCreateTcpClient_def client_send_def
      Let_def same_tables_def split: option.split sum.split prod.split client_ref.split)

lemma send_loop_same: "same_tables n (snd (send_loop env rid r command ranks ds lens n))"
  by (induction env rid r command ranks ds lens arbitrary: n rule: send_loop.induct)
     (auto intro!: act_bind_same simp: send_same)

section \<open>Lemmas on responses\<close>

lemma copy_vector_ok: "0 < length bs \<Longrightarrow> length bs \<le> SECUREC_MEM_MAX_LEN \<Longrightarrow> copy_vector bs = Inr bs"
  by (simp add: copy_vector_def memcpy_s_at_def EOK_def)

definition resp_rank :: "MessageMeta \<Rightarrow> u32" where
  "resp_rank m = word_of_int (rank_id m)"

definition resp_ok :: "u64 \<Rightarrow> MessageMeta \<times> byte list \<Rightarrow> bool" where
  "resp_ok rid = (\<lambda>(m, bs). cmd m = SEND_DATA \<and> request_id m = rid \<and> length bs \<le> SECUREC_MEM_MAX_LEN)"

definition stored :: "abstract_node \<Rightarrow> u64 \<Rightarrow> u32 \<Rightarrow> byte list option option" where
  "stored n rid = map_of (case map_of (receive_messages n) rid of Some res \<Rightarrow> res | None \<Rightarrow> [])"

lemma ProcessSendDataResp_ok:
  assumes "resp_ok rid (m, bs)"
  shows "\<exists>n'. ProcessSendDataResp (Some m) (Some bs) n = (Inr (), n') \<and>
    stored n' rid = (stored n rid)(resp_rank m \<mapsto> Some bs) \<and> message_tracker n' = message_tracker n \<and>
    message_callbacks n' = message_callbacks n \<and> out_one n' = out_one n \<and> out_many n' = out_many n"
proof -
  have "(if length bs > 0 then copy_vector bs else Inr []) = Inr bs"
    using assms copy_vector_ok [of bs] by (auto simp: resp_ok_def)
  with assms show ?thesis
    by (auto simp: ProcessSendDataResp_def Let_def stored_def resp_ok_def resp_rank_def split: option.splits)
qed

lemma response_of_stored:
  "response_of (case map_of (receive_messages n) rid of Some r \<Rightarrow> r | None \<Rightarrow> []) rank =
     (case stored n rid rank of Some v \<Rightarrow> v | None \<Rightarrow> None)"
  by (simp add: response_of_def stored_def)

primrec deliver_responses :: "(MessageMeta \<times> byte list) list \<Rightarrow> unit act" where
  "deliver_responses [] = act_return ()"
| "deliver_responses (x # xs) = act_bind (on_rank_message (fst x) (Some (snd x))) (\<lambda>_. deliver_responses xs)"

lemma deliver_responses_append:
  "deliver_responses (xs @ ys) n = act_bind (deliver_responses xs) (\<lambda>_. deliver_responses ys) n"
  by (induction xs arbitrary: n) (auto simp: act_bind_def act_return_def split: prod.splits sum.splits)

lemma on_rank_message_unfold:
  assumes "resp_ok rid (m, bs)"
  shows "\<exists>n1. ProcessSendDataResp (Some m) (Some bs) n = (Inr (), n1) \<and>
    on_rank_message m (Some bs) n = (Inr (), NotifyMessageArrival m (RunMessageCallback rid n1)) \<and>
    stored n1 rid = (stored n rid)(resp_rank m \<mapsto> Some bs) \<and> message_tracker n1 = message_tracker n \<and>
    message_callbacks n1 = message_callbacks n \<and> out_one n1 = out_one n \<and> out_many n1 = out_many n"
  using ProcessSendDataResp_ok [OF assms, of n] assms
  by (auto simp: on_rank_message_def act_bind_def resp_ok_def)

text \<open>A response that is not the last one is only stored and counted.\<close>

lemma on_rank_message_early:
  assumes "resp_ok rid (m, bs)"
    and "case map_of (message_tracker n) rid of Some p \<Rightarrow> fst p \<noteq> snd p + 1 | None \<Rightarrow> True"
  shows "\<exists>n'. on_rank_message m (Some bs) n = (Inr (), n') \<and>
    map_of (message_tracker n') rid =
      (case map_of (message_tracker n) rid of Some p \<Rightarrow> Some (fst p, snd p + 1) | None \<Rightarrow> Some (0, 1)) \<and>
    stored n' rid = (stored n rid)(resp_rank m \<mapsto> Some bs) \<and> message_callbacks n' = message_callbacks n \<and>
    out_one n' = out_one n \<and> out_many n' = out_many n"
proof -
  obtain n1 where n1: "on_rank_message m (Some bs) n = (Inr (), NotifyMessageArrival m (RunMessageCallback rid n1))"
    "stored n1 rid = (stored n rid)(resp_rank m \<mapsto> Some bs)" "message_tracker n1 = message_tracker n"
    "message_callbacks n1 = message_callbacks n" "out_one n1 = out_one n" "out_many n1 = out_many n"
    using on_rank_message_unfold [OF assms(1), of n] by blast
  have "\<not> fst (CheckMessageTrack rid n1)" using assms(2) n1(3) by (auto simp: Check_result split: option.splits)
  then have run: "RunMessageCallback rid n1 = snd (CheckMessageTrack rid n1)"
    by (simp add: RunMessageCallback_def case_prod_beta)
  have "request_id m = rid" using assms(1) by (simp add: resp_ok_def)
  with n1 run show ?thesis
    by (auto simp: Notify_tracker Check_tracker stored_def split: option.splits)
qed

text \<open>The last response runs the callback.\<close>

lemma on_rank_message_last:
  assumes "resp_ok rid (m, bs)" "map_of (message_tracker n) rid = Some (a + 1, a)"
    and "map_of (message_callbacks n) rid = Some (CollectMany addr ranks rid)"
  shows "\<exists>n'. on_rank_message m (Some bs) n = (Inr (), n') \<and>
    map_of (message_tracker n') rid = Some (a + 1, a + 1) \<and> map_of (message_callbacks n') rid = None \<and>
    map_of (out_many n') addr = Some ((case map_of (out_many n) addr of Some l \<Rightarrow> l | None \<Rightarrow> []) @
      map (\<lambda>r. case ((stored n rid)(resp_rank m \<mapsto> Some bs)) r of Some v \<Rightarrow> v | None \<Rightarrow> None) ranks)"
proof -
  obtain n1 where n1: "on_rank_message m (Some bs) n = (Inr (), NotifyMessageArrival m (RunMessageCallback rid n1))"
    "stored n1 rid = (stored n rid)(resp_rank m \<mapsto> Some bs)" "message_tracker n1 = message_tracker n"
    "message_callbacks n1 = message_callbacks n" "out_many n1 = out_many n"
    using on_rank_message_unfold [OF assms(1), of n] by blast
  define n2 where "n2 = snd (CheckMessageTrack rid n1)"
  have n2: "stored n2 rid = stored n1 rid" "map_of (message_tracker n2) rid = Some (a + 1, a)"
    "message_callbacks n2 = message_callbacks n1" "out_many n2 = out_many n1"
    using assms(2) n1(3) by (simp_all add: n2_def stored_def Check_tracker)
  have "fst (CheckMessageTrack rid n1)" using assms(2) n1(3) by (simp add: Check_result)
  then have run: "RunMessageCallback rid n1 = (run_callback (CollectMany addr ranks rid) n2)
      \<lparr> message_callbacks := map_erase rid (message_callbacks (run_callback (CollectMany addr ranks rid) n2)) \<rparr>"
    using assms(3) n1(4) by (simp add: RunMessageCallback_def case_prod_beta n2_def [symmetric] n2(3) Let_def)
  have out: "map_of (out_many (run_callback (CollectMany addr ranks rid) n2)) addr =
      Some ((case map_of (out_many n2) addr of Some l \<Rightarrow> l | None \<Rightarrow> []) @
        map (\<lambda>r. case stored n2 rid r of Some v \<Rightarrow> v | None \<Rightarrow> None) ranks)"
    by (simp add: run_callback_def Let_def response_of_stored)
  have "request_id m = rid" using assms(1) by (simp add: resp_ok_def)
  with n1 n2 run out show ?thesis by (simp add: Notify_tracker)
qed

lemma deliver_early:
  assumes "list_all (resp_ok rid) xs" "map_of (message_tracker n) rid = Some (word_of_nat k, word_of_nat a)"
    and "a + length xs < k" "k < 2 ^ 32"
  shows "\<exists>n'. deliver_responses xs n = (Inr (), n') \<and>
    map_of (message_tracker n') rid = Some (word_of_nat k, word_of_nat (a + length xs)) \<and>
    stored n' rid = stored n rid ++ map_of (rev (map (\<lambda>(m, bs). (resp_rank m, Some bs)) xs)) \<and>
    message_callbacks n' = message_callbacks n \<and> out_one n' = out_one n \<and> out_many n' = out_many n"
  using assms
proof (induction xs arbitrary: n a)
  case Nil
  then show ?case by (simp add: act_return_def)
next
  case (Cons x xs)
  obtain m bs where x: "x = (m, bs)" by (cases x)
  have "(word_of_nat k :: u32) \<noteq> word_of_nat (Suc a)"
    using Cons.prems(3,4) by (auto simp: word_unat_eq_iff unat_of_nat simp del: of_nat_Suc)
  then have "(word_of_nat k :: u32) \<noteq> word_of_nat a + 1" by (simp add: add.commute)
  then obtain n1 where n1: "on_rank_message m (Some bs) n = (Inr (), n1)"
    "map_of (message_tracker n1) rid = Some (word_of_nat k, word_of_nat (Suc a))"
    "stored n1 rid = (stored n rid)(resp_rank m \<mapsto> Some bs)" "message_callbacks n1 = message_callbacks n"
    "out_one n1 = out_one n" "out_many n1 = out_many n"
    using on_rank_message_early [of rid m bs n] Cons.prems x by (auto simp: add.commute)
  obtain n2 where n2: "deliver_responses xs n1 = (Inr (), n2)"
    "map_of (message_tracker n2) rid = Some (word_of_nat k, word_of_nat (Suc a + length xs))"
    "stored n2 rid = stored n1 rid ++ map_of (rev (map (\<lambda>(m, bs). (resp_rank m, Some bs)) xs))"
    "message_callbacks n2 = message_callbacks n1" "out_one n2 = out_one n1" "out_many n2 = out_many n1"
    using Cons.IH [of n1 "Suc a"] Cons.prems n1(2) by auto
  have "deliver_responses (x # xs) n = (Inr (), n2)" using n1(1) n2(1) x by (simp add: act_bind_def)
  with n1 n2 x show ?case by (simp add: map_add_assoc [symmetric])
qed

lemma deliver_all:
  assumes "list_all (resp_ok rid) xs" "xs \<noteq> []" "length xs < 2 ^ 32"
    and "map_of (message_tracker n) rid = Some (word_of_nat (length xs), 0)"
    and "map_of (message_callbacks n) rid = Some (CollectMany addr ranks rid)" "map_of (receive_messages n) rid = None"
    and "distinct (map (resp_rank \<circ> fst) xs)"
  shows "\<exists>n'. deliver_responses xs n = (Inr (), n') \<and>
    map_of (message_tracker n') rid = Some (word_of_nat (length xs), word_of_nat (length xs)) \<and>
    map_of (out_many n') addr = Some ((case map_of (out_many n) addr of Some l \<Rightarrow> l | None \<Rightarrow> []) @
      map (map_of (map (\<lambda>(m, bs). (resp_rank m, bs)) xs)) ranks)"
proof -
  obtain ys m bs where xs: "xs = ys @ [(m, bs)]" using assms(2) by (metis rev_exhaust surj_pair)
  let ?f = "\<lambda>(m, bs). (resp_rank m, Some bs :: byte list option)"
  have ok: "list_all (resp_ok rid) ys" "resp_ok rid (m, bs)" using assms(1) xs by simp_all
  obtain n1 where n1: "deliver_responses ys n = (Inr (), n1)"
    "map_of (message_tracker n1) rid = Some (word_of_nat (length xs), word_of_nat (length ys))"
    "stored n1 rid = stored n rid ++ map_of (rev (map ?f ys))" "message_callbacks n1 = message_callbacks n"
    "out_many n1 = out_many n"
    using deliver_early [OF ok(1), of n "length xs" 0] assms(3,4) xs by auto
  have "map_of (message_tracker n1) rid = Some (word_of_nat (length ys) + 1, word_of_nat (length ys))"
    using n1(2) xs by (simp add: add.commute)
  then obtain n2 where n2: "on_rank_message m (Some bs) n1 = (Inr (), n2)"
    "map_of (message_tracker n2) rid = Some (word_of_nat (length ys) + 1, word_of_nat (length ys) + 1)"
    "map_of (out_many n2) addr = Some ((case map_of (out_many n1) addr of Some l \<Rightarrow> l | None \<Rightarrow> []) @
      map (\<lambda>r. case ((stored n1 rid)(resp_rank m \<mapsto> Some bs)) r of Some v \<Rightarrow> v | None \<Rightarrow> None) ranks)"
    using on_rank_message_last [OF ok(2), of n1 "word_of_nat (length ys)" addr ranks] n1(4) assms(5) by auto
  have "distinct (map fst (map ?f xs))" using assms(7) by (simp add: comp_def case_prod_beta)
  then have "map_of (rev (map ?f xs)) = map_of (map ?f xs)"
    by (rule map_of_rev_distinct)
  then have "(stored n1 rid)(resp_rank m \<mapsto> Some bs) = map_of (map ?f xs)"
    using assms(6) n1(3) xs by (simp add: stored_def)
  moreover have "map_of (map ?f xs) r = map_option Some (map_of (map (\<lambda>(m, bs). (resp_rank m, bs)) xs) r)" for r
    by (induction xs) auto
  ultimately have "(\<lambda>r. case ((stored n1 rid)(resp_rank m \<mapsto> Some bs)) r of Some v \<Rightarrow> v | None \<Rightarrow> None) =
      map_of (map (\<lambda>(m, bs). (resp_rank m, bs)) xs)"
    by (auto simp: fun_eq_iff split: option.splits)
  moreover have "deliver_responses xs n = (Inr (), n2)"
    using n1(1) n2(1) by (simp add: xs deliver_responses_append act_bind_def act_return_def)
  ultimately show ?thesis using n1(5) n2 xs by (simp add: add.commute)
qed

section \<open>Collective messages are matched in order\<close>

text \<open>
  \<open>R r\<close> are the output addresses of the receives from rank \<open>r\<close> so far, \<open>A r\<close> the messages that
  arrived from it.  The k-th receive and the k-th message belong together; whichever comes first waits
  in its table.
\<close>

definition coll_inv :: "(u32 \<Rightarrow> nat list) \<Rightarrow> (u32 \<Rightarrow> byte list list) \<Rightarrow> abstract_node \<Rightarrow> bool" where
  "coll_inv R A n \<longleftrightarrow>
     (\<forall>r. map_of (expected_rank_request_ids n) r = (if R r = [] then None else Some (word_of_nat (length (R r))))) \<and>
     (\<forall>r. map_of (actual_rank_request_ids n) r = (if A r = [] then None else Some (word_of_nat (length (A r))))) \<and>
     (\<forall>r w. map_of (received_data n) (r, w) =
        (if length (R r) < unat w \<and> unat w \<le> length (A r) then Some (Some (A r ! (unat w - 1))) else None)) \<and>
     (\<forall>r w. map_of (receive_callbacks n) (r, w) =
        (if length (A r) < unat w \<and> unat w \<le> length (R r) then Some (R r ! (unat w - 1)) else None)) \<and>
     (\<forall>r w. 0 < unat w \<and> unat w \<le> length (R r) \<longrightarrow>
        map_of (receive_messages_done n) (r, w) = Some (unat w \<le> length (A r))) \<and>
     (\<forall>r k. k < length (R r) \<and> k < length (A r) \<longrightarrow> map_of (out_one n) (R r ! k) = Some (Some (A r ! k))) \<and>
     (\<forall>r. distinct (R r)) \<and> (\<forall>r r'. r \<noteq> r' \<longrightarrow> set (R r) \<inter> set (R r') = {})"

lemma coll_invD:
  assumes "coll_inv R A n"
  shows "map_of (expected_rank_request_ids n) r = (if R r = [] then None else Some (word_of_nat (length (R r))))"
    and "map_of (actual_rank_request_ids n) r = (if A r = [] then None else Some (word_of_nat (length (A r))))"
    and "map_of (received_data n) (r, w) =
        (if length (R r) < unat w \<and> unat w \<le> length (A r) then Some (Some (A r ! (unat w - 1))) else None)"
    and "map_of (receive_callbacks n) (r, w) =
        (if length (A r) < unat w \<and> unat w \<le> length (R r) then Some (R r ! (unat w - 1)) else None)"
    and "0 < unat w \<Longrightarrow> unat w \<le> length (R r) \<Longrightarrow> map_of (receive_messages_done n) (r, w) = Some (unat w \<le> length (A r))"
    and "k < length (R r) \<Longrightarrow> k < length (A r) \<Longrightarrow> map_of (out_one n) (R r ! k) = Some (Some (A r ! k))"
    and "distinct (R r)" and "r \<noteq> r' \<Longrightarrow> set (R r) \<inter> set (R r') = {}"
  using assms unfolding coll_inv_def by blast+

lemma coll_invI:
  assumes "\<And>r. map_of (expected_rank_request_ids n) r = (if R r = [] then None else Some (word_of_nat (length (R r))))"
    and "\<And>r. map_of (actual_rank_request_ids n) r = (if A r = [] then None else Some (word_of_nat (length (A r))))"
    and "\<And>r w. map_of (received_data n) (r, w) =
        (if length (R r) < unat w \<and> unat w \<le> length (A r) then Some (Some (A r ! (unat w - 1))) else None)"
    and "\<And>r w. map_of (receive_callbacks n) (r, w) =
        (if length (A r) < unat w \<and> unat w \<le> length (R r) then Some (R r ! (unat w - 1)) else None)"
    and "\<And>r w. 0 < unat w \<Longrightarrow> unat w \<le> length (R r) \<Longrightarrow> map_of (receive_messages_done n) (r, w) = Some (unat w \<le> length (A r))"
    and "\<And>r k. k < length (R r) \<Longrightarrow> k < length (A r) \<Longrightarrow> map_of (out_one n) (R r ! k) = Some (Some (A r ! k))"
    and "\<And>r. distinct (R r)" and "\<And>r r'. r \<noteq> r' \<Longrightarrow> set (R r) \<inter> set (R r') = {}"
  shows "coll_inv R A n"
  using assms unfolding coll_inv_def by blast

lemma unat_next: "k < 2 ^ 64 - 1 \<Longrightarrow> unat (word_of_nat (Suc k) :: u64) = Suc k"
  by (simp add: unat_of_nat del: of_nat_Suc)

lemma word_eq_next: "k < 2 ^ 64 - 1 \<Longrightarrow> w = (word_of_nat (Suc k) :: u64) \<longleftrightarrow> unat w = Suc k"
  by (metis unat_next word_unat_eq_iff)

lemma next_rank_request:
  assumes "coll_inv R A n" "length (R r) < 2 ^ 64 - 1" "length (A r) < 2 ^ 64 - 1"
  shows "fst (NextExpectedRankRequestId r n) = word_of_nat (Suc (length (R r)))"
    and "fst (NextActualRankRequestId r n) = word_of_nat (Suc (length (A r)))"
  using coll_invD(1,2) [OF assms(1), of r]
  by (auto simp: NextExpectedRankRequestId_def NextActualRankRequestId_def Let_def add.commute split: option.splits if_splits)

lemma coll_inv_receive:
  assumes inv: "coll_inv R A n" and small: "length (R r) < 2 ^ 64 - 1" "length (A r) < 2 ^ 64 - 1"
    and fresh: "\<And>r'. addr \<notin> set (R r')" and valid: "ValidateRankId (e_config env) nrole r"
  shows "\<exists>n'. CollectiveReceiveAsync env nrole r (Some addr) n = (Inr (r, word_of_nat (Suc (length (R r)))), n') \<and>
    coll_inv (R(r := R r @ [addr])) A n'"
proof -
  define k where "k = length (R r)"
  define key where "key = (r, word_of_nat (Suc k) :: u64)"
  define n2 where "n2 = n\<lparr> expected_rank_request_ids := map_set r (word_of_nat (Suc k)) (expected_rank_request_ids n),
    receive_messages_done := map_set key False (receive_messages_done n) \<rparr>"
  have succ: "NextExpectedRankRequestId r n =
      (word_of_nat (Suc k), n\<lparr> expected_rank_request_ids := map_set r (word_of_nat (Suc k)) (expected_rank_request_ids n) \<rparr>)"
    using next_rank_request(1) [OF inv small] by (simp add: NextExpectedRankRequestId_def Let_def k_def)
  have ready: "key \<in> fst ` set (received_data n2) \<longleftrightarrow> k < length (A r)"
  proof -
    have "key \<in> fst ` set (received_data n2) \<longleftrightarrow> map_of (received_data n) (r, word_of_nat (Suc k)) \<noteq> None"
      by (simp only: map_of_eq_None_iff not_not) (simp add: n2_def key_def)
    also have "\<dots> \<longleftrightarrow> k < length (A r)"
      using coll_invD(3) [OF inv, of r "word_of_nat (Suc k)"] unat_next [of k] small
      by (simp add: k_def Suc_le_eq del: of_nat_Suc)
    finally show ?thesis .
  qed
  have run: "CollectiveReceiveAsync env nrole r (Some addr) n = (Inr key,
      if k < length (A r) then take_received key addr n2
      else n2\<lparr> receive_callbacks := map_set key addr (receive_callbacks n2) \<rparr>)"
    using valid ready by (simp add: CollectiveReceiveAsync_def act_bind_def act_require_def act_return_def succ
        n2_def key_def Let_def)
  have w: "w = word_of_nat (Suc k) \<longleftrightarrow> unat w = Suc k" for w :: u64
    using word_eq_next small(1) by (simp add: k_def)
  note d = coll_invD [OF inv] 
  have other: "R r' ! j \<noteq> addr" if "j < length (R r')" for r' j using fresh [of r'] that nth_mem by metis
  show ?thesis
  proof (cases "k < length (A r)")
    case True
    have "map_of (received_data n2) key = Some (Some (A r ! k))"
      using d(3) [of r "word_of_nat (Suc k)"] True small by (simp add: n2_def key_def k_def unat_next del: of_nat_Suc)
    then have n': "take_received key addr n2 = n2\<lparr> out_one := map_set addr (Some (A r ! k)) (out_one n2),
        received_data := map_erase key (received_data n2), receive_messages_done := map_set key True (receive_messages_done n2) \<rparr>"
      by (simp add: take_received_def)
    have "coll_inv (R(r := R r @ [addr])) A (take_received key addr n2)"
      unfolding n'
    proof (rule coll_invI, goal_cases)
      case (5 r' v)
      then show ?case using True w d(5) [of v r']
        by (cases "r' = r"; cases "unat v = Suc k") (auto simp: n2_def key_def k_def simp del: of_nat_Suc)
    next
      case (6 r' j)
      then show ?case using True other [of j r'] d(6) [of j r']
        by (cases "r' = r"; cases "j = k") (auto simp: n2_def key_def k_def nth_append less_Suc_eq)
    qed (use True fresh w in \<open>auto simp: n2_def key_def k_def d nth_append less_Suc_eq simp del: of_nat_Suc\<close>)
    with run True show ?thesis by (simp add: key_def k_def)
  next
    case False
    have "coll_inv (R(r := R r @ [addr])) A (n2\<lparr> receive_callbacks := map_set key addr (receive_callbacks n2) \<rparr>)"
    proof (rule coll_invI, goal_cases)
      case (5 r' v)
      then show ?case using False w d(5) [of v r']
        by (cases "r' = r"; cases "unat v = Suc k") (auto simp: n2_def key_def k_def simp del: of_nat_Suc)
    qed (use False fresh other w in \<open>auto simp: n2_def key_def k_def d nth_append less_Suc_eq simp del: of_nat_Suc\<close>)
    with run False show ?thesis by (simp add: key_def k_def)
  qed
qed

lemma coll_inv_arrive:
  assumes inv: "coll_inv R A n" and small: "length (R r) < 2 ^ 64 - 1" "length (A r) < 2 ^ 64 - 1"
    and m: "resp_rank m = r" and bs: "0 < length bs" "length bs \<le> SECUREC_MEM_MAX_LEN"
  shows "\<exists>n'. RunReceiveCallback (Some m) (Some bs) n = (Inr (), n') \<and> coll_inv R (A(r := A r @ [bs])) n'"
proof -
  define k where "k = length (A r)"
  define key where "key = (r, word_of_nat (Suc k) :: u64)"
  define n2 where "n2 = n\<lparr> actual_rank_request_ids := map_set r (word_of_nat (Suc k)) (actual_rank_request_ids n),
    received_data := map_set key (Some bs) (received_data n) \<rparr>"
  have succ: "NextActualRankRequestId r n =
      (word_of_nat (Suc k), n\<lparr> actual_rank_request_ids := map_set r (word_of_nat (Suc k)) (actual_rank_request_ids n) \<rparr>)"
    using next_rank_request(2) [OF inv small] by (simp add: NextActualRankRequestId_def Let_def k_def)
  have w: "w = word_of_nat (Suc k) \<longleftrightarrow> unat w = Suc k" for w :: u64
    using word_eq_next small(2) by (simp add: k_def)
  have cb: "map_of (receive_callbacks n) key = (if k < length (R r) then Some (R r ! k) else None)"
    using coll_invD(4) [OF inv, of r "word_of_nat (Suc k)"] unat_next [of k] small
    by (simp add: key_def k_def Suc_le_eq del: of_nat_Suc)
  have run: "RunReceiveCallback (Some m) (Some bs) n = (Inr (),
      if k < length (R r) then (take_received key (R r ! k) n2)\<lparr> receive_callbacks := map_erase key (receive_callbacks n2) \<rparr>
      else n2)"
    using succ cb copy_vector_ok [OF bs] m
    by (simp add: RunReceiveCallback_def resp_rank_def key_def [symmetric] Let_def)
       (simp add: n2_def key_def take_received_def Let_def)
  note d = coll_invD [OF inv]
  show ?thesis
  proof (cases "k < length (R r)")
    case True
    have same: "R r' ! j = R r ! k \<longleftrightarrow> r' = r \<and> j = k" if "j < length (R r')" for r' j
    proof (cases "r' = r")
      case True
      with \<open>k < length (R r)\<close> that show ?thesis using nth_eq_iff_index_eq [OF d(7) [of r]] by blast
    next
      case False
      with \<open>k < length (R r)\<close> that have "R r ! k \<in> set (R r)" "R r' ! j \<in> set (R r')" by simp_all
      with d(8) [OF False] False show ?thesis by auto
    qed
    have "coll_inv R (A(r := A r @ [bs]))
        ((take_received key (R r ! k) n2)\<lparr> receive_callbacks := map_erase key (receive_callbacks n2) \<rparr>)"
    proof (rule coll_invI, goal_cases)
      case (6 r' j)
      then show ?case using True same [of j r'] d(6) [of j r']
        by (cases "r' = r"; cases "j = k") (auto simp: n2_def key_def k_def take_received_def nth_append less_Suc_eq)
    qed (use True w in \<open>auto simp: n2_def key_def k_def d nth_append take_received_def less_Suc_eq le_Suc_eq simp del: of_nat_Suc\<close>)
    with run True show ?thesis by simp
  next
    case False
    have "coll_inv R (A(r := A r @ [bs])) n2"
      by (rule coll_invI)
        (use False w in \<open>auto simp: n2_def key_def k_def d nth_append less_Suc_eq le_Suc_eq simp del: of_nat_Suc\<close>)
    with run False show ?thesis by simp
  qed
qed

text \<open>Receives and arrivals in any order.\<close>

datatype coll_op =
    CollReceive u32 nat
  | CollArrive MessageMeta "byte list"

fun coll_exec :: "node_env \<Rightarrow> NodeRole \<Rightarrow> coll_op \<Rightarrow> abstract_node \<Rightarrow> exn + abstract_node" where
  "coll_exec env nrole (CollReceive r addr) n =
     (case CollectiveReceiveAsync env nrole r (Some addr) n of (Inl e, n') \<Rightarrow> Inl e | (Inr k, n') \<Rightarrow> Inr n')"
| "coll_exec env nrole (CollArrive m bs) n =
     (case RunReceiveCallback (Some m) (Some bs) n of (Inl e, n') \<Rightarrow> Inl e | (Inr u, n') \<Rightarrow> Inr n')"

fun receives :: "coll_op list \<Rightarrow> u32 \<Rightarrow> nat list" where
  "receives [] r = []"
| "receives (CollReceive r' addr # xs) r = (if r' = r then addr # receives xs r else receives xs r)"
| "receives (CollArrive m bs # xs) r = receives xs r"

fun arrived :: "coll_op list \<Rightarrow> u32 \<Rightarrow> byte list list" where
  "arrived [] r = []"
| "arrived (CollReceive r' addr # xs) r = arrived xs r"
| "arrived (CollArrive m bs # xs) r = (if resp_rank m = r then bs # arrived xs r else arrived xs r)"

fun coll_ok :: "node_env \<Rightarrow> NodeRole \<Rightarrow> coll_op \<Rightarrow> bool" where
  "coll_ok env nrole (CollReceive r addr) = ValidateRankId (e_config env) nrole r"
| "coll_ok env nrole (CollArrive m bs) = (0 < length bs \<and> length bs \<le> SECUREC_MEM_MAX_LEN)"

definition addresses :: "coll_op list \<Rightarrow> nat list" where
  "addresses xs = concat (map (\<lambda>x. case x of CollReceive r addr \<Rightarrow> [addr] | CollArrive m bs \<Rightarrow> []) xs)"

lemma receives_append: "receives (xs @ ys) r = receives xs r @ receives ys r"
  by (induction xs r rule: receives.induct) auto

lemma arrived_append: "arrived (xs @ ys) r = arrived xs r @ arrived ys r"
  by (induction xs r rule: arrived.induct) auto

lemma length_receives: "length (receives xs r) \<le> length xs"
  by (induction xs r rule: receives.induct) auto

lemma length_arrived: "length (arrived xs r) \<le> length xs"
  by (induction xs r rule: arrived.induct) auto

lemma set_receives: "set (receives xs r) \<subseteq> set (addresses xs)"
  by (induction xs r rule: receives.induct) (auto simp: addresses_def)

lemma coll_inv_initial: "coll_inv (receives []) (arrived []) new_abstract_node"
  by (auto simp: coll_inv_def new_abstract_node_def node_state.defs)

lemma coll_run_inv:
  assumes "list_all (coll_ok env nrole) xs" "distinct (addresses xs)" "length xs < 2 ^ 64 - 1"
  shows "\<exists>n'. run (coll_exec env nrole) xs new_abstract_node = Inr n' \<and> coll_inv (receives xs) (arrived xs) n'"
  using assms
proof (induction xs rule: rev_induct)
  case Nil
  show ?case by (rule exI [of _ new_abstract_node]) (simp only: run.simps coll_inv_initial simp_thms)
next
  case (snoc x xs)
  then obtain n where n: "run (coll_exec env nrole) xs new_abstract_node = Inr n" "coll_inv (receives xs) (arrived xs) n"
    by (auto simp: addresses_def)
  have small: "length (receives xs r) < 2 ^ 64 - 1" "length (arrived xs r) < 2 ^ 64 - 1" for r
    using length_receives [of xs r] length_arrived [of xs r] snoc.prems(3) by simp_all
  show ?case
  proof (cases x)
    case (CollReceive r addr)
    have fresh: "addr \<notin> set (receives xs r')" for r'
      using set_receives [of xs r'] snoc.prems(2) CollReceive by (auto simp: addresses_def)
    have "ValidateRankId (e_config env) nrole r" using snoc.prems(1) CollReceive by simp
    from coll_inv_receive [OF n(2) small fresh this] obtain n' where
      n': "CollectiveReceiveAsync env nrole r (Some addr) n = (Inr (r, word_of_nat (Suc (length (receives xs r)))), n')"
      "coll_inv ((receives xs)(r := receives xs r @ [addr])) (arrived xs) n'" by blast
    moreover have "(receives xs)(r := receives xs r @ [addr]) = receives (xs @ [x])" "arrived xs = arrived (xs @ [x])"
      by (auto simp: fun_eq_iff receives_append arrived_append CollReceive)
    ultimately show ?thesis using n(1) CollReceive by (simp add: run_append)
  next
    case (CollArrive m bs)
    have "0 < length bs" "length bs \<le> SECUREC_MEM_MAX_LEN" using snoc.prems(1) CollArrive by simp_all
    from coll_inv_arrive [OF n(2) small refl this] obtain n' where
      n': "RunReceiveCallback (Some m) (Some bs) n = (Inr (), n')"
      "coll_inv (receives xs) ((arrived xs)(resp_rank m := arrived xs (resp_rank m) @ [bs])) n'" by blast
    moreover have "(arrived xs)(resp_rank m := arrived xs (resp_rank m) @ [bs]) = arrived (xs @ [x])"
      "receives xs = receives (xs @ [x])"
      by (auto simp: fun_eq_iff receives_append arrived_append CollArrive)
    ultimately show ?thesis using n(1) CollArrive by (simp add: run_append)
  qed
qed

section \<open>Properties\<close>

text \<open>
  C2: collective messages are delivered first in, first out per rank.  For any interleaving of
  receives and arrivals, with distinct output addresses and messages \<open>memcpy_s\<close> accepts, nothing
  throws; the k-th receive from a rank gets the k-th message of that rank once both have happened,
  and its completion flag tells exactly whether that message has arrived.
\<close>

theorem collective_fifo:
  assumes "list_all (coll_ok env nrole) xs" "distinct (addresses xs)" "length xs < 2 ^ 64 - 1"
  shows "\<exists>n. run (coll_exec env nrole) xs new_abstract_node = Inr n \<and>
    (\<forall>r k. k < length (receives xs r) \<longrightarrow>
      map_of (receive_messages_done n) (r, word_of_nat (Suc k)) = Some (k < length (arrived xs r)) \<and>
      (k < length (arrived xs r) \<longrightarrow> map_of (out_one n) (receives xs r ! k) = Some (Some (arrived xs r ! k))))"
proof -
  obtain n where n: "run (coll_exec env nrole) xs new_abstract_node = Inr n" "coll_inv (receives xs) (arrived xs) n"
    using coll_run_inv [OF assms] by blast
  have "map_of (receive_messages_done n) (r, word_of_nat (Suc k)) = Some (k < length (arrived xs r))"
    if "k < length (receives xs r)" for r k
  proof -
    have "unat (word_of_nat (Suc k) :: u64) = Suc k"
      using that length_receives [of xs r] assms(3) by (intro unat_next) simp
    then show ?thesis using coll_invD(5) [OF n(2), of "word_of_nat (Suc k)" r] that by (simp add: Suc_le_eq del: of_nat_Suc)
  qed
  with n coll_invD(6) [OF n(2)] show ?thesis by blast
qed

theorem collective_fifo_witness:
  "\<exists>n. run (coll_exec \<lparr> e_write = (\<lambda>out bs. Some (out @ bs)), e_codecs = sample_codecs,
        e_config = initial_config\<lparr> server_num := 2 \<rparr>, e_inet_addr = (\<lambda>_. 0),
        e_connect = \<lparr> ca_use_pthreads = 0, ca_base_new = True, ca_bev = True, ca_enable = 0, ca_connect = 0 \<rparr>,
        e_uninit = [], e_now = 0, e_others = id \<rparr> SERVER)
      [CollReceive 1 10, CollArrive \<lparr> cmd = COLLECTIVE_SEND_DATA, request_id = 1, role = SERVER, rank_id = 1, user_cmd = 0 \<rparr> [7],
       CollArrive \<lparr> cmd = COLLECTIVE_SEND_DATA, request_id = 2, role = SERVER, rank_id = 1, user_cmd = 0 \<rparr> [8], CollReceive 1 11]
      new_abstract_node = Inr n \<and> map_of (out_one n) 10 = Some (Some [7]) \<and> map_of (out_one n) 11 = Some (Some [8])"
proof -
  define env where "env = \<lparr> e_write = (\<lambda>out bs. Some (out @ bs)), e_codecs = sample_codecs,
    e_config = initial_config\<lparr> server_num := 2 \<rparr>, e_inet_addr = (\<lambda>_. 0),
    e_connect = \<lparr> ca_use_pthreads = 0, ca_base_new = True, ca_bev = True, ca_enable = 0, ca_connect = 0 \<rparr>,
    e_uninit = [], e_now = 0, e_others = id \<rparr>"
  define m where "m = (\<lambda>i. \<lparr> cmd = COLLECTIVE_SEND_DATA, request_id = i, role = SERVER, rank_id = 1, user_cmd = 0 \<rparr>)"
  define xs where "xs = [CollReceive 1 10, CollArrive (m 1) [7], CollArrive (m 2) [8], CollReceive 1 11]"
  have "list_all (coll_ok env SERVER) xs" "distinct (addresses xs)" "length xs < 2 ^ 64 - 1"
    by (simp_all add: xs_def m_def env_def addresses_def ValidateRankId_def initial_config_def SECUREC_MEM_MAX_LEN_def)
  from collective_fifo [OF this] obtain n where n: "run (coll_exec env SERVER) xs new_abstract_node = Inr n"
    "\<And>r k. k < length (receives xs r) \<Longrightarrow> k < length (arrived xs r) \<Longrightarrow>
       map_of (out_one n) (receives xs r ! k) = Some (Some (arrived xs r ! k))" by blast
  have "receives xs 1 = [10, 11]" "arrived xs 1 = [[7], [8]]" by (simp_all add: xs_def m_def resp_rank_def)
  with n(2) [of 0 1] n(2) [of 1 1] have "map_of (out_one n) 10 = Some (Some [7])" "map_of (out_one n) 11 = Some (Some [8])"
    by simp_all
  with n(1) show ?thesis unfolding env_def xs_def m_def by blast
qed

text \<open>
  C26: \<open>Send\<close> to several ranks with an output returns their responses in the order of the ranks.
  While it waits, one response per rank arrives, in any order; then the call returns true and
  appends to the output vector, for each rank asked, the data that rank sent.
\<close>

theorem responses_in_rank_order:
  assumes "list_all (resp_ok (next_request_id n + 1)) xs" "xs \<noteq> []" "length xs < 2 ^ 32"
    and "distinct (map (resp_rank \<circ> fst) xs)" "length ranks = length xs" "length data = length xs"
    and "map_of (receive_messages n) (next_request_id n + 1) = None"
    and sent: "send_loop env (next_request_id n + 1) r command ranks data lens
      (n\<lparr> next_request_id := next_request_id n + 1,
          message_tracker := map_set (next_request_id n + 1) (word_of_nat (length data), 0) (message_tracker n),
          message_callbacks := map_set (next_request_id n + 1) (CollectMany addr ranks (next_request_id n + 1)) (message_callbacks n) \<rparr>)
      = (Inr (), n1)"
    and others: "e_others env = (\<lambda>n. snd (deliver_responses xs n))"
  shows "\<exists>n'. SendManyOutput env r ranks data lens command (Some addr) n = (Inr True, n') \<and>
    map_of (out_many n') addr = Some ((case map_of (out_many n) addr of Some l \<Rightarrow> l | None \<Rightarrow> []) @
      map (map_of (map (\<lambda>(m, bs). (resp_rank m, bs)) xs)) ranks)"
proof -
  define rid where "rid = next_request_id n + 1"
  define n0 where "n0 = n\<lparr> next_request_id := rid,
    message_tracker := map_set rid (word_of_nat (length data), 0) (message_tracker n),
    message_callbacks := map_set rid (CollectMany addr ranks rid) (message_callbacks n) \<rparr>"
  have run: "SendManyOutput env r ranks data lens command (Some addr) n = Wait env rid n1"
    using sent assms(5,6) unfolding rid_def [symmetric] n0_def [symmetric]
    by (simp add: SendManyOutput_def act_bind_def AddMessageTrack_def act_require_def act_return_def
        set_message_callback_def Let_def rid_def [symmetric]) (simp add: n0_def)
  have "same_tables n0 n1"
    using send_loop_same [of n0 env rid r command ranks data lens] sent unfolding rid_def [symmetric] n0_def [symmetric] by simp
  then have n1: "map_of (message_tracker n1) rid = Some (word_of_nat (length xs), 0)"
    "map_of (message_callbacks n1) rid = Some (CollectMany addr ranks rid)" "map_of (receive_messages n1) rid = None"
    "out_many n1 = out_many n"
    using assms(6,7) by (simp_all add: same_tables_def n0_def rid_def)
  obtain n2 where n2: "deliver_responses xs n1 = (Inr (), n2)"
    "map_of (message_tracker n2) rid = Some (word_of_nat (length xs), word_of_nat (length xs))"
    "map_of (out_many n2) addr = Some ((case map_of (out_many n1) addr of Some l \<Rightarrow> l | None \<Rightarrow> []) @
      map (map_of (map (\<lambda>(m, bs). (resp_rank m, bs)) xs)) ranks)"
    using deliver_all [OF assms(1)[folded rid_def] assms(2,3) n1(1-3) assms(4)] by blast
  have "(word_of_nat (length xs) :: u32) \<noteq> 0"
    using assms(2,3) by (simp add: word_unat_eq_iff unat_of_nat)
  then have "Wait env rid n1 = (Inr True, n2\<lparr> message_tracker := map_erase rid (message_tracker n2) \<rparr>)"
    using Wait_tracked [OF n1(1), of env] n2(1,2) others by simp
  with run n2(3) n1(4) show ?thesis by simp
qed

definition sample_env :: "(abstract_node \<Rightarrow> abstract_node) \<Rightarrow> node_env" where
  "sample_env others = \<lparr> e_write = (\<lambda>out bs. Some (out @ bs)), e_codecs = sample_codecs,
     e_config = initial_config\<lparr> server_num := 2 \<rparr>, e_inet_addr = (\<lambda>_. 0),
     e_connect = \<lparr> ca_use_pthreads = 0, ca_base_new = True, ca_bev = True, ca_enable = 0, ca_connect = 0 \<rparr>,
     e_uninit = [], e_now = 50, e_others = others \<rparr>"

definition sample_node :: abstract_node where
  "sample_node = new_abstract_node\<lparr>
     client_to_scheduler := Some ((new_client [] ''127.0.0.1'' 80)\<lparr> cli_out := Some [] \<rparr>),
     connected_nodes := [(0, (new_client [] ''127.0.0.1'' 80)\<lparr> cli_out := Some [] \<rparr>)] \<rparr>"

lemma sample_client_send:
  assumes "length (serialize (c_meta sample_codecs) meta) < 2 ^ 32" "cli_out c = Some out"
  shows "\<exists>c'. TcpClient_SendMessage (\<lambda>out bs. Some (out @ bs)) c (Some (serialize (c_meta sample_codecs) meta)) p (Some bs) =
    Inr (True, c') \<and> cli_out c' \<noteq> None"
  using SendMessage_frame [OF assms(1), of "\<lambda>out bs. Some (out @ bs)" out p bs] assms(2)
  by (simp add: TcpClient_SendMessage_def)

theorem responses_in_rank_order_witness:
  "let m = \<lparr> cmd = SEND_DATA, request_id = 1, role = SERVER, rank_id = 0, user_cmd = 0 \<rparr>
   in \<exists>n'. SendManyOutput (sample_env (\<lambda>n. snd (deliver_responses [(m, [9])] n))) SERVER [0] [Some [5]] [1] 0 (Some 3) sample_node =
        (Inr True, n') \<and> map_of (out_many n') 3 = Some [Some [9]]"
proof -
  define m where "m = \<lparr> cmd = SEND_DATA, request_id = 1, role = SERVER, rank_id = 0, user_cmd = 0 \<rparr>"
  define env where "env = sample_env (\<lambda>n. snd (deliver_responses [(m, [9])] n))"
  define meta where "meta = \<lparr> cmd = SEND_DATA, request_id = 1, role = SCHEDULER, rank_id = 0, user_cmd = 0 \<rparr>"
  define n0 where "n0 = sample_node\<lparr> next_request_id := next_request_id sample_node + 1,
    message_tracker := map_set (next_request_id sample_node + 1) (word_of_nat (length [Some [5 :: byte]]), 0) (message_tracker sample_node),
    message_callbacks := map_set (next_request_id sample_node + 1) (CollectMany 3 [0] (next_request_id sample_node + 1)) (message_callbacks sample_node) \<rparr>"
  have rid: "next_request_id sample_node = 0" "receive_messages sample_node = []" "out_many sample_node = []"
    by (simp_all add: sample_node_def new_abstract_node_def node_state.defs new_node_def)
  have "length (serialize (c_meta sample_codecs) meta) = 13" unfolding meta_def by code_simp
  then have "length (serialize (c_meta sample_codecs) meta) < 2 ^ 32" by simp
  then obtain c' where c': "TcpClient_SendMessage (\<lambda>out bs. Some (out @ bs)) ((new_client [] ''127.0.0.1'' 80)\<lparr> cli_out := Some [] \<rparr>)
      (Some (serialize (c_meta sample_codecs) meta)) (protos_code RAW) (Some [5]) = Inr (True, c')"
    using sample_client_send [of meta "(new_client [] ''127.0.0.1'' 80)\<lparr> cli_out := Some [] \<rparr>" "[]"] by auto
  have node: "map_of (connected_nodes n0) 0 = Some ((new_client [] ''127.0.0.1'' 80)\<lparr> cli_out := Some [] \<rparr>)"
    "(own_meta SEND_DATA n0)\<lparr> request_id := 1, user_cmd := 0 \<rparr> = meta"
    by (simp_all add: n0_def sample_node_def new_abstract_node_def node_state.defs new_node_def own_meta_def default_meta_def
        default_NodeInfo_def meta_def)
  have "send_loop env 1 SERVER 0 [0] [Some [5]] [1] n0 = (Inr (), n0\<lparr> connected_nodes := map_set 0 c' (connected_nodes n0) \<rparr>)"
    using c' node by (simp add: env_def sample_env_def act_bind_def act_require_def act_return_def ValidateRankId_def
        initial_config_def GetOrCreateTcpClient_def data_bytes_def client_send_def)
  then show ?thesis
    using responses_in_rank_order [of sample_node "[(m, [9])]" "[0]" "[Some [5]]" env SERVER 0 "[1]" 3] rid
    unfolding n0_def [symmetric] Let_def m_def [symmetric] env_def [symmetric]
    by (simp add: n0_def [symmetric] resp_ok_def resp_rank_def SECUREC_MEM_MAX_LEN_def) (simp add: env_def sample_env_def m_def)
qed

text \<open>
  \<open>Wait\<close> counts exactly the responses to its request.  After \<open>AddMessageTrack\<close> for a number of
  responses, with arrivals before and during the wait, the wait succeeds if and only if the
  arrivals with this request id reach that number when it looks; arrivals of other requests do not
  matter, and afterwards the request is no longer tracked.
\<close>

theorem wait_counts_responses:
  assumes "AddMessageTrack k n = (Inr rid, n1)"
    and "e_others env = fold NotifyMessageArrival ms'" "arrivals rid (ms @ ms') < 2 ^ 32"
  shows "\<exists>n'. Wait env rid (fold NotifyMessageArrival ms n1) =
      (Inr (unat k = arrivals rid ms \<or> unat k = arrivals rid (ms @ ms')), n') \<and> map_of (message_tracker n') rid = None"
proof -
  have track: "map_of (message_tracker n1) rid = Some (k, 0)"
    using assms(1) by (auto simp: AddMessageTrack_def Let_def)
  have w: "k = word_of_nat j \<longleftrightarrow> unat k = j" if "j < 2 ^ 32" for j
    using that by (auto simp: word_unat_eq_iff unat_of_nat)
  have le: "arrivals rid ms < 2 ^ 32" "arrivals rid (ms @ ms') = arrivals rid ms + arrivals rid ms'"
    using assms(3) by (simp_all add: arrivals_def)
  have before: "map_of (message_tracker (fold NotifyMessageArrival ms n1)) rid = Some (k, word_of_nat (arrivals rid ms))"
    using fold_Notify_tracker [OF track, of ms] by simp
  have after: "map_of (message_tracker (e_others env (fold NotifyMessageArrival ms n1))) rid =
      Some (k, word_of_nat (arrivals rid (ms @ ms')))"
    using fold_Notify_tracker [OF before, of ms'] assms(2) le(2) by simp
  show ?thesis
    using Wait_tracked [OF before after] w [OF le(1)] w [OF assms(3)] by auto
qed

theorem wait_counts_responses_witness:
  "let m = \<lparr> cmd = SEND_DATA, request_id = 1, role = SERVER, rank_id = 0, user_cmd = 0 \<rparr>
   in \<exists>n'. Wait (sample_env (fold NotifyMessageArrival [m\<lparr> request_id := 7 \<rparr>, m])) 1
        (fold NotifyMessageArrival [m] (snd (AddMessageTrack 2 sample_node))) = (Inr True, n')"
proof -
  define m where "m = \<lparr> cmd = SEND_DATA, request_id = 1, role = SERVER, rank_id = 0, user_cmd = 0 \<rparr>"
  have "AddMessageTrack 2 sample_node = (Inr 1, snd (AddMessageTrack 2 sample_node))"
    by (simp add: AddMessageTrack_def Let_def sample_node_def new_abstract_node_def node_state.defs new_node_def)
  from wait_counts_responses [OF this, of "sample_env (fold NotifyMessageArrival [m\<lparr> request_id := 7 \<rparr>, m])"
      "[m\<lparr> request_id := 7 \<rparr>, m]" "[m]"]
  show ?thesis unfolding Let_def m_def [symmetric]
    by (auto simp: sample_env_def) (auto simp: arrivals_def m_def)
qed



lemma SendMessageSync_events:
  assumes "\<And>n. node_events (e_others env n) = node_events n"
  shows "node_events (snd (SendMessageSync env cl meta protos data n)) = node_events n"
proof -
  have wait: "node_events (snd (Wait env rid n)) = node_events n" for rid n
    using assms by (auto simp: Wait_def all_arrived_def split: prod.splits if_splits)
  have send: "node_events n' = node_events n" if "client_send env cl meta protos data n = (x, n')" for cl meta protos data n x n'
    using send_same(6) [of n env cl meta protos data] that by (simp add: same_tables_def)
  show ?thesis
    using wait by (auto simp: SendMessageSync_def act_bind_def act_require_def act_return_def act_throw_def
        AddMessageTrack_def Let_def split: prod.split sum.split dest!: send)
qed

text \<open>
  The heartbeat thread never reports a lost scheduler.  \<open>Heartbeat\<close> returns true also when no
  answer came, so every round that does not throw records the current time as the last sign of the
  scheduler, and no round raises \<open>SCHEDULER_TIMEOUT\<close>, however long the scheduler is silent.
\<close>

theorem scheduler_timeout_never_reported:
  assumes "\<And>n. node_events (e_others env n) = node_events n" "heartbeat_round env cl n = (r, n')"
  shows "node_events n' = node_events n \<and> (r = Inr () \<longrightarrow> scheduler_time n' = e_now env)"
  using assms(2) SendMessageSync_events [OF assms(1), of cl "default_meta HEARTBEAT" PROTOBUF _ n]
  by (auto simp: heartbeat_round_def AbstractNode_Heartbeat_def act_bind_def act_return_def UpdateSchedulerTime_def
      split: prod.splits sum.splits dest: arg_cong [where f = snd]) (metis snd_conv)+

theorem scheduler_timeout_never_reported_witness:
  "let (r, n') = heartbeat_round (sample_env id) ToScheduler sample_node in node_events n' = []"
proof -
  obtain r n' where "heartbeat_round (sample_env id) ToScheduler sample_node = (r, n')"
    by (cases "heartbeat_round (sample_env id) ToScheduler sample_node")
  with scheduler_timeout_never_reported [OF _ this] show ?thesis
    by (simp add: sample_env_def) (simp add: sample_node_def new_abstract_node_def node_state.defs)
qed

end
