(* ===== verification/Cluster_Nodes.thy ===== *)
theory Cluster_Nodes
  imports Abstract_Node
begin

text \<open>
  \<open>WorkerNode\<close> and \<open>ServerNode\<close> of \<open>src/even-http/ps/core\<close>.  A worker has no state of its own; a
  server adds its TCP server and the request handler, which is user code and a parameter.  Joining a
  thread is taken to return: the heartbeat thread ends because \<open>is_finish_\<close> was set, the event
  loops because they were asked to break.
\<close>

section \<open>What both do\<close>

text \<open>\<open>Start\<close> behind \<open>Initialize\<close>.\<close>

definition start_after_init :: "node_env \<Rightarrow> bool act" where
  "start_after_init env =
     act_bind (AbstractNode_Register env ToScheduler) (\<lambda>_ n.
       (case WaitForStart (e_others env) (n\<lparr> heart_beat_thread := True \<rparr>) of (ok, n1) \<Rightarrow>
          if \<not> ok then (Inr False, n1)
          else if \<not> is_timeout n1 then act_bind (FetchServers env ToScheduler) (\<lambda>_. act_return True) n1
          else (Inr True, n1)))"

text \<open>\<open>Stop\<close> of the client to the scheduler and of all other clients; the first argument answers \<open>event_base_got_break\<close>.\<close>

fun stop_clients :: "bool \<Rightarrow> client_statics \<Rightarrow> (int \<times> tcp_client) list \<Rightarrow> exn + (int \<times> tcp_client) list" where
  "stop_clients got_break st [] = Inr []"
| "stop_clients got_break st ((r, c) # cs) =
     (case TcpClient_Stop got_break st c of Inl e \<Rightarrow> Inl e
      | Inr (_, c') \<Rightarrow> map_sum id ((#) (r, c')) (stop_clients got_break st cs))"

definition stop_connections :: "bool \<Rightarrow> unit act" where
  "stop_connections got_break n =
     (if \<not> heart_beat_thread n then (Inl (Undefined ''heart_beat_thread_ is null''), n) else
      case client_to_scheduler n of None \<Rightarrow> (Inl (Undefined ''client_to_scheduler_ is null''), n) | Some c \<Rightarrow>
      case TcpClient_Stop got_break (node_statics n) c of Inl e \<Rightarrow> (Inl e, n) | Inr (_, c') \<Rightarrow>
        let n1 = n\<lparr> client_to_scheduler := Some c' \<rparr> in
        (case stop_clients got_break (node_statics n1) (connected_nodes n1) of Inl e \<Rightarrow> (Inl e, n1) | Inr cs \<Rightarrow>
          let n2 = n1\<lparr> connected_nodes := cs \<rparr> in
          if \<not> client_to_scheduler_thread n2 then (Inl (Undefined ''client_to_scheduler_thread_ is null''), n2)
          else (Inr (), n2)))"

definition node_Finish :: "node_env \<Rightarrow> bool act" where
  "node_Finish env n =
     (if is_already_finished n then (Inr True, n)
      else Disconnect env ToScheduler (n\<lparr> is_already_finished := True \<rparr>))"

section \<open>Worker\<close>

definition worker_Initialize :: "node_env \<Rightarrow> string \<Rightarrow> unit act" where
  "worker_Initialize env uuid =
     act_bind (\<lambda>n. (Inr (), n\<lparr> is_already_stopped := False,
        node_info := (node_info n)\<lparr> node_id := uuid, node_role := WORKER \<rparr> \<rparr>)) (\<lambda>_.
     act_bind AbstractNode_InitCommandHandler (\<lambda>_.
     act_bind (InitClientToScheduler env) (\<lambda>ok. act_require ok ''Worker node init client timeout!'')))"

definition worker_Start :: "node_env \<Rightarrow> string \<Rightarrow> bool act" where
  "worker_Start env uuid = act_bind (worker_Initialize env uuid) (\<lambda>_. start_after_init env)"

definition worker_Stop :: "bool \<Rightarrow> bool act" where
  "worker_Stop got_break n =
     (if is_already_stopped n then (Inr True, n)
      else act_bind (stop_connections got_break) (\<lambda>_ n1. (Inr True, n1\<lparr> is_already_stopped := True \<rparr>))
             (n\<lparr> is_ready := True, is_timeout := True, is_finish := True \<rparr>))"

definition worker_Finish :: "node_env \<Rightarrow> bool act" where
  "worker_Finish env = node_Finish env"

section \<open>Server\<close>

record server_node =
  sv_node :: abstract_node
  sv_server :: "tcp_server option"
  sv_server_thread :: bool
  sv_handler :: bool

text \<open>A request handler of the user: it may answer on the connection and change the node.\<close>

type_synonym request_handler =
  "tcp_connection \<Rightarrow> MessageMeta \<Rightarrow> byte list \<Rightarrow> server_node \<Rightarrow> (exn + tcp_connection) \<times> server_node"

definition new_server_node :: server_node where
  "new_server_node = \<lparr> sv_node = new_abstract_node, sv_server = None, sv_server_thread = False, sv_handler = False \<rparr>"

definition set_handler :: "bool \<Rightarrow> server_node \<Rightarrow> server_node" where
  "set_handler h s = s\<lparr> sv_handler := h \<rparr>"

definition Response ::
  "node_env \<Rightarrow> tcp_connection option \<Rightarrow> MessageMeta option \<Rightarrow> byte list option \<Rightarrow> server_node \<Rightarrow> exn + tcp_connection" where
  "Response env conn meta data s =
     (case conn of None \<Rightarrow> Inl (MsException ''conn is null'') | Some c \<Rightarrow>
      case meta of None \<Rightarrow> Inl (MsException ''meta is null'') | Some m \<Rightarrow>
      case data of None \<Rightarrow> Inl (MsException ''data is null'') | Some bs \<Rightarrow>
      if sv_server s = None then Inl (Undefined ''server_ is null'') else
      let m' = m\<lparr> role := node_role (node_info (sv_node s)), rank_id := sint (node_rank_id (node_info (sv_node s))) \<rparr> in
      map_sum id snd (TcpServer_SendMessage (e_write env) conn (Some (serialize (c_meta (e_codecs env)) m')) (protos_code RAW) data))"

definition ProcessSendData ::
  "request_handler \<Rightarrow> tcp_connection option \<Rightarrow> MessageMeta option \<Rightarrow> byte list option \<Rightarrow> server_node \<Rightarrow> (exn + tcp_connection) \<times> server_node" where
  "ProcessSendData handler conn meta data s =
     (case conn of None \<Rightarrow> (Inl (MsException ''conn is null''), s) | Some c \<Rightarrow>
      case meta of None \<Rightarrow> (Inl (MsException ''meta is null''), s) | Some m \<Rightarrow>
      case data of None \<Rightarrow> (Inl (MsException ''data is null''), s) | Some bs \<Rightarrow>
      case copy_vector bs of Inl e \<Rightarrow> (Inl e, s) | Inr res \<Rightarrow>
        if sv_handler s then handler c m res s else (Inl (MsException ''bad_function_call''), s))"

definition ProcessCollectiveSendData ::
  "node_env \<Rightarrow> tcp_connection option \<Rightarrow> MessageMeta option \<Rightarrow> byte list option \<Rightarrow> server_node \<Rightarrow> exn + tcp_connection" where
  "ProcessCollectiveSendData env conn meta data s =
     (case conn of None \<Rightarrow> Inl (MsException ''conn is null'') | Some c \<Rightarrow>
      case meta of None \<Rightarrow> Inl (MsException ''meta is null'') | Some m \<Rightarrow>
      if sv_server s = None then Inl (Undefined ''server_ is null'') else
      map_sum id snd (TcpServer_SendMessage (e_write env) conn (Some (serialize (c_meta (e_codecs env)) m)) (protos_code RAW) data))"

text \<open>The closure \<open>CreateTcpServer\<close> installs.\<close>

definition server_on_message ::
  "node_env \<Rightarrow> request_handler \<Rightarrow> tcp_connection option \<Rightarrow> MessageMeta \<Rightarrow> byte list option \<Rightarrow> server_node \<Rightarrow>
   (exn + tcp_connection) \<times> server_node" where
  "server_on_message env handler conn meta data s =
     (case cmd meta of
        SEND_DATA \<Rightarrow> ProcessSendData handler conn (Some meta) data s
      | COLLECTIVE_SEND_DATA \<Rightarrow>
          (case ProcessCollectiveSendData env conn (Some meta) data s of Inl e \<Rightarrow> (Inl e, s) | Inr c \<Rightarrow>
            (case RunReceiveCallback (Some meta) data (sv_node s) of
               (Inl e, n) \<Rightarrow> (Inl e, s\<lparr> sv_node := n \<rparr>) | (Inr _, n) \<Rightarrow> (Inr c, s\<lparr> sv_node := n \<rparr>)))
      | _ \<Rightarrow> (Inl (MsException ''The cmd is not supported!''), s))"

text \<open>\<open>if_address\<close> is what \<open>getifaddrs\<close> yields.\<close>

definition server_CreateTcpServer :: "node_env \<Rightarrow> ifaddr list \<Rightarrow> init_answers \<Rightarrow> server_node \<Rightarrow> (exn + unit) \<times> server_node" where
  "server_CreateTcpServer env if_address a s =
     (case GetAvailableInterfaceAndIP if_address of Inl e \<Rightarrow> (Inl e, s) | Inr (interface, server_ip) \<Rightarrow>
      case TcpServer_Init (e_inet_addr env) a (TcpServer_SetMessageCallback True (new_server server_ip 0)) of
        (Inl e, srv) \<Rightarrow> (Inl e, s\<lparr> sv_server := Some srv \<rparr>)
      | (Inr _, srv) \<Rightarrow> (Inr (), s\<lparr> sv_server := Some srv, sv_server_thread := True \<rparr>))"

definition on_node :: "'a act \<Rightarrow> server_node \<Rightarrow> (exn + 'a) \<times> server_node" where
  "on_node f s = (case f (sv_node s) of (r, n) \<Rightarrow> (r, s\<lparr> sv_node := n \<rparr>))"

definition server_Initialize ::
  "node_env \<Rightarrow> ifaddr list \<Rightarrow> init_answers \<Rightarrow> string \<Rightarrow> server_node \<Rightarrow> (exn + unit) \<times> server_node" where
  "server_Initialize env if_address a uuid s =
     (case server_CreateTcpServer env if_address a s of (Inl e, s1) \<Rightarrow> (Inl e, s1) | (Inr _, s1) \<Rightarrow>
      case sv_server s1 of None \<Rightarrow> (Inl (Undefined ''server_ is null''), s1) | Some srv \<Rightarrow>
        on_node (act_bind (\<lambda>n. (Inr (), n\<lparr> is_already_stopped := False, node_info := (node_info n)\<lparr> node_id := uuid,
              node_role := SERVER, ip := srv_address srv, port := srv_port srv \<rparr> \<rparr>)) (\<lambda>_.
          act_bind AbstractNode_InitCommandHandler (\<lambda>_.
          act_bind (InitClientToScheduler env) (\<lambda>ok. act_require ok ''Server node init client timeout!'')))) s1)"

definition server_Start ::
  "node_env \<Rightarrow> ifaddr list \<Rightarrow> init_answers \<Rightarrow> string \<Rightarrow> server_node \<Rightarrow> (exn + bool) \<times> server_node" where
  "server_Start env if_address a uuid s =
     (case server_Initialize env if_address a uuid s of (Inl e, s1) \<Rightarrow> (Inl e, s1)
      | (Inr _, s1) \<Rightarrow> on_node (start_after_init env) s1)"

definition server_Stop :: "bool \<Rightarrow> bool \<Rightarrow> server_node \<Rightarrow> (exn + bool) \<times> server_node" where
  "server_Stop got_break srv_got_break s =
     (if is_already_stopped (sv_node s) then (Inr True, s)
      else case on_node (\<lambda>n. stop_connections got_break (n\<lparr> is_already_stopped := True, is_finish := True \<rparr>)) s of
        (Inl e, s1) \<Rightarrow> (Inl e, s1)
      | (Inr _, s1) \<Rightarrow>
          (case sv_server s1 of None \<Rightarrow> (Inl (Undefined ''server_ is null''), s1) | Some srv \<Rightarrow>
           case TcpServer_Stop srv_got_break srv of Inl e \<Rightarrow> (Inl e, s1) | Inr (_, srv') \<Rightarrow>
             let s2 = s1\<lparr> sv_server := Some srv' \<rparr> in
             if \<not> sv_server_thread s2 then (Inl (Undefined ''server_thread_ is null''), s2) else (Inr True, s2)))"

definition server_Finish :: "node_env \<Rightarrow> server_node \<Rightarrow> (exn + bool) \<times> server_node" where
  "server_Finish env s = on_node (node_Finish env) s"

section \<open>Properties\<close>



text \<open>
  An empty message is refused.  \<open>memcpy_s\<close> rejects a destination of size 0, so a server throws on a
  \<open>SEND_DATA\<close> request without data, before the request handler sees it, and on a collective message
  without data, after it has answered it and counted it for its rank.
\<close>

theorem empty_message_throws:
  "(cmd meta = SEND_DATA \<longrightarrow>
      server_on_message env handler (Some conn) meta (Some []) s = (Inl (MsException ''The memcpy_s error''), s)) \<and>
   (cmd meta = COLLECTIVE_SEND_DATA \<and> ProcessCollectiveSendData env (Some conn) (Some meta) (Some []) s = Inr c \<longrightarrow>
      server_on_message env handler (Some conn) meta (Some []) s =
        (Inl (MsException ''The memcpy_s error''),
         s\<lparr> sv_node := snd (NextActualRankRequestId (word_of_int (rank_id meta)) (sv_node s)) \<rparr>))"
proof -
  have "copy_vector [] = Inl (MsException ''The memcpy_s error'')"
    by (simp add: copy_vector_def memcpy_s_at_def ERANGE_def)
  then show ?thesis
    by (simp add: server_on_message_def ProcessSendData_def RunReceiveCallback_def Let_def split: prod.split)
qed

theorem empty_message_throws_witness:
  "let meta = \<lparr> cmd = SEND_DATA, request_id = 1, role = WORKER, rank_id = 0, user_cmd = 0 \<rparr>
   in server_on_message (sample_env id) (\<lambda>c m bs s. (Inr c, s)) (Some (new_connection [] 5)) meta (Some []) new_server_node =
      (Inl (MsException ''The memcpy_s error''), new_server_node)"
  using empty_message_throws [of "\<lparr> cmd = SEND_DATA, request_id = 1, role = WORKER, rank_id = 0, user_cmd = 0 \<rparr>"
      "sample_env id" "\<lambda>c m bs s. (Inr c, s)" "new_connection [] 5" new_server_node]
  by (simp add: Let_def)

end
