(* ===== verification/Msg_Parser.thy ===== *)
theory Msg_Parser
  imports Tcp_Server
begin

text \<open>
  The message layer of \<open>src/event-tcp\<close>: \<open>msgparser\<close> cuts a stream into length-prefixed messages,
  \<open>client\<close> and \<open>msgclient\<close> connect, send and receive, \<open>server\<close> and \<open>msgserver\<close> keep the connections.
  The answers of libevent and of the socket calls are parameters.
\<close>

section \<open>The parser\<close>

text \<open>What the callback is told: a message, or \<open>(nullptr, 0xFFFFFFFF)\<close> for a wrong magic number.\<close>

datatype msg_event = MsgArrived "byte list" | MsgFormatError

definition MAGIC :: u32 where "MAGIC = 0x372947"

text \<open>A length of \<open>0xFFFFFFFF\<close> says that the header has not been read yet.\<close>

definition NO_LENGTH :: u32 where "NO_LENGTH = 0xFFFFFFFF"

record msgparser =
  mCallback :: bool
  mMagic :: u32
  mLength :: u32
  mBuffer :: "byte list"

definition new_msgparser :: msgparser where
  "new_msgparser = \<lparr> mCallback = False, mMagic = 0, mLength = NO_LENGTH, mBuffer = [] \<rparr>"

definition set_callback :: "bool \<Rightarrow> msgparser \<Rightarrow> msgparser" where
  "set_callback cb s = s\<lparr> mCallback := cb \<rparr>"

text \<open>\<open>ntohl\<close> of four bytes.\<close>

definition be_word :: "byte list \<Rightarrow> u32" where
  "be_word bs = word_of_nat (le_nat (rev bs))"

definition more_to_parse :: "msgparser \<Rightarrow> bool" where
  "more_to_parse s \<longleftrightarrow> length (mBuffer s) \<ge> unat (mLength s) \<or> (mLength s = NO_LENGTH \<and> length (mBuffer s) \<ge> 8)"

definition take_header :: "msgparser \<Rightarrow> msg_event list \<times> msgparser" where
  "take_header s =
     (let magic = be_word (take 4 (mBuffer s)); len = be_word (take 4 (drop 4 (mBuffer s))) in
      (if magic \<noteq> MAGIC \<and> mCallback s then [MsgFormatError] else [],
       s\<lparr> mMagic := magic, mLength := len, mBuffer := drop 8 (mBuffer s) \<rparr>))"

definition take_body :: "msgparser \<Rightarrow> msg_event list \<times> msgparser" where
  "take_body s =
     (if mCallback s then [MsgArrived (take (unat (mLength s)) (mBuffer s))] else [],
      s\<lparr> mBuffer := drop (unat (mLength s)) (mBuffer s), mLength := NO_LENGTH, mMagic := 0 \<rparr>)"

definition parse_step :: "msgparser \<Rightarrow> msg_event list \<times> msgparser" where
  "parse_step s = (if mLength s = NO_LENGTH then take_header s else take_body s)"

definition parse_measure :: "msgparser \<Rightarrow> nat" where
  "parse_measure s = 2 * length (mBuffer s) + (if mLength s = NO_LENGTH then 0 else 1)"

lemma unat_NO_LENGTH: "unat NO_LENGTH = 2 ^ 32 - 1"
  by (simp add: NO_LENGTH_def)

lemma header_available: "more_to_parse s \<Longrightarrow> mLength s = NO_LENGTH \<Longrightarrow> 8 \<le> length (mBuffer s)"
  by (auto simp: more_to_parse_def unat_NO_LENGTH)

lemma parse_step_decreases: "more_to_parse s \<Longrightarrow> parse_measure (snd (parse_step s)) < parse_measure s"
  using header_available [of s]
  by (auto simp: parse_step_def take_header_def take_body_def parse_measure_def Let_def)

function parse_loop :: "msgparser \<Rightarrow> (exn, msgparser, msg_event) rx" where
  "parse_loop s =
     (if more_to_parse s then
        (case parse_step s of (ms, s1) \<Rightarrow> rx_bind (ms, Inr s1) parse_loop)
      else ([], Inr s))"
  by pat_completeness auto
termination
  by (relation "measure parse_measure") (auto dest!: parse_step_decreases split: prod.splits, metis snd_conv)

declare parse_loop.simps [simp del]

definition msg_parse :: "msgparser \<Rightarrow> byte list \<Rightarrow> (exn, msgparser, msg_event) rx" where
  "msg_parse s buffer = parse_loop (s\<lparr> mBuffer := mBuffer s @ buffer \<rparr>)"

section \<open>Senders\<close>

definition be_bytes :: "u32 \<Rightarrow> byte list" where
  "be_bytes w = rev (le_bytes 4 (unat w))"

definition length_header :: "nat \<Rightarrow> byte list" where
  "length_header num = be_bytes MAGIC @ be_bytes (word_of_nat num)"

text \<open>\<open>client\<close>: \<open>cl_out\<close> is the output buffer of \<open>mBufferEvent\<close>, \<open>None\<close> for a null pointer.\<close>

record proto_client =
  cl_base :: bool
  cl_timeout :: bool
  cl_out :: "byte list option"
  cl_out1 :: "byte list option"
  cl_target :: string
  cl_connected_cb :: bool
  cl_disconnected_cb :: bool
  cl_read_cb :: bool
  cl_timeout_cb :: bool
  cl_message_cb :: bool
  cl_parser :: msgparser

definition new_msgclient :: proto_client where
  "new_msgclient = \<lparr> cl_base = False, cl_timeout = False, cl_out = None, cl_out1 = None, cl_target = '''',
     cl_connected_cb = False, cl_disconnected_cb = False, cl_read_cb = False, cl_timeout_cb = False, cl_message_cb = False,
     cl_parser = set_callback True new_msgparser \<rparr>"

definition set_target :: "string \<Rightarrow> proto_client \<Rightarrow> proto_client" where
  "set_target t c = c\<lparr> cl_target := t \<rparr>"

definition set_callbacks :: "bool \<Rightarrow> bool \<Rightarrow> bool \<Rightarrow> bool \<Rightarrow> proto_client \<Rightarrow> proto_client" where
  "set_callbacks conn disconn rd tmo c = c\<lparr> cl_connected_cb := conn, cl_disconnected_cb := disconn, cl_read_cb := rd,
     cl_timeout_cb := tmo \<rparr>"

definition set_message_callback_msg :: "bool \<Rightarrow> proto_client \<Rightarrow> proto_client" where
  "set_message_callback_msg cb c = c\<lparr> cl_message_cb := cb \<rparr>"

text \<open>The number \<open>atoi\<close> reads: white space, an optional sign, then the digits up to the first other character.\<close>

definition digit_value :: "char \<Rightarrow> int" where
  "digit_value ch = int (of_char ch) - 48"

definition is_digit_char :: "char \<Rightarrow> bool" where
  "is_digit_char ch \<longleftrightarrow> 48 \<le> (of_char ch :: nat) \<and> (of_char ch :: nat) \<le> 57"

definition is_space_char :: "char \<Rightarrow> bool" where
  "is_space_char ch \<longleftrightarrow> (of_char ch :: nat) = 32 \<or> (9 \<le> (of_char ch :: nat) \<and> (of_char ch :: nat) \<le> 13)"

definition atoi :: "string \<Rightarrow> int" where
  "atoi str =
     (let t = dropWhile is_space_char str;
          neg = (t \<noteq> [] \<and> hd t = CHR ''-'');
          u = (if t \<noteq> [] \<and> (hd t = CHR ''-'' \<or> hd t = CHR ''+'') then tl t else t);
          n = foldl (\<lambda>n ch. 10 * n + digit_value ch) 0 (takeWhile is_digit_char u)
      in if neg then - n else n)"

definition DEFAULT_PORT :: int where "DEFAULT_PORT = 9000"

definition target_port :: "string \<Rightarrow> 16 word" where
  "target_port target =
     (case dropWhile (\<lambda>ch. ch \<noteq> CHR '':'') target of [] \<Rightarrow> word_of_int DEFAULT_PORT
      | _ # rest \<Rightarrow> word_of_int (atoi rest))"

text \<open>
  \<open>start\<close> and \<open>start1\<close>: \<open>pton\<close> is \<open>evutil_inet_pton\<close>, called on the whole target, and \<open>connect\<close> is
  \<open>bufferevent_socket_connect\<close> with the port.
\<close>

definition client_start ::
  "bool \<Rightarrow> (string \<Rightarrow> int) \<Rightarrow> (16 word \<Rightarrow> int) \<Rightarrow> proto_client \<Rightarrow> (exn + unit) \<times> proto_client" where
  "client_start base_new pton connect c =
     (if cl_out c \<noteq> None then (Inr (), c)
      else let c1 = c\<lparr> cl_base := base_new \<rparr>; prt = target_port (cl_target c1) in
      if pton (cl_target c1) \<noteq> 0 then (Inl (MsException ''errno''), c1)
      else let c2 = c1\<lparr> cl_out := Some [] \<rparr> in
      if connect prt < 0 then (Inl (MsException ''connect''), c2) else (Inr (), c2))"

definition client_start1 :: "(string \<Rightarrow> int) \<Rightarrow> (16 word \<Rightarrow> int) \<Rightarrow> proto_client \<Rightarrow> (exn + unit) \<times> proto_client" where
  "client_start1 pton connect c =
     (if cl_out1 c \<noteq> None then (Inr (), c)
      else let prt = target_port (cl_target c) in
      if pton (cl_target c) \<noteq> 0 then (Inl (MsException ''errno''), c)
      else let c2 = c\<lparr> cl_out1 := Some [] \<rparr> in
      if connect prt < 0 then (Inl (MsException ''connect''), c2) else (Inr (), c2))"

definition start_with_delay :: "bool \<Rightarrow> bool \<Rightarrow> proto_client \<Rightarrow> proto_client" where
  "start_with_delay base_new evtimer_new c =
     (if cl_out c \<noteq> None then c else c\<lparr> cl_base := base_new, cl_timeout := evtimer_new \<rparr>)"

definition client_stop :: "proto_client \<Rightarrow> proto_client" where
  "client_stop c = (if \<not> cl_base c then c else c\<lparr> cl_out := None, cl_timeout := False, cl_base := False \<rparr>)"

definition client_write :: "bev_write \<Rightarrow> byte list \<Rightarrow> proto_client \<Rightarrow> proto_client" where
  "client_write evbuffer_add bs c =
     (case cl_out c of None \<Rightarrow> c
      | Some out \<Rightarrow> (case evbuffer_add out bs of None \<Rightarrow> c | Some out' \<Rightarrow> c\<lparr> cl_out := Some out' \<rparr>))"

definition client_send_msg :: "bev_write \<Rightarrow> byte list \<Rightarrow> proto_client \<Rightarrow> proto_client" where
  "client_send_msg evbuffer_add bs c = client_write evbuffer_add bs (client_write evbuffer_add (length_header (length bs)) c)"

text \<open>A failed start in the timer is swallowed.\<close>

definition timeoutcb :: "bool \<Rightarrow> (string \<Rightarrow> int) \<Rightarrow> (16 word \<Rightarrow> int) \<Rightarrow> proto_client \<Rightarrow> proto_client" where
  "timeoutcb base_new pton connect c = snd (client_start base_new pton connect c)"

datatype client_note = NoteConnected | NoteDisconnected int

definition client_eventcb :: "bool \<Rightarrow> bool \<Rightarrow> bool \<Rightarrow> int \<Rightarrow> proto_client \<Rightarrow> client_note list" where
  "client_eventcb ev_connected ev_error ev_eof err c =
     (if ev_connected then (if cl_connected_cb c then [NoteConnected] else [])
      else if ev_error then (if cl_disconnected_cb c then [NoteDisconnected err] else [])
      else if ev_eof then (if cl_disconnected_cb c then [NoteDisconnected 0] else [])
      else [])"

text \<open>The closure \<open>msgclient\<close> gives its parser: a format error also reaches the message callback.\<close>

definition msgclient_on_event :: "msg_event \<Rightarrow> proto_client \<Rightarrow> client_note list \<times> msg_event list \<times> proto_client" where
  "msgclient_on_event e c =
     (case e of MsgFormatError \<Rightarrow>
        (if cl_disconnected_cb c then [NoteDisconnected 200] else [], if cl_message_cb c then [e] else [], client_stop c)
      | MsgArrived bs \<Rightarrow> ([], if cl_message_cb c then [e] else [], c))"

fun deliver_events :: "msg_event list \<Rightarrow> proto_client \<Rightarrow> client_note list \<times> msg_event list \<times> proto_client" where
  "deliver_events [] c = ([], [], c)"
| "deliver_events (e # es) c =
     (case msgclient_on_event e c of (notes, msgs, c1) \<Rightarrow>
        (case deliver_events es c1 of (notes', msgs', c2) \<Rightarrow> (notes @ notes', msgs @ msgs', c2)))"

text \<open>The parser only collects events, which its closure then sees in order: the closure never touches the parser.\<close>

definition msgclient_on_read :: "byte list \<Rightarrow> proto_client \<Rightarrow> client_note list \<times> msg_event list \<times> proto_client" where
  "msgclient_on_read bs c =
     (case msg_parse (cl_parser c) bs of (es, r) \<Rightarrow>
        deliver_events es (case r of Inr p \<Rightarrow> c\<lparr> cl_parser := p \<rparr> | Inl _ \<Rightarrow> c))"

function client_readcb :: "byte list \<Rightarrow> proto_client \<Rightarrow> client_note list \<times> msg_event list \<times> proto_client" where
  "client_readcb buf c =
     (if length buf > 0 then
        (case msgclient_on_read (take 1024 buf) c of (notes, msgs, c1) \<Rightarrow>
           (case client_readcb (drop 1024 buf) c1 of (notes', msgs', c2) \<Rightarrow> (notes @ notes', msgs @ msgs', c2)))
      else ([], [], c))"
  by pat_completeness auto
termination by (relation "measure (\<lambda>(buf, c). length buf)") auto

declare client_readcb.simps [simp del]

section \<open>The server\<close>

record msgconnection =
  mc_fd :: int
  mc_out :: "byte list"
  mc_parser :: msgparser

record proto_server =
  ps_base :: bool
  ps_signal :: bool
  ps_listener :: bool
  ps_connections :: "(int \<times> msgconnection) list"
  ps_client_conn :: bool
  ps_client_disconn :: bool
  ps_client_accept :: bool
  ps_client_recv :: bool
  ps_message_cb :: bool

definition new_msgserver :: proto_server where
  "new_msgserver = \<lparr> ps_base = False, ps_signal = False, ps_listener = False, ps_connections = [],
     ps_client_conn = False, ps_client_disconn = False, ps_client_accept = False, ps_client_recv = False,
     ps_message_cb = False \<rparr>"

definition free_msgserver :: "proto_server \<Rightarrow> proto_server" where
  "free_msgserver s = s\<lparr> ps_signal := False, ps_listener := False, ps_base := False \<rparr>"

definition server_set_callbacks :: "bool \<Rightarrow> bool \<Rightarrow> bool \<Rightarrow> bool \<Rightarrow> proto_server \<Rightarrow> proto_server" where
  "server_set_callbacks conn disconn accept recv s = s\<lparr> ps_client_conn := conn, ps_client_disconn := disconn,
     ps_client_accept := accept, ps_client_recv := recv \<rparr>"

definition set_msg_callback :: "bool \<Rightarrow> proto_server \<Rightarrow> proto_server" where
  "set_msg_callback cb s = s\<lparr> ps_message_cb := cb \<rparr>"

definition server_setup :: "bool \<Rightarrow> bool \<Rightarrow> proto_server \<Rightarrow> (exn + unit) \<times> proto_server" where
  "server_setup base_new bind s =
     (let s1 = s\<lparr> ps_base := base_new \<rparr> in
      if \<not> base_new then (Inl (MsException ''error_base_failed''), s1)
      else let s2 = s1\<lparr> ps_listener := bind \<rparr> in
      if \<not> bind then (Inl (MsException ''errno''), s2) else (Inr (), s2))"

definition addConnection :: "int \<Rightarrow> msgconnection \<Rightarrow> proto_server \<Rightarrow> proto_server" where
  "addConnection fd c s = (if fd \<in> fst ` set (ps_connections s) then s
     else s\<lparr> ps_connections := map_set fd c (ps_connections s) \<rparr>)"

definition removeConnection :: "int \<Rightarrow> proto_server \<Rightarrow> proto_server" where
  "removeConnection fd s = s\<lparr> ps_connections := map_erase fd (ps_connections s) \<rparr>"

text \<open>\<open>setup\<close> of a connection whose server is a \<open>msgserver\<close> sets the parser's callback.\<close>

definition msgconnection_setup :: "int \<Rightarrow> msgconnection \<Rightarrow> msgconnection" where
  "msgconnection_setup fd c = c\<lparr> mc_fd := fd, mc_out := [], mc_parser := set_callback True (mc_parser c) \<rparr>"

definition on_create_conn :: "msgconnection option \<Rightarrow> proto_server \<Rightarrow> msgconnection option" where
  "on_create_conn accepted s = (if ps_client_accept s then accepted
     else Some \<lparr> mc_fd = 0, mc_out = [], mc_parser = new_msgparser \<rparr>)"

definition listenerCallback :: "bool \<Rightarrow> msgconnection option \<Rightarrow> int \<Rightarrow> proto_server \<Rightarrow> proto_server" where
  "listenerCallback bev accepted fd s =
     (if \<not> bev then s
      else case on_create_conn accepted s of None \<Rightarrow> s
           | Some c \<Rightarrow> addConnection fd (msgconnection_setup fd c) s)"

definition connection_send :: "bev_write \<Rightarrow> byte list \<Rightarrow> msgconnection \<Rightarrow> exn + msgconnection" where
  "connection_send bufferevent_write bs c =
     (case bufferevent_write (mc_out c) bs of None \<Rightarrow> Inl (MsException ''errno'') | Some out \<Rightarrow> Inr (c\<lparr> mc_out := out \<rparr>))"

definition msgconnection_send_msg :: "bev_write \<Rightarrow> byte list \<Rightarrow> msgconnection \<Rightarrow> exn + msgconnection" where
  "msgconnection_send_msg bufferevent_write bs c =
     (case connection_send bufferevent_write (length_header (length bs)) c of Inl e \<Rightarrow> Inl e
      | Inr c' \<Rightarrow> connection_send bufferevent_write bs c')"

definition msgconnection_on_read :: "msgconnection \<Rightarrow> byte list \<Rightarrow> (exn, msgconnection, msg_event) rx" where
  "msgconnection_on_read c bs = rx_bind (msg_parse (mc_parser c) bs) (\<lambda>p. ([], Inr (c\<lparr> mc_parser := p \<rparr>)))"

text \<open>The read callback of a connection; the input buffer is not frozen.\<close>

function msg_read_loop :: "byte list \<Rightarrow> msgconnection \<Rightarrow> (exn, msgconnection, msg_event) rx" where
  "msg_read_loop buf c =
     (if length buf > 0 then
        rx_bind (msgconnection_on_read c (take 1024 buf)) (\<lambda>c'. msg_read_loop (drop 1024 buf) c')
      else ([], Inr c))"
  by pat_completeness auto
termination by (relation "measure (\<lambda>(buf, c). length buf)") auto

declare msg_read_loop.simps [simp del]

definition server_eventCallback :: "bool \<Rightarrow> bool \<Rightarrow> msgconnection \<Rightarrow> proto_server \<Rightarrow> (proto_server \<times> int) list \<times> proto_server" where
  "server_eventCallback ev_eof ev_error c s =
     (let s' = removeConnection (mc_fd c) s in
      if ev_eof then (if ps_client_disconn s then [(s, mc_fd c)] else [], s')
      else if ev_error then (if ps_client_disconn s then [(s', mc_fd c)] else [], s')
      else ([], s))"

text \<open>\<open>send_msg\<close> and \<open>sendToAllClients\<close> stop at the first connection that throws.\<close>

fun send_to_each :: "(msgconnection \<Rightarrow> exn + msgconnection) \<Rightarrow> int list \<Rightarrow> proto_server \<Rightarrow> (exn + unit) \<times> proto_server" where
  "send_to_each send [] s = (Inr (), s)"
| "send_to_each send (fd # fds) s =
     (case map_of (ps_connections s) fd of None \<Rightarrow> send_to_each send fds s
      | Some c \<Rightarrow> (case send c of Inl e \<Rightarrow> (Inl e, s)
          | Inr c' \<Rightarrow> send_to_each send fds (s\<lparr> ps_connections := map_set fd c' (ps_connections s) \<rparr>)))"

definition sendToAllClients_msg :: "bev_write \<Rightarrow> byte list \<Rightarrow> proto_server \<Rightarrow> (exn + unit) \<times> proto_server" where
  "sendToAllClients_msg bufferevent_write bs s =
     send_to_each (connection_send bufferevent_write bs) (sort (map fst (ps_connections s))) s"

definition msgserver_send_msg :: "bev_write \<Rightarrow> byte list \<Rightarrow> proto_server \<Rightarrow> (exn + unit) \<times> proto_server" where
  "msgserver_send_msg bufferevent_write bs s =
     send_to_each (msgconnection_send_msg bufferevent_write bs) (sort (map fst (ps_connections s))) s"

section \<open>The parser works byte by byte\<close>

definition msg_byte :: "msgparser \<Rightarrow> byte \<Rightarrow> (exn, msgparser, msg_event) rx" where
  "msg_byte s b = msg_parse s [b]"

definition settled :: "msgparser \<Rightarrow> bool" where
  "settled s \<longleftrightarrow> \<not> more_to_parse s"

lemma parse_loop_settled: "parse_loop s = (ms, Inr s') \<Longrightarrow> settled s'"
proof (induction s arbitrary: ms rule: parse_loop.induct)
  case (1 s)
  show ?case
  proof (cases "more_to_parse s")
    case True
    obtain ms1 s1 where step: "parse_step s = (ms1, s1)" by (cases "parse_step s")
    have "parse_loop s = rx_bind (ms1, Inr s1) parse_loop"
      using True step by (subst parse_loop.simps) simp
    then have "parse_loop s1 = (fst (parse_loop s1), Inr s')"
      using "1.prems" by (simp add: rx_simps prod_eq_iff)
    with "1.IH" [OF True step [symmetric]] show ?thesis by simp
  next
    case False
    with "1.prems" show ?thesis by (simp add: settled_def parse_loop.simps)
  qed
qed

text \<open>More input does not change a step that can already be made.\<close>

lemma parse_step_extend:
  assumes "more_to_parse s"
  shows "more_to_parse (s\<lparr> mBuffer := mBuffer s @ ys \<rparr>) \<and>
    parse_step (s\<lparr> mBuffer := mBuffer s @ ys \<rparr>) =
      (fst (parse_step s), (snd (parse_step s))\<lparr> mBuffer := mBuffer (snd (parse_step s)) @ ys \<rparr>)"
proof (cases "mLength s = NO_LENGTH")
  case True
  with header_available [OF assms] have "8 \<le> length (mBuffer s)" by simp
  with True show ?thesis
    by (simp add: more_to_parse_def parse_step_def take_header_def Let_def)
next
  case False
  with assms have "unat (mLength s) \<le> length (mBuffer s)" by (auto simp: more_to_parse_def)
  with False show ?thesis by (simp add: more_to_parse_def parse_step_def take_body_def)
qed

lemma parse_loop_append:
  "parse_loop (s\<lparr> mBuffer := mBuffer s @ ys \<rparr>) =
     rx_bind (parse_loop s) (\<lambda>s'. parse_loop (s'\<lparr> mBuffer := mBuffer s' @ ys \<rparr>))"
proof (induction s rule: parse_loop.induct)
  case (1 s)
  show ?case
  proof (cases "more_to_parse s")
    case True
    obtain ms s1 where step: "parse_step s = (ms, s1)" by (cases "parse_step s")
    have "parse_loop (s\<lparr> mBuffer := mBuffer s @ ys \<rparr>) = rx_bind (ms, Inr (s1\<lparr> mBuffer := mBuffer s1 @ ys \<rparr>)) parse_loop"
      using parse_step_extend [OF True, of ys] step by (subst parse_loop.simps) simp
    also have "\<dots> = rx_bind (ms, Inr s1) (\<lambda>s1. parse_loop (s1\<lparr> mBuffer := mBuffer s1 @ ys \<rparr>))"
      by (simp add: rx_simps)
    also have "\<dots> = rx_bind (ms, Inr s1) (\<lambda>s1. rx_bind (parse_loop s1) (\<lambda>s'. parse_loop (s'\<lparr> mBuffer := mBuffer s' @ ys \<rparr>)))"
      using 1 [OF True step [symmetric]] by (simp add: rx_simps step)
    also have "\<dots> = rx_bind (parse_loop s) (\<lambda>s'. parse_loop (s'\<lparr> mBuffer := mBuffer s' @ ys \<rparr>))"
      using True step by (subst (2) parse_loop.simps) (simp add: rx_bind_assoc)
    finally show ?thesis .
  next
    case False
    then show ?thesis by (subst (2) parse_loop.simps) simp
  qed
qed

lemma msg_parse_append: "msg_parse s (xs @ ys) = rx_bind (msg_parse s xs) (\<lambda>s'. msg_parse s' ys)"
  using parse_loop_append [of "s\<lparr> mBuffer := mBuffer s @ xs \<rparr>" ys] by (simp add: msg_parse_def)

lemma msg_parse_Nil: "settled s \<Longrightarrow> msg_parse s [] = ([], Inr s)"
  by (simp add: msg_parse_def settled_def parse_loop.simps)

lemma msg_parse_bytes: "settled s \<Longrightarrow> msg_parse s xs = rx_fold msg_byte s xs"
proof (induction xs arbitrary: s)
  case Nil
  then show ?case by (simp add: msg_parse_Nil)
next
  case (Cons x xs)
  have "msg_parse s (x # xs) = rx_bind (msg_parse s [x]) (\<lambda>s'. msg_parse s' xs)"
    using msg_parse_append [of s "[x]" xs] by simp
  also have "\<dots> = rx_bind (msg_parse s [x]) (\<lambda>s'. rx_fold msg_byte s' xs)"
    by (rule rx_bind_cong_Inr, rule Cons.IH, rule parse_loop_settled, simp only: msg_parse_def)
  also have "\<dots> = rx_fold msg_byte s (x # xs)" by (simp only: rx_fold.simps msg_byte_def)
  finally show ?case .
qed

fun encode_msg :: "msg_event \<Rightarrow> byte list" where
  "encode_msg (MsgArrived bs) = length_header (length bs) @ bs"
| "encode_msg MsgFormatError = []"

fun wf_msg :: "msg_event \<Rightarrow> bool" where
  "wf_msg (MsgArrived bs) = (length bs < 2 ^ 32 - 1)"
| "wf_msg MsgFormatError = False"

definition msg_idle :: "msgparser \<Rightarrow> bool" where
  "msg_idle s \<longleftrightarrow> mCallback s \<and> mLength s = NO_LENGTH \<and> mBuffer s = []"

lemma be_word_be_bytes: "be_word (be_bytes w) = w"
  by (simp only: be_word_def be_bytes_def rev_rev_ident le_nat_u32)

lemma length_be_bytes [simp]: "length (be_bytes w) = 4"
  by (simp add: be_bytes_def)

lemma msg_idle_settled: "msg_idle s \<Longrightarrow> settled s"
  by (simp add: msg_idle_def settled_def more_to_parse_def unat_NO_LENGTH)

lemma parse_header_bytes:
  assumes "msg_idle s"
  shows "parse_loop (s\<lparr> mBuffer := be_bytes magic @ be_bytes len @ bs \<rparr>) =
    rx_bind (if magic \<noteq> MAGIC then [MsgFormatError] else [],
      Inr (s\<lparr> mMagic := magic, mLength := len, mBuffer := bs \<rparr>)) parse_loop"
proof -
  have "parse_step (s\<lparr> mBuffer := be_bytes magic @ be_bytes len @ bs \<rparr>) =
      (if magic \<noteq> MAGIC then [MsgFormatError] else [], s\<lparr> mMagic := magic, mLength := len, mBuffer := bs \<rparr>)"
    using assms by (simp add: parse_step_def take_header_def msg_idle_def Let_def be_word_be_bytes)
  moreover have "more_to_parse (s\<lparr> mBuffer := be_bytes magic @ be_bytes len @ bs \<rparr>)"
    using assms by (simp add: more_to_parse_def msg_idle_def)
  ultimately show ?thesis by (subst parse_loop.simps) simp
qed

lemma parse_body_bytes:
  assumes "mCallback s" "unat len = length bs" "len \<noteq> NO_LENGTH"
  shows "\<exists>s'. msg_idle s' \<and> parse_loop (s\<lparr> mMagic := magic, mLength := len, mBuffer := bs \<rparr>) = ([MsgArrived bs], Inr s')"
proof -
  let ?s = "s\<lparr> mMagic := magic, mLength := len, mBuffer := bs \<rparr>"
  let ?s' = "s\<lparr> mMagic := 0, mLength := NO_LENGTH, mBuffer := [] \<rparr>"
  have idle: "msg_idle ?s'" using assms(1) by (simp add: msg_idle_def)
  have "parse_step ?s = ([MsgArrived bs], ?s')" using assms by (simp add: parse_step_def take_body_def)
  moreover have "more_to_parse ?s" using assms(2) by (simp add: more_to_parse_def)
  moreover have "parse_loop ?s' = ([], Inr ?s')"
    using msg_idle_settled [OF idle] by (simp add: settled_def parse_loop.simps)
  ultimately have "parse_loop ?s = ([MsgArrived bs], Inr ?s')" by (subst parse_loop.simps) (simp add: rx_simps)
  with idle show ?thesis by blast
qed

lemma unat_length: "n < 2 ^ 32 - 1 \<Longrightarrow> unat (word_of_nat n :: u32) = n \<and> word_of_nat n \<noteq> NO_LENGTH"
  by (auto simp: unat_of_nat NO_LENGTH_def word_unat_eq_iff)

lemma msg_encode_step:
  assumes "msg_idle s" "wf_msg m"
  shows "\<exists>s'. msg_idle s' \<and> rx_fold msg_byte s (encode_msg m) = ([m], Inr s')"
proof (cases m)
  case (MsgArrived bs)
  with assms(2) have len: "unat (word_of_nat (length bs) :: u32) = length bs" "(word_of_nat (length bs) :: u32) \<noteq> NO_LENGTH"
    using unat_length [of "length bs"] by simp_all
  have "mCallback s" using assms(1) by (simp add: msg_idle_def)
  from parse_body_bytes [OF this len] obtain s' where s': "msg_idle s'"
    "parse_loop (s\<lparr> mMagic := MAGIC, mLength := word_of_nat (length bs), mBuffer := bs \<rparr>) = ([MsgArrived bs], Inr s')" by blast
  have "rx_fold msg_byte s (encode_msg m) = msg_parse s (encode_msg m)"
    using msg_parse_bytes [OF msg_idle_settled [OF assms(1)]] by simp
  also have "\<dots> = parse_loop (s\<lparr> mBuffer := be_bytes MAGIC @ be_bytes (word_of_nat (length bs)) @ bs \<rparr>)"
    using assms(1) MsgArrived by (simp add: msg_parse_def length_header_def msg_idle_def)
  also have "\<dots> = ([m], Inr s')"
    using parse_header_bytes [OF assms(1)] s'(2) MsgArrived by simp
  finally show ?thesis using s'(1) by blast
qed (use assms(2) in simp)

interpretation msg_rx: framing msg_parse msg_byte "\<lambda>_. True" settled encode_msg wf_msg msg_idle
proof unfold_locales
  show "msg_parse s xs = rx_fold msg_byte s xs" if "settled s" for s xs using that by (rule msg_parse_bytes)
  show "settled s'" if "msg_byte s b = (ms, Inr s')" for s b ms s'
    using that parse_loop_settled by (auto simp: msg_byte_def msg_parse_def)
qed (fact msg_idle_settled msg_encode_step)+

section \<open>Connections\<close>

abbreviation put_mc_parser :: "msgparser \<Rightarrow> msgconnection \<Rightarrow> msgconnection" where
  "put_mc_parser p c \<equiv> c\<lparr> mc_parser := p \<rparr>"

interpretation mc_rx: embedded_parser msg_parse msg_byte "\<lambda>_. True" settled encode_msg wf_msg msg_idle mc_parser put_mc_parser
  by unfold_locales simp_all

lemma msg_read_loop_bytes:
  "settled (mc_parser c) \<Longrightarrow> msg_read_loop buf c = rx_fold (rx_embed mc_parser put_mc_parser msg_byte) c buf"
proof (induction "length buf" arbitrary: buf c rule: less_induct)
  case less
  let ?now = "take 1024 buf" and ?rest = "drop 1024 buf" and ?byte = "rx_embed mc_parser put_mc_parser msg_byte"
  show ?case
  proof (cases "buf = []")
    case True
    then show ?thesis by (simp add: msg_read_loop.simps)
  next
    case False
    then have short: "length ?rest < length buf" by simp
    have now: "msgconnection_on_read c ?now = rx_fold ?byte c ?now"
      using mc_rx.embedded.feed_bytes [OF less.prems, of ?now] by (simp add: msgconnection_on_read_def rx_embed_def)
    have "msg_read_loop buf c = rx_bind (rx_fold ?byte c ?now) (\<lambda>c'. msg_read_loop ?rest c')"
      using False now by (subst msg_read_loop.simps) simp
    also have "\<dots> = rx_bind (rx_fold ?byte c ?now) (\<lambda>c'. rx_fold ?byte c' ?rest)"
      by (rule rx_bind_cong_Inr) (rule less.hyps [OF short], rule mc_rx.embedded.fold_inv [OF less.prems])
    also have "\<dots> = rx_fold ?byte c (?now @ ?rest)" by (simp only: rx_fold_append)
    finally show ?thesis by simp
  qed
qed

lemma client_send_msg_bytes:
  assumes "\<And>out bs. evbuffer_add out bs = Some (out @ bs)" "cl_out c = Some out"
  shows "client_send_msg evbuffer_add bs c = c\<lparr> cl_out := Some (out @ encode_msg (MsgArrived bs)) \<rparr>"
  using assms by (simp add: client_send_msg_def client_write_def)

lemma client_sends_bytes:
  assumes "\<And>out bs. evbuffer_add out bs = Some (out @ bs)" "cl_out c = Some out"
  shows "cl_out (fold (client_send_msg evbuffer_add) bss c) = Some (out @ concat (map (encode_msg \<circ> MsgArrived) bss))"
  using assms(2)
proof (induction bss arbitrary: c out)
  case (Cons bs bss)
  then show ?case by (simp add: client_send_msg_bytes [OF assms(1)] comp_def)
qed simp

section \<open>Properties\<close>

text \<open>
  C17: messages of the message layer survive the wire.  What a client sends with \<open>send_msg\<close> arrives in
  any pieces at a connection of the server; its read callbacks deliver exactly the sent messages, in
  order, and leave the parser idle.  The only length that cannot be sent is \<open>0xFFFFFFFF\<close>, which the
  parser takes for a missing header.
\<close>

theorem msgclient_messages_delivered:
  assumes "\<And>out bs. evbuffer_add out bs = Some (out @ bs)" "cl_out cl = Some []"
    and "list_all (\<lambda>bs. length bs < 2 ^ 32 - 1) bss" "msg_idle (mc_parser c)"
    and "cl_out (fold (client_send_msg evbuffer_add) bss cl) = Some (concat bufs)"
  shows "\<exists>c'. msg_idle (mc_parser c') \<and> rx_fold (\<lambda>c buf. msg_read_loop buf c) c bufs = (map MsgArrived bss, Inr c')"
proof -
  let ?byte = "rx_embed mc_parser put_mc_parser msg_byte"
  have stream: "concat bufs = concat (map encode_msg (map MsgArrived bss))"
    using client_sends_bytes [OF assms(1,2), of bss] assms(5) by simp
  have "rx_fold (\<lambda>c buf. msg_read_loop buf c) c bufs = rx_fold ?byte c (concat bufs)" if "settled (mc_parser c)" for c
    using that
  proof (induction bufs arbitrary: c)
    case (Cons buf bufs)
    have "rx_fold (\<lambda>c buf. msg_read_loop buf c) c (buf # bufs) =
        rx_bind (rx_fold ?byte c buf) (\<lambda>c'. rx_fold (\<lambda>c buf. msg_read_loop buf c) c' bufs)"
      using msg_read_loop_bytes [OF Cons.prems] by simp
    also have "\<dots> = rx_bind (rx_fold ?byte c buf) (\<lambda>c'. rx_fold ?byte c' (concat bufs))"
      by (rule rx_bind_cong_Inr) (rule Cons.IH, rule mc_rx.embedded.fold_inv [OF Cons.prems])
    finally show ?case by (simp add: rx_fold_append)
  qed simp
  moreover
  have "list_all wf_msg (map MsgArrived bss)" using assms(3) by (simp add: list_all_iff)
  from mc_rx.embedded.encoded_bytes [OF assms(4) this]
  obtain c' where "msg_idle (mc_parser c')" "rx_fold ?byte c (concat (map encode_msg (map MsgArrived bss))) = (map MsgArrived bss, Inr c')"
    by blast
  ultimately show ?thesis
    unfolding stream using mc_rx.embedded.idle_inv [OF assms(4)] by auto
qed

theorem msgclient_messages_delivered_witness:
  "\<exists>c'. msg_idle (mc_parser c') \<and>
     rx_fold (\<lambda>c buf. msg_read_loop buf c) (msgconnection_setup 5 \<lparr> mc_fd = 0, mc_out = [], mc_parser = new_msgparser \<rparr>)
       [[0, 0x37, 0x29], [0x47, 0, 0, 0, 2, 7], [8]] = ([MsgArrived [7, 8]], Inr c')"
  using msgclient_messages_delivered [of "\<lambda>out bs. Some (out @ bs)" "new_msgclient\<lparr> cl_out := Some [] \<rparr>" "[[7, 8]]"
      "msgconnection_setup 5 \<lparr> mc_fd = 0, mc_out = [], mc_parser = new_msgparser \<rparr>"
      "[[0, 0x37, 0x29], [0x47, 0, 0, 0, 2, 7], [8]]"]
  by (simp add: client_send_msg_def client_write_def length_header_def be_bytes_def MAGIC_def codec_simps
      msg_idle_def msgconnection_setup_def new_msgparser_def set_callback_def)

text \<open>
  A wrong magic number is reported, but the parser goes on: the bytes behind the bad header are
  delivered as a message of the announced length.
\<close>

lemma bad_magic_still_delivered:
  assumes "msg_idle s" "magic \<noteq> MAGIC" "length bs < 2 ^ 32 - 1"
  shows "fst (msg_parse s (be_bytes magic @ be_bytes (word_of_nat (length bs)) @ bs)) = [MsgFormatError, MsgArrived bs]"
proof -
  have "mCallback s" "mBuffer s = []" using assms(1) by (simp_all add: msg_idle_def)
  with parse_body_bytes [of s "word_of_nat (length bs)" bs magic] unat_length [OF assms(3)]
  obtain s' where "parse_loop (s\<lparr> mMagic := magic, mLength := word_of_nat (length bs), mBuffer := bs \<rparr>) = ([MsgArrived bs], Inr s')"
    by auto
  with parse_header_bytes [OF assms(1), of magic "word_of_nat (length bs)" bs] assms(2) \<open>mBuffer s = []\<close>
  show ?thesis by (simp add: msg_parse_def rx_simps)
qed

text \<open>
  \<open>evutil_inet_pton\<close> returns 1 for a valid address and 0 for any other text, but \<open>start\<close> takes a
  nonzero result for the failure.  A client whose target is an address never gets a connection; one
  whose target is not an address, such as \<open>address:port\<close>, goes on to connect to the zero address at
  the parsed port.
\<close>

theorem client_start_inverted_check:
  assumes "\<And>a. pton a = (if valid a then 1 else 0)" "cl_out c = None"
  shows "client_start base_new pton connect c =
    (if valid (cl_target c) then (Inl (MsException ''errno''), c\<lparr> cl_base := base_new \<rparr>)
     else (if connect (target_port (cl_target c)) < 0 then Inl (MsException ''connect'') else Inr (),
           c\<lparr> cl_base := base_new, cl_out := Some [] \<rparr>))"
  using assms by (simp add: client_start_def)

theorem client_start_inverted_check_witness:
  "fst (client_start True (\<lambda>a. if a = ''127.0.0.1'' then 1 else 0) (\<lambda>p. if p = 9100 then 0 else -1)
      (set_target ''127.0.0.1'' new_msgclient)) = Inl (MsException ''errno'') \<and>
   fst (client_start True (\<lambda>a. if a = ''127.0.0.1'' then 1 else 0) (\<lambda>p. if p = 9100 then 0 else -1)
      (set_target ''127.0.0.1:9100'' new_msgclient)) = Inr ()"
proof -
  have port: "target_port ''127.0.0.1:9100'' = 9100" by code_simp
  show ?thesis
    using client_start_inverted_check [of "\<lambda>a. if a = ''127.0.0.1'' then 1 else 0" "\<lambda>a. a = ''127.0.0.1''"
        "set_target ''127.0.0.1'' new_msgclient" True "\<lambda>p. if p = 9100 then 0 else -1"]
      client_start_inverted_check [of "\<lambda>a. if a = ''127.0.0.1'' then 1 else 0" "\<lambda>a. a = ''127.0.0.1''"
        "set_target ''127.0.0.1:9100'' new_msgclient" True "\<lambda>p. if p = 9100 then 0 else -1"] port
    by (simp add: set_target_def new_msgclient_def)
qed

end
