(* ===== verification/Log_Config.thy ===== *)
theory Log_Config
  imports Comm_Messages
begin

text \<open>
  The log adapter, \<open>log/utils/log_adapter.cc\<close> and \<open>.h\<close> as built with glog: names of exception types
  and submodules, the time stamp and program name of a log line, the exception text, and the
  configuration of the submodules' log levels with its lexer and parser.  The environment, the flags
  of glog and the local time are parameters.  The lexer works on an index into the text; it is shown
  equal to one on suffixes, and the parser to accept exactly the documented grammar.
\<close>

section \<open>Names\<close>

datatype ExceptionType = NoExceptionType | UnknownError | ArgumentError | NotSupportError | NotExistsError
  | AlreadyExistsError | UnavailableError | DeviceProcessError | AbortedError | TimeOutError | ResourceUnavailable
  | NoPermissionError | IndexError | ValueError | TypeError | KeyError | AttributeError

fun ExceptionTypeToString :: "ExceptionType \<Rightarrow> string" where
  "ExceptionTypeToString NoExceptionType = ''UnknownError''"
| "ExceptionTypeToString UnknownError = ''UnknownError''"
| "ExceptionTypeToString ArgumentError = ''ArgumentError''"
| "ExceptionTypeToString NotSupportError = ''NotSupportError''"
| "ExceptionTypeToString NotExistsError = ''NotExistsError''"
| "ExceptionTypeToString AlreadyExistsError = ''AlreadyExistsError''"
| "ExceptionTypeToString UnavailableError = ''UnavailableError''"
| "ExceptionTypeToString DeviceProcessError = ''DeviceProcessError''"
| "ExceptionTypeToString AbortedError = ''AbortedError''"
| "ExceptionTypeToString TimeOutError = ''TimeOutError''"
| "ExceptionTypeToString ResourceUnavailable = ''ResourceUnavailable''"
| "ExceptionTypeToString NoPermissionError = ''NoPermissionError''"
| "ExceptionTypeToString IndexError = ''IndexError''"
| "ExceptionTypeToString ValueError = ''ValueError''"
| "ExceptionTypeToString TypeError = ''TypeError''"
| "ExceptionTypeToString KeyError = ''KeyError''"
| "ExceptionTypeToString AttributeError = ''AttributeError''"

text \<open>The levels \<open>DEBUG\<close> to \<open>EXCEPTION\<close> are the numbers 0 to 4.\<close>

abbreviation LOG_DEBUG :: int where "LOG_DEBUG \<equiv> 0"
abbreviation LOG_WARNING :: int where "LOG_WARNING \<equiv> 2"
abbreviation LOG_ERROR :: int where "LOG_ERROR \<equiv> 3"

definition GetLogLevel :: "int \<Rightarrow> string" where
  "GetLogLevel level = [''DEBUG'', ''INFO'', ''WARNING'', ''ERROR''] ! nat (if level > LOG_ERROR then LOG_ERROR else level)"

definition sub_module_names :: "string list" where
  "sub_module_names =
    [''UNKNOWN'', ''CORE'', ''ANALYZER'', ''COMMON'', ''DEBUG'', ''DEVICE'', ''GE_ADPT'', ''IR'', ''KERNEL'', ''MD'', ''ME'',
     ''ONNX'', ''OPTIMIZER'', ''PARALLEL'', ''PARSER'', ''PIPELINE'', ''PRE_ACT'', ''PYNATIVE'', ''SESSION'', ''UTILS'',
     ''VM'', ''PROFILER'', ''PS'', ''LITE'']"

definition NUM_SUBMODUES :: nat where "NUM_SUBMODUES = 24"

definition GetSubModuleName :: "nat \<Rightarrow> string" where
  "GetSubModuleName module_id = sub_module_names ! (module_id mod NUM_SUBMODUES)"

section \<open>The parts of a log line\<close>

definition digit_char :: "nat \<Rightarrow> char" where
  "digit_char n = char_of (n mod 10 + 48)"

text \<open>The loop of \<open>GetTime\<close> that writes the microseconds \<open>num\<close> from the index \<open>idx\<close> down; \<open>i\<close> counts from 5 to 0.\<close>

fun usec_loop :: "nat \<Rightarrow> nat \<Rightarrow> nat \<Rightarrow> string \<Rightarrow> string" where
  "usec_loop 0 idx num buf = buf[idx := digit_char num, idx - 1 := CHR ''.'']"
| "usec_loop (Suc i) idx num buf =
     (if Suc i mod 3 = 0
      then usec_loop i (idx - 2) (num div 10) (buf[idx := digit_char num, idx - 1 := CHR ''.''])
      else usec_loop i (idx - 1) (num div 10) (buf[idx := digit_char num]))"

text \<open>\<open>stamp\<close> is what \<open>strftime\<close> writes into the static buffer of 80 characters.\<close>

definition c_string :: "string \<Rightarrow> string" where
  "c_string = takeWhile (\<lambda>ch. ch \<noteq> CHR 0x00)"

definition GetTime :: "string \<Rightarrow> nat \<Rightarrow> string \<Rightarrow> string" where
  "GetTime stamp usec buf =
     (let buf1 = stamp @ CHR 0x00 # drop (Suc (length stamp)) buf;
          buf2 = buf1[27 := CHR 0x00]
      in c_string (usec_loop 5 26 usec buf2))"

definition GetProcName :: "string \<Rightarrow> string" where
  "GetProcName app_name =
     (if CHR ''/'' \<notin> set app_name then app_name
      else let base = rev (takeWhile (\<lambda>ch. ch \<noteq> CHR ''/'') (rev app_name)) in
      if base = [] then app_name else base)"

record LocationInfo =
  loc_file :: string
  loc_line :: nat
  loc_func :: string

fun dec :: "nat \<Rightarrow> string" where
  "dec n = (if n < 10 then [digit_char n] else dec (n div 10) @ [digit_char n])"

declare dec.simps [simp del]

text \<open>
  \<open>operator^\<close>: the message is logged, then thrown with its location and, but for the types that have
  an exception of their own, the name of its type.  \<open>trace\<close> is what the trace provider appends; the
  result is the logged text, the call of the exception handler, if one is set, and the thrown text.
\<close>

definition throws_typed :: "ExceptionType \<Rightarrow> bool" where
  "throws_typed t \<longleftrightarrow> t \<noteq> NoExceptionType \<and> t \<noteq> IndexError \<and> t \<noteq> TypeError \<and> t \<noteq> ValueError \<and> t \<noteq> KeyError \<and> t \<noteq> AttributeError"

definition LogWriter_throw ::
  "(string \<Rightarrow> string) option \<Rightarrow> bool \<Rightarrow> LocationInfo \<Rightarrow> ExceptionType \<Rightarrow> string \<Rightarrow> string \<times> (ExceptionType \<times> string) option \<times> exn" where
  "LogWriter_throw trace_provider exception_handler loc t msg =
     (let oss = loc_file loc @ '':'' @ dec (loc_line loc) @ '' '' @ loc_func loc @ ''] ''
                @ (if throws_typed t then ExceptionTypeToString t @ '' '' else []) @ msg;
          oss = (case trace_provider of None \<Rightarrow> oss | Some tp \<Rightarrow> tp oss)
      in (msg, if exception_handler then Some (t, oss) else None, MsException oss))"

section \<open>The lexer of the configuration\<close>

datatype LogConfigToken = INVALID | LEFT_BRACE | RIGHT_BRACE | VARIABLE | NUMBER | COMMA | COLON | EOS

fun g_tok_names :: "LogConfigToken \<Rightarrow> string" where
  "g_tok_names INVALID = ''invalid''"
| "g_tok_names LEFT_BRACE = ''{''"
| "g_tok_names RIGHT_BRACE = ''}''"
| "g_tok_names VARIABLE = ''variable''"
| "g_tok_names NUMBER = ''number''"
| "g_tok_names COMMA = '',''"
| "g_tok_names COLON = '':''"
| "g_tok_names EOS = ''end-of-string''"

definition IsAlpha :: "char \<Rightarrow> bool" where
  "IsAlpha ch \<longleftrightarrow> (65 \<le> (of_char ch :: nat) \<and> (of_char ch :: nat) \<le> 90) \<or> (97 \<le> (of_char ch :: nat) \<and> (of_char ch :: nat) \<le> 122)"

definition IsDigit :: "char \<Rightarrow> bool" where
  "IsDigit ch \<longleftrightarrow> 48 \<le> (of_char ch :: nat) \<and> (of_char ch :: nat) \<le> 57"

definition is_word_char :: "char \<Rightarrow> bool" where
  "is_word_char ch \<longleftrightarrow> IsAlpha ch \<or> IsDigit ch \<or> ch = CHR ''_''"

definition is_blank :: "char \<Rightarrow> bool" where
  "is_blank ch \<longleftrightarrow> ch = CHR '' '' \<or> ch = CHR 0x09"

record LogConfigLexer =
  lex_buffer :: string
  cur_idx :: nat

definition new_lexer :: "string \<Rightarrow> LogConfigLexer" where
  "new_lexer inp = \<lparr> lex_buffer = inp, cur_idx = 0 \<rparr>"

text \<open>\<open>buffer_[i]\<close>; the character behind the last one is the terminating zero.\<close>

definition char_at :: "LogConfigLexer \<Rightarrow> char" where
  "char_at l = (if cur_idx l < length (lex_buffer l) then lex_buffer l ! cur_idx l else CHR 0x00)"

definition advance :: "LogConfigLexer \<Rightarrow> LogConfigLexer" where
  "advance l = l\<lparr> cur_idx := cur_idx l + 1 \<rparr>"

abbreviation in_text :: "LogConfigLexer \<Rightarrow> bool" where
  "in_text l \<equiv> cur_idx l < length (lex_buffer l)"

function SkipWhiteSpace :: "LogConfigLexer \<Rightarrow> char \<times> LogConfigLexer" where
  "SkipWhiteSpace l =
     (if in_text l then (if is_blank (char_at l) then SkipWhiteSpace (advance l) else (char_at l, l))
      else (CHR 0x00, l))"
  by pat_completeness auto
termination
  by (relation "measure (\<lambda>l. length (lex_buffer l) - cur_idx l)") (auto simp: advance_def)

text \<open>The \<open>do\<close> loops that collect a name or a number.\<close>

function collect :: "(char \<Rightarrow> bool) \<Rightarrow> char \<Rightarrow> LogConfigLexer \<Rightarrow> string \<times> LogConfigLexer" where
  "collect p ch l =
     (let l' = advance l in
      if in_text l' \<and> p (char_at l') then (case collect p (char_at l') l' of (str, l'') \<Rightarrow> (ch # str, l''))
      else ([ch], l'))"
  by pat_completeness auto
termination
  by (relation "measure (\<lambda>(p, ch, l). length (lex_buffer l) - cur_idx l)") (auto simp: advance_def)

declare SkipWhiteSpace.simps [simp del] collect.simps [simp del]

definition single_char_map :: "(char \<times> LogConfigToken) list" where
  "single_char_map = [(CHR ''{'', LEFT_BRACE), (CHR ''}'', RIGHT_BRACE), (CHR '','', COMMA), (CHR '':'', COLON), (CHR 0x00, EOS)]"

text \<open>The text is \<open>None\<close> where the output argument is not written.\<close>

definition GetNext :: "LogConfigLexer \<Rightarrow> (LogConfigToken \<times> string option) \<times> LogConfigLexer" where
  "GetNext l =
     (case SkipWhiteSpace l of (ch, l1) \<Rightarrow>
        (case map_of single_char_map ch of Some tok \<Rightarrow> ((tok, Some [ch]), advance l1)
         | None \<Rightarrow>
             if IsAlpha ch then (case collect is_word_char ch l1 of (str, l2) \<Rightarrow> ((VARIABLE, Some str), l2))
             else if IsDigit ch then (case collect IsDigit ch l1 of (str, l2) \<Rightarrow> ((NUMBER, Some str), l2))
             else ((INVALID, None), l1)))"

section \<open>The parser\<close>

type_synonym log_cfg = "(string \<times> string) list"

definition Expect :: "LogConfigToken \<Rightarrow> LogConfigToken \<Rightarrow> bool" where
  "Expect expected tok \<longleftrightarrow> expected = tok"

definition str_of :: "string option \<Rightarrow> string" where
  "str_of t = (case t of None \<Rightarrow> [] | Some u \<Rightarrow> u)"

text \<open>One pass of the \<open>do\<close> loop: \<open>None\<close> where it sets \<open>flag_error\<close>, otherwise the next token.\<close>

definition parse_entry :: "log_cfg \<Rightarrow> LogConfigLexer \<Rightarrow> (log_cfg \<times> LogConfigToken \<times> LogConfigLexer) option" where
  "parse_entry m l0 =
     (case GetNext l0 of ((t1, key), l1) \<Rightarrow> if \<not> Expect VARIABLE t1 then None else
      (case GetNext l1 of ((t2, _), l2) \<Rightarrow> if \<not> Expect COLON t2 then None else
      (case GetNext l2 of ((t3, val), l3) \<Rightarrow> if \<not> Expect NUMBER t3 then None else
      (case GetNext l3 of ((t4, _), l4) \<Rightarrow> Some (map_set (str_of key) (str_of val) m, t4, l4)))))"

text \<open>What is left of the text, and a lexer on it.\<close>

definition rest_of :: "LogConfigLexer \<Rightarrow> string" where
  "rest_of l = drop (cur_idx l) (lex_buffer l)"

definition next_token :: "string \<Rightarrow> (LogConfigToken \<times> string option) \<times> string" where
  "next_token inp =
     (case dropWhile is_blank inp of [] \<Rightarrow> ((EOS, Some [CHR 0x00]), [])
      | ch # r \<Rightarrow>
          (case map_of single_char_map ch of Some tok \<Rightarrow> ((tok, Some [ch]), r)
           | None \<Rightarrow>
               if IsAlpha ch then ((VARIABLE, Some (ch # takeWhile is_word_char r)), dropWhile is_word_char r)
               else if IsDigit ch then ((NUMBER, Some (ch # takeWhile IsDigit r)), dropWhile IsDigit r)
               else ((INVALID, None), ch # r)))"

lemma rest_of_in_text: "in_text l \<Longrightarrow> rest_of l = char_at l # rest_of (advance l)"
  by (simp add: rest_of_def char_at_def advance_def Cons_nth_drop_Suc)

lemma rest_of_end [simp]: "\<not> in_text l \<Longrightarrow> rest_of l = []"
  by (simp add: rest_of_def)

lemma rest_of_new [simp]: "rest_of (new_lexer inp) = inp"
  by (simp add: rest_of_def new_lexer_def)

lemma advance_end [simp]: "\<not> in_text l \<Longrightarrow> rest_of (advance l) = []"
  by (simp add: rest_of_def advance_def)

lemma SkipWhiteSpace_rest:
  "SkipWhiteSpace l = (ch, l1) \<Longrightarrow>
     (case dropWhile is_blank (rest_of l) of [] \<Rightarrow> ch = CHR 0x00 \<and> \<not> in_text l1 | c # r \<Rightarrow> ch = c \<and> in_text l1 \<and> rest_of l1 = c # r)"
proof (induction l rule: SkipWhiteSpace.induct)
  case (1 l)
  show ?case
  proof (cases "in_text l")
    case True
    then have "(if is_blank (char_at l) then SkipWhiteSpace (advance l) else (char_at l, l)) = (ch, l1)"
      using "1.prems" by (simp add: SkipWhiteSpace.simps [of l])
    with "1.IH" True rest_of_in_text [OF True] show ?thesis by (auto split: if_splits)
  next
    case False
    with "1.prems" show ?thesis by (subst (asm) SkipWhiteSpace.simps) auto
  qed
qed

lemma collect_rest:
  "collect p ch l = (str, l') \<Longrightarrow>
     str = ch # takeWhile p (rest_of (advance l)) \<and> rest_of l' = dropWhile p (rest_of (advance l))"
proof (induction p ch l arbitrary: str l' rule: collect.induct)
  case (1 p ch l)
  let ?l = "advance l"
  show ?case
  proof (cases "in_text ?l \<and> p (char_at ?l)")
    case True
    obtain str1 l1 where rec: "collect p (char_at ?l) ?l = (str1, l1)" by fastforce
    with "1.IH" [OF refl True] True "1.prems" rest_of_in_text [of ?l] show ?thesis
      by (auto simp: collect.simps [of p ch l] Let_def)
  next
    case False
    have "rest_of ?l = [] \<or> \<not> p (hd (rest_of ?l)) \<and> rest_of ?l \<noteq> []"
      using False rest_of_in_text [of ?l] by (cases "in_text ?l") auto
    moreover have "(str, l') = ([ch], ?l)"
      using False "1.prems" by (simp only: collect.simps [of p ch l] Let_def if_False)
    ultimately show ?thesis by (cases "rest_of ?l") auto
  qed
qed

theorem GetNext_next_token: "next_token (rest_of l) = (fst (GetNext l), rest_of (snd (GetNext l)))"
proof -
  obtain ch l1 where sk: "SkipWhiteSpace l = (ch, l1)" by fastforce
  obtain w lw where w: "collect is_word_char ch l1 = (w, lw)" by fastforce
  obtain d ld where d: "collect IsDigit ch l1 = (d, ld)" by fastforce
  note facts = SkipWhiteSpace_rest [OF sk] collect_rest [OF w] collect_rest [OF d]
  show ?thesis
  proof (cases "in_text l1")
    case True
    from facts(1) True have drp: "dropWhile is_blank (rest_of l) = ch # rest_of (advance l1)"
      using rest_of_in_text [OF True] by (auto split: list.splits)
    with facts sk w d rest_of_in_text [OF True] show ?thesis
      by (auto simp: next_token_def GetNext_def split: option.splits)
  next
    case False
    with facts(1) have "dropWhile is_blank (rest_of l) = []" "ch = CHR 0x00" by (auto split: list.splits)
    with sk False show ?thesis by (simp add: next_token_def GetNext_def single_char_map_def del: dropWhile_eq_Nil_conv)
  qed
qed

lemma next_token_shrinks: "next_token inp = ((tok, t), r) \<Longrightarrow> length r \<le> length inp"
  using length_dropWhile_le [of is_blank inp]
  by (auto simp: next_token_def split: list.splits option.splits if_splits
      intro: le_trans [OF length_dropWhile_le])

lemma next_token_single:
  "next_token inp = ((tok, t), r) \<Longrightarrow> tok = COMMA \<Longrightarrow> length r < length inp"
  using length_dropWhile_le [of is_blank inp]
  by (auto simp: next_token_def single_char_map_def split: list.splits option.splits if_splits)

lemma GetNext_token: "GetNext l = (x, l') \<Longrightarrow> next_token (rest_of l) = (x, rest_of l')"
  using GetNext_next_token [of l] by simp

lemma parse_entry_shrinks: "parse_entry m l = Some (m', COMMA, l') \<Longrightarrow> length (rest_of l') < length (rest_of l)"
  by (fastforce simp: parse_entry_def split: prod.splits if_splits
      dest!: GetNext_token dest: next_token_shrinks next_token_single)

function entries_loop :: "log_cfg \<Rightarrow> LogConfigLexer \<Rightarrow> (log_cfg \<times> LogConfigToken) option" where
  "entries_loop m l =
     (case parse_entry m l of None \<Rightarrow> None
      | Some (m', tok, l') \<Rightarrow> if tok = COMMA then entries_loop m' l' else Some (m', tok))"
  by pat_completeness auto
termination
  by (relation "measure (\<lambda>(m, l). length (rest_of l))") (auto dest: parse_entry_shrinks)

declare entries_loop.simps [simp del]

definition Parse :: "string \<Rightarrow> log_cfg" where
  "Parse cfg =
     (case GetNext (new_lexer cfg) of ((tok, _), l1) \<Rightarrow>
        if tok = EOS then []
        else if \<not> Expect LEFT_BRACE tok then []
        else case entries_loop [] l1 of None \<Rightarrow> []
             | Some (log_levels, tok') \<Rightarrow> if Expect RIGHT_BRACE tok' then log_levels else [])"

section \<open>Log levels of the submodules\<close>

definition ParseLogLevel :: "string \<Rightarrow> int option" where
  "ParseLogLevel str_level =
     (if length str_level = 1 then
        (let ch = int (of_char (hd str_level)) - 48 in if LOG_DEBUG \<le> ch \<and> ch \<le> LOG_ERROR then Some ch else None)
      else None)"

text \<open>The search for the index of a submodule.\<close>

definition find_module :: "string \<Rightarrow> nat option" where
  "find_module nm = List.find (\<lambda>i. nm = GetSubModuleName i) [0..<NUM_SUBMODUES]"

definition apply_level :: "string \<times> string \<Rightarrow> int list \<Rightarrow> int list" where
  "apply_level cfg levels =
     (case find_module (fst cfg) of None \<Rightarrow> levels
      | Some mod_idx \<Rightarrow> (case ParseLogLevel (snd cfg) of None \<Rightarrow> levels | Some lv \<Rightarrow> levels[mod_idx := lv]))"

text \<open>\<open>flags_v\<close> is glog's level; the keys of the configuration are distinct, so that their order is irrelevant.\<close>

definition InitSubModulesLogLevel :: "int \<Rightarrow> string \<Rightarrow> int list" where
  "InitSubModulesLogLevel flags_v submodule = fold apply_level (Parse submodule) (replicate NUM_SUBMODUES flags_v)"

definition GetEnv :: "(string \<Rightarrow> string option) \<Rightarrow> string \<Rightarrow> string" where
  "GetEnv getenv envvar = (case getenv envvar of None \<Rightarrow> [] | Some v \<Rightarrow> v)"

record glog_flags =
  FLAGS_log_prefix :: bool
  FLAGS_v :: int
  FLAGS_logfile_mode :: nat
  FLAGS_logtostderr :: bool
  submodule_log_levels :: "int list"

definition common_log_init :: "(string \<Rightarrow> string option) \<Rightarrow> glog_flags \<Rightarrow> glog_flags" where
  "common_log_init getenv g =
     (let g1 = g\<lparr> FLAGS_log_prefix := False \<rparr>;
          g2 = (if GetEnv getenv ''GLOG_v'' = [] then g1\<lparr> FLAGS_v := LOG_WARNING \<rparr> else g1);
          g3 = (if GetEnv getenv ''GLOG_logfile_mode'' = [] then g2\<lparr> FLAGS_logfile_mode := 416 \<rparr> else g2);
          logtostderr = GetEnv getenv ''GLOG_logtostderr'';
          g4 = (if logtostderr = [] then g3\<lparr> FLAGS_logtostderr := True \<rparr>
                else if logtostderr = ''0'' \<and> GetEnv getenv ''GLOG_log_dir'' = [] then g3\<lparr> FLAGS_logtostderr := True \<rparr>
                else g3)
      in g4\<lparr> submodule_log_levels := InitSubModulesLogLevel (FLAGS_v g4) (GetEnv getenv ''MS_SUBMODULE_LOG_v'') \<rparr>)"

definition IS_OUTPUT_ON :: "nat \<Rightarrow> int \<Rightarrow> glog_flags \<Rightarrow> bool" where
  "IS_OUTPUT_ON submodule level g \<longleftrightarrow> submodule_log_levels g ! submodule \<le> level"

section \<open>The grammar\<close>

definition blanks :: "string \<Rightarrow> bool" where
  "blanks w \<longleftrightarrow> list_all is_blank w"

fun is_name :: "string \<Rightarrow> bool" where
  "is_name [] = False"
| "is_name (ch # k) = (IsAlpha ch \<and> list_all is_word_char k)"

definition is_number :: "string \<Rightarrow> bool" where
  "is_number v \<longleftrightarrow> v \<noteq> [] \<and> list_all IsDigit v"

text \<open>An entry \<open>name : number\<close> with the blanks around its parts.\<close>

record cfg_entry =
  e_before :: string
  e_name :: string
  e_colon :: "string \<times> string"
  e_level :: string
  e_after :: string

definition entry_text :: "cfg_entry \<Rightarrow> string" where
  "entry_text e = e_before e @ e_name e @ fst (e_colon e) @ '':'' @ snd (e_colon e) @ e_level e @ e_after e"

definition wf_entry :: "cfg_entry \<Rightarrow> bool" where
  "wf_entry e \<longleftrightarrow> blanks (e_before e) \<and> is_name (e_name e) \<and> blanks (fst (e_colon e)) \<and> blanks (snd (e_colon e))
     \<and> is_number (e_level e) \<and> blanks (e_after e)"

fun entries_text :: "cfg_entry list \<Rightarrow> string" where
  "entries_text [] = []"
| "entries_text [e] = entry_text e"
| "entries_text (e # es) = entry_text e @ '','' @ entries_text es"

definition entries_map :: "cfg_entry list \<Rightarrow> log_cfg \<Rightarrow> log_cfg" where
  "entries_map = fold (\<lambda>e. map_set (e_name e) (e_level e))"

lemma char_classes:
  "is_blank ch \<Longrightarrow> \<not> is_word_char ch" "IsAlpha ch \<Longrightarrow> map_of single_char_map ch = None" "IsDigit ch \<Longrightarrow> map_of single_char_map ch = None"
  "IsAlpha ch \<Longrightarrow> \<not> is_blank ch" "IsDigit ch \<Longrightarrow> \<not> is_blank ch" "IsDigit ch \<Longrightarrow> is_word_char ch" "IsDigit ch \<Longrightarrow> \<not> IsAlpha ch"
  "map_of single_char_map ch = Some tok \<Longrightarrow> \<not> is_word_char ch \<and> \<not> is_blank ch"
  by (auto simp: is_blank_def is_word_char_def IsAlpha_def IsDigit_def single_char_map_def split: if_splits)

lemma drop_blanks: "blanks w \<Longrightarrow> dropWhile is_blank (w @ r) = dropWhile is_blank r"
  by (induction w) (auto simp: blanks_def)

lemma drop_blanks_Cons: "blanks w \<Longrightarrow> \<not> is_blank ch \<Longrightarrow> dropWhile is_blank (w @ ch # r) = ch # r"
  by (simp add: drop_blanks)

lemma split_blanks: "dropWhile is_blank s = r \<Longrightarrow> \<exists>w. blanks w \<and> s = w @ r"
  using takeWhile_dropWhile_id [of is_blank s] set_takeWhileD [of _ is_blank s]
  by (auto simp: blanks_def list_all_iff intro!: exI [of _ "takeWhile is_blank s"])

text \<open>A text behind which a name or number ends.\<close>

definition ends_word :: "string \<Rightarrow> bool" where
  "ends_word r \<longleftrightarrow> (case r of [] \<Rightarrow> True | ch # _ \<Rightarrow> \<not> is_word_char ch)"

lemma ends_word_blanks: "blanks w \<Longrightarrow> ends_word r \<Longrightarrow> ends_word (w @ r)"
  by (cases w) (auto simp: ends_word_def blanks_def char_classes)

lemma ends_word_single: "map_of single_char_map ch = Some tok \<Longrightarrow> ends_word (ch # r)"
  by (simp add: ends_word_def char_classes)

lemma next_token_char:
  "blanks w \<Longrightarrow> map_of single_char_map ch = Some tok \<Longrightarrow> next_token (w @ ch # r) = ((tok, Some [ch]), r)"
  by (simp add: next_token_def drop_blanks_Cons char_classes)

lemma take_all: "list_all p k \<Longrightarrow> (case r of [] \<Rightarrow> True | ch # _ \<Rightarrow> \<not> p ch) \<Longrightarrow> takeWhile p (k @ r) = k \<and> dropWhile p (k @ r) = r"
  by (induction k) (auto split: list.splits)

lemma next_token_name:
  assumes "blanks w" "is_name k" "ends_word r"
  shows "next_token (w @ k @ r) = ((VARIABLE, Some k), r)"
proof -
  obtain ch k' where "k = ch # k'" "IsAlpha ch" "list_all is_word_char k'" using assms(2) by (cases k) auto
  with assms take_all [of is_word_char k' r] show ?thesis
    by (simp add: next_token_def drop_blanks_Cons char_classes ends_word_def)
qed

lemma next_token_number:
  assumes "blanks w" "is_number v" "ends_word r"
  shows "next_token (w @ v @ r) = ((NUMBER, Some v), r)"
proof -
  obtain ch v' where v: "v = ch # v'" "IsDigit ch" "list_all IsDigit v'" using assms(2) by (cases v) (auto simp: is_number_def)
  have "case r of [] \<Rightarrow> True | ch # _ \<Rightarrow> \<not> IsDigit ch" using assms(3) by (auto simp: ends_word_def char_classes split: list.splits)
  from take_all [OF v(3) this] v assms(1) show ?thesis
    by (simp add: next_token_def drop_blanks_Cons char_classes)
qed

lemma single_tokens: "map_of single_char_map c = Some tok \<Longrightarrow> tok \<noteq> VARIABLE \<and> tok \<noteq> NUMBER \<and> tok \<noteq> INVALID"
  by (auto simp: single_char_map_def split: if_splits)

lemma single_inj: "map_of single_char_map c = Some tok \<Longrightarrow> map_of single_char_map d = Some tok \<Longrightarrow> c = d"
  by (auto simp: single_char_map_def split: if_splits)

lemma next_token_first:
  assumes "next_token s = ((tok, t), r)" "tok \<noteq> EOS"
  obtains w c u where "blanks w" "s = w @ c # u" "((tok, t), r) = (case map_of single_char_map c of Some tok \<Rightarrow> ((tok, Some [c]), u)
           | None \<Rightarrow>
               if IsAlpha c then ((VARIABLE, Some (c # takeWhile is_word_char u)), dropWhile is_word_char u)
               else if IsDigit c then ((NUMBER, Some (c # takeWhile IsDigit u)), dropWhile IsDigit u)
               else ((INVALID, None), c # u))"
proof (cases "dropWhile is_blank s")
  case Nil
  with assms show thesis by (simp add: next_token_def del: dropWhile_eq_Nil_conv)
next
  case (Cons c u)
  obtain w where "blanks w" "s = w @ c # u" using split_blanks [OF Cons] by blast
  then show thesis
    by (rule that) (use assms(1) Cons in \<open>simp add: next_token_def\<close>)
qed

lemma list_all_takeWhile: "list_all p (takeWhile p u)"
  by (induction u) auto

lemma next_token_VARIABLE:
  assumes "next_token s = ((VARIABLE, t), r)"
  shows "\<exists>w k. blanks w \<and> is_name k \<and> t = Some k \<and> s = w @ k @ r"
proof -
  obtain w c u where w: "blanks w" "s = w @ c # u" "IsAlpha c" "t = Some (c # takeWhile is_word_char u)" "r = dropWhile is_word_char u"
    using assms by (rule next_token_first) (auto dest: single_tokens split: option.splits if_splits)
  then show ?thesis
    by (intro exI [of _ w] exI [of _ "c # takeWhile is_word_char u"]) (simp add: list_all_takeWhile)
qed

lemma next_token_NUMBER:
  assumes "next_token s = ((NUMBER, t), r)"
  shows "\<exists>w v. blanks w \<and> is_number v \<and> t = Some v \<and> s = w @ v @ r"
proof -
  obtain w c u where w: "blanks w" "s = w @ c # u" "IsDigit c" "t = Some (c # takeWhile IsDigit u)" "r = dropWhile IsDigit u"
    using assms by (rule next_token_first) (auto dest: single_tokens split: option.splits if_splits)
  then show ?thesis
    by (intro exI [of _ w] exI [of _ "c # takeWhile IsDigit u"]) (simp add: is_number_def list_all_takeWhile)
qed

lemma next_token_SINGLE:
  assumes "next_token s = ((tok, t), r)" "map_of single_char_map ch = Some tok" "tok \<noteq> EOS"
  shows "\<exists>w. blanks w \<and> s = w @ ch # r"
proof -
  obtain w c u where w: "blanks w" "s = w @ c # u" "map_of single_char_map c = Some tok" "r = u"
    using assms(1,3) by (rule next_token_first)
      (use single_tokens [OF assms(2)] in \<open>auto split: option.splits if_splits\<close>)
  with single_inj [OF w(3) assms(2)] show ?thesis by auto
qed

lemma token_obtain:
  assumes "next_token (rest_of l) = (x, r)"
  obtains l' where "GetNext l = (x, l')" "rest_of l' = r"
  using GetNext_next_token [of l] assms by (cases "GetNext l") auto

text \<open>An entry is read exactly where the text starts with one.\<close>

lemma parse_entry_accepts:
  assumes "wf_entry e" "rest_of l = entry_text e @ ch # r" "map_of single_char_map ch = Some tok"
  obtains l' where "parse_entry m l = Some (map_set (e_name e) (e_level e) m, tok, l')" "rest_of l' = r"
proof -
  note wf = assms(1) [unfolded wf_entry_def]
  let ?r3 = "e_after e @ ch # r" let ?r1 = "fst (e_colon e) @ CHR '':'' # snd (e_colon e) @ e_level e @ ?r3"
  have colon: "map_of single_char_map (CHR '':'') = Some COLON" by (simp add: single_char_map_def)
  have e3: "ends_word ?r3" using wf by (intro ends_word_blanks ends_word_single [OF assms(3)]) simp
  have e1: "ends_word ?r1" using wf by (intro ends_word_blanks ends_word_single [OF colon]) simp
  have "next_token (rest_of l) = ((VARIABLE, Some (e_name e)), ?r1)"
    using assms(2) next_token_name [of "e_before e" "e_name e" ?r1] e1 wf by (simp add: entry_text_def)
  then obtain l1 where l1: "GetNext l = ((VARIABLE, Some (e_name e)), l1)" "rest_of l1 = ?r1" by (rule token_obtain)
  then have "next_token (rest_of l1) = ((COLON, Some '':''), snd (e_colon e) @ e_level e @ ?r3)"
    using next_token_char [OF _ colon] wf by simp
  then obtain l2 where l2: "GetNext l1 = ((COLON, Some '':''), l2)" "rest_of l2 = snd (e_colon e) @ e_level e @ ?r3" by (rule token_obtain)
  then have "next_token (rest_of l2) = ((NUMBER, Some (e_level e)), ?r3)"
    using next_token_number [OF _ _ e3] wf by simp
  then obtain l3 where l3: "GetNext l2 = ((NUMBER, Some (e_level e)), l3)" "rest_of l3 = ?r3" by (rule token_obtain)
  then have "next_token (rest_of l3) = ((tok, Some [ch]), r)" using next_token_char [OF _ assms(3)] wf by simp
  then obtain l4 where l4: "GetNext l3 = ((tok, Some [ch]), l4)" "rest_of l4 = r" by (rule token_obtain)
  show thesis
    by (rule that [OF _ l4(2)]) (simp add: parse_entry_def l1(1) l2(1) l3(1) l4(1) Expect_def str_of_def)
qed

lemma parse_entry_inv:
  assumes "parse_entry m l = Some (m', tok, l')" "map_of single_char_map ch = Some tok" "tok \<noteq> EOS"
  obtains e where "wf_entry e" "rest_of l = entry_text e @ ch # rest_of l'" "m' = map_set (e_name e) (e_level e) m"
proof -
  from assms(1) obtain key c val u l1 l2 l3 where
    g: "GetNext l = ((VARIABLE, key), l1)" "GetNext l1 = ((COLON, c), l2)" "GetNext l2 = ((NUMBER, val), l3)" "GetNext l3 = ((tok, u), l')"
    and m': "m' = map_set (str_of key) (str_of val) m"
    by (auto simp: parse_entry_def Expect_def split: prod.splits if_splits)
  from next_token_VARIABLE [OF GetNext_token [OF g(1)]] obtain w1 k where
    1: "blanks w1" "is_name k" "key = Some k" "rest_of l = w1 @ k @ rest_of l1" by auto
  from next_token_SINGLE [OF GetNext_token [OF g(2)], of "CHR '':''"] obtain w2 where
    2: "blanks w2" "rest_of l1 = w2 @ CHR '':'' # rest_of l2" by (auto simp: single_char_map_def)
  from next_token_NUMBER [OF GetNext_token [OF g(3)]] obtain w3 v where
    3: "blanks w3" "is_number v" "val = Some v" "rest_of l2 = w3 @ v @ rest_of l3" by auto
  from next_token_SINGLE [OF GetNext_token [OF g(4)] assms(2,3)] obtain w4 where
    4: "blanks w4" "rest_of l3 = w4 @ ch # rest_of l'" by auto
  let ?e = "\<lparr> e_before = w1, e_name = k, e_colon = (w2, w3), e_level = v, e_after = w4 \<rparr>"
  show thesis
    by (rule that [of ?e]) (use 1 2 3 4 m' in \<open>simp_all add: wf_entry_def entry_text_def str_of_def\<close>)
qed

abbreviation brace_tokens :: bool where
  "brace_tokens \<equiv> map_of single_char_map (CHR ''}'') = Some RIGHT_BRACE \<and> map_of single_char_map (CHR '','') = Some COMMA
    \<and> map_of single_char_map (CHR ''{'') = Some LEFT_BRACE"

lemma brace_tokens: brace_tokens
  by (simp add: single_char_map_def)

lemma entries_loop_accepts:
  "es \<noteq> [] \<Longrightarrow> list_all wf_entry es \<Longrightarrow> rest_of l = entries_text es @ ''}'' @ junk \<Longrightarrow>
     entries_loop m l = Some (entries_map es m, RIGHT_BRACE)"
proof (induction es arbitrary: m l rule: entries_text.induct)
  case (2 e)
  then obtain l' where "parse_entry m l = Some (map_set (e_name e) (e_level e) m, RIGHT_BRACE, l')"
    using parse_entry_accepts [of e l "CHR ''}''" junk RIGHT_BRACE m] brace_tokens by auto
  then show ?case by (simp add: entries_loop.simps [of m l] entries_map_def)
next
  case (3 e e' es)
  then obtain l' where "parse_entry m l = Some (map_set (e_name e) (e_level e) m, COMMA, l')"
    "rest_of l' = entries_text (e' # es) @ ''}'' @ junk"
    using parse_entry_accepts [of e l "CHR '',''" "entries_text (e' # es) @ ''}'' @ junk" COMMA m] brace_tokens by auto
  with 3 show ?case by (simp add: entries_loop.simps [of m l] entries_map_def)
qed simp

lemma entries_loop_inv:
  "entries_loop m l = Some (m', RIGHT_BRACE) \<Longrightarrow>
     \<exists>es junk. es \<noteq> [] \<and> list_all wf_entry es \<and> rest_of l = entries_text es @ ''}'' @ junk \<and> m' = entries_map es m"
proof (induction m l rule: entries_loop.induct)
  case (1 m l)
  from "1.prems" obtain m1 tok l1 where p: "parse_entry m l = Some (m1, tok, l1)"
    and k: "(if tok = COMMA then entries_loop m1 l1 else Some (m1, tok)) = Some (m', RIGHT_BRACE)"
    by (auto simp: entries_loop.simps [of m l] split: option.splits)
  show ?case
  proof (cases "tok = COMMA")
    case True
    with p brace_tokens obtain e where e: "wf_entry e" "rest_of l = entry_text e @ CHR '','' # rest_of l1" "m1 = map_set (e_name e) (e_level e) m"
      by (auto elim: parse_entry_inv)
    from "1.IH" [OF p refl refl True] k True obtain es junk where
      es: "es \<noteq> []" "list_all wf_entry es" "rest_of l1 = entries_text es @ ''}'' @ junk" "m' = entries_map es m1" by auto
    then obtain e' es' where "es = e' # es'" by (cases es) auto
    with e es show ?thesis by (intro exI [of _ "e # es"] exI [of _ junk]) (simp add: entries_map_def)
  next
    case False
    with p k brace_tokens obtain e where "wf_entry e" "rest_of l = entry_text e @ CHR ''}'' # rest_of l1" "m1 = map_set (e_name e) (e_level e) m"
      by (auto elim: parse_entry_inv)
    with False k show ?thesis by (intro exI [of _ "[e]"] exI [of _ "rest_of l1"]) (simp add: entries_map_def)
  qed
qed

section \<open>Properties\<close>

lemma entries_map_not_Nil: "es \<noteq> [] \<Longrightarrow> entries_map es m \<noteq> []"
proof (induction es arbitrary: m rule: rev_induct)
  case (snoc e es)
  have "fst ` set (entries_map (es @ [e]) m) \<noteq> {}" by (simp add: entries_map_def)
  then show ?case by auto
qed simp

lemma Parse_brace:
  assumes "Parse cfg \<noteq> []"
  obtains w l1 where "blanks w" "cfg = w @ ''{'' @ rest_of l1" "entries_loop [] l1 = Some (Parse cfg, RIGHT_BRACE)"
proof -
  obtain tok u l1 where g: "GetNext (new_lexer cfg) = ((tok, u), l1)" by (metis surj_pair)
  with assms have tok: "tok = LEFT_BRACE" and loop: "entries_loop [] l1 = Some (Parse cfg, RIGHT_BRACE)"
    by (auto simp: Parse_def Expect_def split: if_splits option.splits)
  from next_token_SINGLE [OF GetNext_token [OF g], of "CHR ''{''"] tok brace_tokens obtain w where
    "blanks w" "cfg = w @ CHR ''{'' # rest_of l1" by auto
  with loop show thesis by (intro that [of w l1]) simp_all
qed


lemma distinct_entries_map: "distinct (map fst m) \<Longrightarrow> distinct (map fst (entries_map es m))"
  by (induction es arbitrary: m) (simp_all add: entries_map_def)

lemma distinct_Parse: "distinct (map fst (Parse cfg))"
proof (cases "Parse cfg = []")
  case False
  from Parse_brace [OF False] entries_loop_inv obtain es where "Parse cfg = entries_map es []" by metis
  then show ?thesis by (simp add: distinct_entries_map)
qed simp

lemma sub_module_names_props: "length sub_module_names = NUM_SUBMODUES" "distinct sub_module_names"
  by (simp_all add: sub_module_names_def NUM_SUBMODUES_def)

lemma find_module_name: "i < NUM_SUBMODUES \<Longrightarrow> find_module nm = Some i \<longleftrightarrow> nm = GetSubModuleName i"
  using sub_module_names_props
  by (auto simp: find_module_def find_Some_iff GetSubModuleName_def nth_eq_iff_index_eq)

lemma find_module_bound: "find_module nm = Some i \<Longrightarrow> i < NUM_SUBMODUES"
  by (auto simp: find_module_def find_Some_iff)

definition level_for :: "int \<Rightarrow> string option \<Rightarrow> int" where
  "level_for dflt v = (case v of None \<Rightarrow> dflt | Some str \<Rightarrow> (case ParseLogLevel str of None \<Rightarrow> dflt | Some lv \<Rightarrow> lv))"

lemma apply_level_nth:
  assumes "length levels = NUM_SUBMODUES" "i < NUM_SUBMODUES"
  shows "apply_level (nm, v) levels ! i = (if nm = GetSubModuleName i then level_for (levels ! i) (Some v) else levels ! i)"
proof (cases "find_module nm")
  case None
  with find_module_name [OF assms(2), of nm] show ?thesis by (auto simp: apply_level_def)
next
  case (Some j)
  with find_module_name [OF assms(2), of nm] find_module_bound [OF Some] assms show ?thesis
    by (auto simp: apply_level_def level_for_def split: option.splits)
qed

lemma length_apply_level [simp]: "length (apply_level c levels) = length levels"
  by (simp add: apply_level_def split: option.splits)

lemma fold_apply_level:
  assumes "i < NUM_SUBMODUES"
  shows "distinct (map fst m) \<Longrightarrow> length levels = NUM_SUBMODUES \<Longrightarrow>
    fold apply_level m levels ! i = level_for (levels ! i) (map_of m (GetSubModuleName i))"
proof (induction m arbitrary: levels)
  case (Cons c m)
  obtain nm v where c: "c = (nm, v)" by (cases c)
  have "map_of m nm = None" using Cons.prems(1) c by (simp add: map_of_eq_None_iff)
  with Cons c apply_level_nth [OF Cons.prems(2) assms, of nm v] show ?case
    by (auto simp: level_for_def split: option.splits)
qed (simp add: level_for_def)

text \<open>
  The log level of every submodule after initialization is the one its entry in the parsed
  configuration gives, if that is a single digit from 0 to 3, and the global level otherwise; entries of
  unknown modules and illegal levels have no effect on the others.
\<close>

theorem submodule_levels_configured:
  assumes "i < NUM_SUBMODUES"
  shows "InitSubModulesLogLevel flags_v cfg ! i = level_for flags_v (map_of (Parse cfg) (GetSubModuleName i))"
  using fold_apply_level [OF assms distinct_Parse, of "replicate NUM_SUBMODUES flags_v" cfg] assms
  by (simp add: InitSubModulesLogLevel_def)

theorem submodule_levels_configured_witness:
  "InitSubModulesLogLevel 2 ''{PARSER:0, XYZ:1, PIPELINE:7}'' ! 14 = 0 \<and> InitSubModulesLogLevel 2 ''{PARSER:0, XYZ:1, PIPELINE:7}'' ! 15 = 2"
proof -
  have p: "Parse ''{PARSER:0, XYZ:1, PIPELINE:7}'' = [(''PARSER'', ''0''), (''XYZ'', ''1''), (''PIPELINE'', ''7'')]"
    "GetSubModuleName 14 = ''PARSER''" "GetSubModuleName 15 = ''PIPELINE''" by code_simp+
  show ?thesis
    using submodule_levels_configured [of 14 2 "''{PARSER:0, XYZ:1, PIPELINE:7}''"]
      submodule_levels_configured [of 15 2 "''{PARSER:0, XYZ:1, PIPELINE:7}''"]
    unfolding p by (simp add: NUM_SUBMODUES_def level_for_def ParseLogLevel_def)
qed

text \<open>
  The time stamp of a log line is the local time of 19 characters, then the milliseconds and the
  microseconds with three digits each, set off by dots: every index the loop writes lies in the buffer.
\<close>

definition three_digits :: "nat \<Rightarrow> string" where
  "three_digits n = [digit_char (n div 100), digit_char (n div 10), digit_char n]"

lemma digit_char_not_nul: "digit_char n \<noteq> CHR 0x00"
proof -
  have "(of_char (digit_char n) :: nat) = n mod 10 + 48" by (simp add: digit_char_def of_char_of)
  moreover have "(of_char (CHR 0x00) :: nat) = 0" by simp
  ultimately show ?thesis by (metis add_is_0 zero_neq_numeral)
qed


lemma usec_loop_unroll:
  "usec_loop 5 26 num buf = buf[26 := digit_char num, 25 := digit_char (num div 10), 24 := digit_char (num div 10 div 10),
     23 := CHR ''.'', 22 := digit_char (num div 10 div 10 div 10), 21 := digit_char (num div 10 div 10 div 10 div 10),
     20 := digit_char (num div 10 div 10 div 10 div 10 div 10), 19 := CHR ''.'']"
proof -
  have u: "usec_loop 5 idx num buf = usec_loop 4 (idx - 1) (num div 10) (buf[idx := digit_char num])"
    "usec_loop 4 idx num buf = usec_loop 3 (idx - 1) (num div 10) (buf[idx := digit_char num])"
    "usec_loop 3 idx num buf = usec_loop 2 (idx - 2) (num div 10) (buf[idx := digit_char num, idx - 1 := CHR ''.''])" for idx num buf
    using usec_loop.simps(2) [of 4 idx num buf] usec_loop.simps(2) [of 3 idx num buf] usec_loop.simps(2) [of 2 idx num buf]
    by simp_all
  have "usec_loop 2 idx num buf = buf[idx := digit_char num, idx - Suc 0 := digit_char (num div 10),
      idx - Suc (Suc 0) := digit_char (num div 10 div 10), idx - Suc (Suc (Suc 0)) := CHR ''.'']" for idx num buf
    by (simp add: usec_loop.simps(2) [of 1 idx num buf, unfolded Suc_1])
  note u = u this
  show ?thesis by (simp add: u)
qed

lemma update_behind: "length xs = n \<Longrightarrow> (xs @ ys)[n + k := x] = xs @ ys[k := x]"
  by (simp add: list_update_append)

lemma update_Cons_numeral: "(y # ys)[numeral k := x] = y # ys[pred_numeral k := x]"
  by (simp add: numeral_eq_Suc)

lemma usec_loop_writes:
  assumes "length stamp = 19"
  shows "usec_loop 5 26 num (stamp @ a # b # c # d # e # f # g # h # r) =
    stamp @ ''.'' @ three_digits (num div 1000) @ ''.'' @ three_digits num @ r"
proof -
  note up = update_behind [OF assms]
  have div: "num div 10 div 10 = num div 100" "num div 100 div 10 = num div 1000" "num div 1000 div 10 div 10 = num div 1000 div 100"
    by (simp_all flip: div_mult2_eq)
  show ?thesis
    using up [of _ 0] up [of _ 1] up [of _ 2] up [of _ 3] up [of _ 4] up [of _ 5] up [of _ 6] up [of _ 7]
    by (simp add: usec_loop_unroll three_digits_def div update_Cons_numeral)
qed

lemma GetTime_format:
  assumes "length stamp = 19" "CHR 0x00 \<notin> set stamp" "length buf = 80"
  shows "GetTime stamp usec buf = stamp @ ''.'' @ three_digits (usec div 1000) @ ''.'' @ three_digits usec"
proof -
  obtain u where u: "drop 20 buf = u" "length u = Suc (Suc (Suc (Suc (Suc (Suc (Suc (Suc 52)))))))" using assms(3) by simp
  from u(2) obtain b c d e f g h i r where "u = b # c # d # e # f # g # h # i # r"
    by (simp only: length_Suc_conv) blast
  then have tail: "drop 20 buf = b # c # d # e # f # g # h # i # r" by (simp add: u(1))
  have "(stamp @ CHR 0x00 # drop 20 buf)[27 := CHR 0x00] = stamp @ CHR 0x00 # b # c # d # e # f # g # h # CHR 0x00 # r"
    using update_behind [OF assms(1), of _ 8] by (simp add: tail update_Cons_numeral)
  moreover have "c_string (stamp @ ''.'' @ three_digits (usec div 1000) @ ''.'' @ three_digits usec @ CHR 0x00 # r) =
      stamp @ ''.'' @ three_digits (usec div 1000) @ ''.'' @ three_digits usec"
    using assms(2) digit_char_not_nul by (simp add: c_string_def three_digits_def takeWhile_append)
  ultimately show ?thesis
    using assms(1) by (simp add: GetTime_def usec_loop_writes [OF assms(1), unfolded append_Cons append_Nil])
qed

end
