(* ===== verification/Consistent_Hash.thy ===== *)
theory Consistent_Hash
  imports Prelude
begin

text \<open>
  \<open>consistent_hash/consistent_hash.h\<close>: a ring of nodes ordered by the hash of the node, and the count
  of hash values per virtual node that \<open>consistent_hash/example.cpp\<close> prints.  The hash function is a
  template parameter of the code and an argument here; its results are \<open>uint32_t\<close> as in both
  instances.  \<open>std::map\<close> is a list in ascending order of its keys; an iterator is the entry it points
  to, \<open>None\<close> standing for \<open>end()\<close>.
\<close>

section \<open>The ring\<close>

type_synonym 'a ring = "(u32 \<times> 'a) list"

text \<open>\<open>std::map::insert\<close> keeps an entry that is already there and says whether it inserted.\<close>

fun map_insert :: "u32 \<Rightarrow> 'a \<Rightarrow> 'a ring \<Rightarrow> 'a ring \<times> bool" where
  "map_insert k v [] = ([(k, v)], True)"
| "map_insert k v ((k', v') # m) =
     (if k < k' then ((k, v) # (k', v') # m, True)
      else if k = k' then ((k', v') # m, False)
      else (case map_insert k v m of (m', b) \<Rightarrow> ((k', v') # m', b)))"

definition ring_size :: "'a ring \<Rightarrow> nat" where "ring_size nodes = length nodes"

definition ring_empty :: "'a ring \<Rightarrow> bool" where "ring_empty nodes \<longleftrightarrow> nodes = []"

definition ring_insert :: "('a \<Rightarrow> u32) \<Rightarrow> 'a \<Rightarrow> 'a ring \<Rightarrow> 'a ring \<times> bool" where
  "ring_insert hasher node nodes = map_insert (hasher node) node nodes"

definition ring_erase_at :: "u32 \<Rightarrow> 'a ring \<Rightarrow> 'a ring" where
  "ring_erase_at k nodes = filter (\<lambda>(k', v). k' \<noteq> k) nodes"

definition ring_erase :: "('a \<Rightarrow> u32) \<Rightarrow> 'a \<Rightarrow> 'a ring \<Rightarrow> 'a ring \<times> nat" where
  "ring_erase hasher node nodes =
     (ring_erase_at (hasher node) nodes, length nodes - length (ring_erase_at (hasher node) nodes))"

definition lower_bound :: "u32 \<Rightarrow> 'a ring \<Rightarrow> (u32 \<times> 'a) option" where
  "lower_bound hash nodes = (case dropWhile (\<lambda>(k, v). k < hash) nodes of [] \<Rightarrow> None | e # _ \<Rightarrow> Some e)"

definition ring_find :: "u32 \<Rightarrow> 'a ring \<Rightarrow> (u32 \<times> 'a) option" where
  "ring_find hash nodes =
     (if ring_empty nodes then None
      else case lower_bound hash nodes of None \<Rightarrow> Some (hd nodes) | Some e \<Rightarrow> Some e)"

section \<open>Virtual nodes and their share\<close>

record vnode_t =
  node_id :: nat
  vnode_id :: nat

text \<open>\<open>main\<close> inserts 100 virtual nodes for each of five nodes.\<close>

definition all_vnodes :: "vnode_t list" where
  "all_vnodes = [\<lparr> node_id = i, vnode_id = j \<rparr>. i \<leftarrow> [0..<5], j \<leftarrow> [0..<100]]"

definition build_ring :: "(vnode_t \<Rightarrow> u32) \<Rightarrow> vnode_t ring" where
  "build_ring hasher = fold (\<lambda>v nodes. fst (ring_insert hasher v nodes)) all_vnodes []"

text \<open>The printed \<open>contains\<close> of the first entry and, from the previous hash \<open>priv\<close> on, of the others.\<close>

definition first_share :: "'a ring \<Rightarrow> u32" where
  "first_share nodes = fst (hd nodes) + 0xFFFFFFFF - fst (last nodes)"

fun later_shares :: "u32 \<Rightarrow> 'a ring \<Rightarrow> ('a \<times> nat) list" where
  "later_shares priv [] = []"
| "later_shares priv ((cur, v) # nodes) = (v, unat (cur - priv)) # later_shares cur nodes"

definition shares :: "'a ring \<Rightarrow> ('a \<times> nat) list" where
  "shares nodes = (snd (hd nodes), unat (first_share nodes)) # later_shares (fst (hd nodes)) (tl nodes)"

definition node_sums :: "vnode_t ring \<Rightarrow> nat list" where
  "node_sums nodes = fold (\<lambda>(v, n) sums. sums[node_id v := sums ! node_id v + n]) (shares nodes) (replicate 5 0)"

section \<open>The map\<close>

definition ring_ok :: "('a \<Rightarrow> u32) \<Rightarrow> 'a ring \<Rightarrow> bool" where
  "ring_ok hasher nodes \<longleftrightarrow> sorted_wrt (<) (map fst nodes) \<and> list_all (\<lambda>(k, v). k = hasher v) nodes"

lemma set_map_insert:
  "sorted_wrt (<) (map fst m) \<Longrightarrow>
     set (fst (map_insert k v m)) = (if k \<in> fst ` set m then set m else insert (k, v) (set m))"
proof (induction k v m rule: map_insert.induct)
  case (2 k v k' v' m)
  obtain m' b where rec: "map_insert k v m = (m', b)" by fastforce
  have above: "k' < k'' " if "k'' \<in> fst ` set m" for k'' using "2.prems" that by auto
  consider "k < k'" | "k = k'" | "k' < k" by force
  then show ?case
  proof cases
    case 1
    with above have "k \<notin> fst ` set m" by fastforce
    with 1 show ?thesis by auto
  next
    case 3
    with 2 rec show ?thesis by auto
  qed simp
qed simp

lemma set_ring_insert:
  assumes "ring_ok hasher nodes"
  shows "set (fst (ring_insert hasher n nodes)) =
    (if hasher n \<in> fst ` set nodes then set nodes else insert (hasher n, n) (set nodes))"
  using set_map_insert [of nodes "hasher n" n] assms by (simp add: ring_insert_def ring_ok_def)

lemma sorted_map_insert: "sorted_wrt (<) (map fst m) \<Longrightarrow> sorted_wrt (<) (map fst (fst (map_insert k v m)))"
proof (induction k v m rule: map_insert.induct)
  case (2 k v k' v' m)
  obtain m' b where rec: "map_insert k v m = (m', b)" by fastforce
  have sub: "fst ` set m' \<subseteq> insert k (fst ` set m)"
    using set_map_insert [of m k v] "2.prems" rec by (auto split: if_splits)
  have above: "\<forall>k'' \<in> fst ` set m. k' < k''" using "2.prems" by simp
  consider "k < k'" | "k = k'" | "k' < k" by force
  then show ?case
  proof cases
    case 1
    with "2.prems" above show ?thesis by auto
  next
    case 2
    with "2.prems" show ?thesis by simp
  next
    case 3
    with above sub have "\<forall>k'' \<in> fst ` set m'. k' < k''" by blast
    with 2 3 rec show ?thesis by auto
  qed
qed simp

lemma ring_ok_insert:
  assumes "ring_ok hasher nodes"
  shows "ring_ok hasher (fst (ring_insert hasher n nodes))"
proof -
  have "sorted_wrt (<) (map fst (fst (ring_insert hasher n nodes)))"
    using assms sorted_map_insert [of nodes] by (simp add: ring_ok_def ring_insert_def)
  moreover have "set (fst (ring_insert hasher n nodes)) \<subseteq> insert (hasher n, n) (set nodes)"
    using set_ring_insert [OF assms] by auto
  ultimately show ?thesis using assms unfolding ring_ok_def list_all_iff by blast
qed

lemma ring_ok_erase:
  assumes "ring_ok hasher nodes"
  shows "ring_ok hasher (ring_erase_at k nodes)"
proof -
  have "sorted_wrt (<) (map fst (filter P nodes))" if "sorted_wrt (<) (map fst nodes)" for P
    using that by (induction nodes) auto
  with assms show ?thesis by (simp add: ring_ok_def ring_erase_at_def list_all_iff)
qed

lemma ring_ok_build: "ring_ok hasher (build_ring hasher)"
proof -
  have "ring_ok hasher nodes \<Longrightarrow> ring_ok hasher (fold (\<lambda>v nodes. fst (ring_insert hasher v nodes)) vs nodes)" for vs nodes
    by (induction vs arbitrary: nodes) (auto intro: ring_ok_insert)
  from this [of "[]"] show ?thesis unfolding build_ring_def by (simp add: ring_ok_def)
qed

section \<open>The owner of a hash value\<close>

text \<open>
  The owner is the entry at the smallest clockwise distance, which is the difference in the arithmetic
  of \<open>uint32_t\<close>.
\<close>

definition clockwise_owner :: "'a ring \<Rightarrow> u32 \<Rightarrow> u32 \<times> 'a \<Rightarrow> bool" where
  "clockwise_owner nodes h e \<longleftrightarrow> e \<in> set nodes \<and> (\<forall>e' \<in> set nodes. fst e - h \<le> fst e' - h)"

lemma unat_distance: "unat (a - b :: u32) = (if b \<le> a then unat a - unat b else unat a + 2 ^ 32 - unat b)"
  by (simp add: unat_sub_if' word_le_nat_alt)

lemma lower_bound_spec:
  "sorted_wrt (<) (map fst m) \<Longrightarrow>
     (case lower_bound h m of None \<Rightarrow> \<forall>e \<in> set m. fst e < h
      | Some e \<Rightarrow> e \<in> set m \<and> h \<le> fst e \<and> (\<forall>e' \<in> set m. h \<le> fst e' \<longrightarrow> fst e \<le> fst e'))"
proof (induction m)
  case (Cons x m)
  show ?case
  proof (cases "fst x < h")
    case True
    then have "lower_bound h (x # m) = lower_bound h m" by (cases x) (simp add: lower_bound_def)
    with Cons True show ?thesis by (auto split: option.splits)
  next
    case False
    then have "lower_bound h (x # m) = Some x" by (cases x) (simp add: lower_bound_def)
    with Cons.prems False show ?thesis by (auto intro: less_imp_le)
  qed
qed (simp add: lower_bound_def)

lemma first_is_least: "sorted_wrt (<) (map fst (m :: 'a ring)) \<Longrightarrow> e \<in> set m \<Longrightarrow> fst (hd m) \<le> fst e"
  by (cases m) (auto intro: order.strict_implies_order)

lemma find_is_owner:
  assumes "sorted_wrt (<) (map fst m)" "ring_find h m = Some e"
  shows "clockwise_owner m h e"
proof (cases "lower_bound h m")
  case None
  with lower_bound_spec [OF assms(1), of h] have low: "\<forall>e \<in> set m. fst e < h" by simp
  from None assms(2) have e: "e = hd m" "m \<noteq> []" by (auto simp: ring_find_def ring_empty_def split: if_splits)
  show ?thesis unfolding clockwise_owner_def
  proof (intro conjI ballI)
    show "e \<in> set m" using e by simp
    fix e' assume e': "e' \<in> set m"
    have "fst e \<le> fst e'" using first_is_least [OF assms(1) e'] e by simp
    moreover have "fst e < h" "fst e' < h" using low e e' by simp_all
    ultimately show "fst e - h \<le> fst e' - h" by (simp add: word_le_nat_alt unat_distance not_le word_less_nat_alt)
  qed
next
  case (Some x)
  with assms(2) have "x = e" by (auto simp: ring_find_def split: if_splits)
  with Some lower_bound_spec [OF assms(1), of h] have e: "e \<in> set m" "h \<le> fst e"
    and least: "\<And>e'. e' \<in> set m \<Longrightarrow> h \<le> fst e' \<longrightarrow> fst e \<le> fst e'"
    by auto
  show ?thesis unfolding clockwise_owner_def
  proof (intro conjI ballI)
    fix e' assume e': "e' \<in> set m"
    have "unat (fst e) < 2 ^ 32" using unsigned_less [of "fst e", where 'a = nat] by simp
    then show "fst e - h \<le> fst e' - h"
      using least [OF e'] e(2) by (auto simp: word_le_nat_alt unat_distance)
  qed (rule e(1))
qed

lemma sorted_keys_inj:
  assumes "sorted_wrt (<) (map fst (m :: 'a ring))" "e \<in> set m" "e' \<in> set m" "fst e = fst e'"
  shows "e = e'"
proof -
  have "distinct (map fst m)" using assms(1) strict_sorted_iff by blast
  with assms(2-4) show ?thesis by (metis eq_key_imp_eq_value prod.collapse)
qed

lemma owner_unique:
  assumes "sorted_wrt (<) (map fst m)" "clockwise_owner m h e" "clockwise_owner m h e'"
  shows "e = e'"
proof -
  have "fst e - h = fst e' - h" using assms(2,3) unfolding clockwise_owner_def by (meson order_antisym)
  then have "fst e = fst e'" by simp
  with assms show ?thesis by (auto simp: clockwise_owner_def intro: sorted_keys_inj)
qed

lemma ring_find_None: "ring_find h m = None \<longleftrightarrow> m = []"
  by (auto simp: ring_find_def ring_empty_def split: option.splits)

lemma ring_find_iff_owner: "sorted_wrt (<) (map fst m) \<Longrightarrow> ring_find h m = Some e \<longleftrightarrow> clockwise_owner m h e"
proof
  assume sorted: "sorted_wrt (<) (map fst m)" and own: "clockwise_owner m h e"
  then have "ring_find h m \<noteq> None" by (auto simp: ring_find_None clockwise_owner_def)
  then obtain e' where "ring_find h m = Some e'" by auto
  with find_is_owner [OF sorted this] owner_unique [OF sorted own] show "ring_find h m = Some e" by simp
qed (rule find_is_owner)

section \<open>Properties\<close>

text \<open>
  C22: on a ring built by inserting nodes, \<open>find\<close> returns for every hash value the entry that comes
  first clockwise, where distances wrap around at \<open>2\<^sup>3\<^sup>2\<close>; it returns \<open>end()\<close> only for the empty ring.
\<close>

theorem find_clockwise:
  assumes "ring_ok hasher nodes"
  shows "(ring_find h nodes = Some e) = clockwise_owner nodes h e \<and> (ring_find h nodes = None) = ring_empty nodes"
  using assms ring_find_iff_owner [of nodes h e] by (simp add: ring_ok_def ring_find_None ring_empty_def)

theorem find_clockwise_witness:
  "clockwise_owner (fst (ring_insert id 7 (fst (ring_insert id 9 [])))) 10 (7, 7)"
  using find_clockwise [of id "fst (ring_insert id 7 (fst (ring_insert id 9 [])))" 10 "(7, 7)"]
  by (simp add: ring_insert_def ring_ok_def ring_find_def ring_empty_def lower_bound_def)

text \<open>
  C20: adding or removing a node only moves the hash values it gains or loses.  After \<open>insert\<close> every hash
  value has its old owner or the new entry; after \<open>erase\<close> every hash value whose owner is not the
  removed entry keeps it.
\<close>

theorem minimal_disruption:
  assumes "ring_ok hasher nodes"
  shows "(ring_find h (fst (ring_insert hasher n nodes)) = ring_find h nodes \<or>
      ring_find h (fst (ring_insert hasher n nodes)) = Some (hasher n, n)) \<and>
    (ring_find h nodes \<noteq> None \<and> fst (the (ring_find h nodes)) \<noteq> hasher n \<longrightarrow>
      ring_find h (fst (ring_erase hasher n nodes)) = ring_find h nodes)"
proof (intro conjI impI)
  let ?ins = "fst (ring_insert hasher n nodes)" and ?del = "fst (ring_erase hasher n nodes)"
  have sorted: "sorted_wrt (<) (map fst nodes)" "sorted_wrt (<) (map fst ?ins)" "sorted_wrt (<) (map fst ?del)"
    using assms ring_ok_insert [OF assms] ring_ok_erase [OF assms] by (simp_all add: ring_ok_def ring_erase_def)
  show "ring_find h ?ins = ring_find h nodes \<or> ring_find h ?ins = Some (hasher n, n)"
  proof (cases "ring_find h ?ins")
    case None
    then have "set ?ins = {}" by (simp add: ring_find_None)
    with set_ring_insert [OF assms, of n] have "nodes = []" by (auto split: if_splits)
    with None show ?thesis by (simp add: ring_find_def ring_empty_def)
  next
    case (Some e)
    then have own: "clockwise_owner ?ins h e" using find_is_owner sorted(2) by blast
    show ?thesis
    proof (cases "e \<in> set nodes")
      case True
      with own set_ring_insert [OF assms, of n] have "clockwise_owner nodes h e"
        by (auto simp: clockwise_owner_def split: if_splits)
      with Some sorted(1) show ?thesis by (simp add: ring_find_iff_owner [symmetric])
    next
      case False
      with own set_ring_insert [OF assms, of n] Some show ?thesis by (auto simp: clockwise_owner_def split: if_splits)
    qed
  qed
  assume old: "ring_find h nodes \<noteq> None \<and> fst (the (ring_find h nodes)) \<noteq> hasher n"
  then obtain e where e: "ring_find h nodes = Some e" "fst e \<noteq> hasher n" by auto
  then have "clockwise_owner nodes h e" using find_is_owner sorted(1) by blast
  with e(2) have "clockwise_owner ?del h e" by (auto simp: clockwise_owner_def ring_erase_def ring_erase_at_def)
  with e(1) sorted(3) show "ring_find h ?del = ring_find h nodes" by (simp add: ring_find_iff_owner [symmetric])
qed

theorem minimal_disruption_witness:
  "ring_find 8 (fst (ring_erase id 7 [(7, 7), (9, 9)])) = ring_find 8 [(7, 7), (9, 9 :: u32)] \<and> ring_find 8 [(7, 7), (9, 9 :: u32)] = Some (9, 9)"
  using minimal_disruption [of id "[(7, 7), (9, 9)]" 8 7]
  by (simp add: ring_ok_def ring_find_def ring_empty_def lower_bound_def)

section \<open>The shares of the entries\<close>

lemma card_words_upto: "card {h :: u32. a < h \<and> h \<le> b} = unat b - unat a"
proof -
  have "unat ` {h :: u32. a < h \<and> h \<le> b} = {unat a <.. unat b}"
  proof (intro equalityI subsetI)
    fix n assume n: "n \<in> {unat a <.. unat b}"
    then have "n < 2 ^ 32" using unsigned_less [of b, where 'a = nat] by simp
    then have "unat (word_of_nat n :: u32) = n" by (simp add: unat_of_nat)
    with n show "n \<in> unat ` {h :: u32. a < h \<and> h \<le> b}"
      by (intro image_eqI [of _ _ "word_of_nat n"]) (simp_all add: word_less_nat_alt word_le_nat_alt)
  qed (auto simp: word_less_nat_alt word_le_nat_alt)
  then have "card (unat ` {h :: u32. a < h \<and> h \<le> b}) = unat b - unat a" by simp
  moreover have "inj_on unat {h :: u32. a < h \<and> h \<le> b}" by (simp add: inj_on_def word_unat_eq_iff)
  ultimately show ?thesis by (simp only: card_image)
qed

lemma owned_later:
  assumes "sorted_wrt (<) (map fst (m @ e # e' # m' :: 'a ring))"
  shows "ring_find h (m @ e # e' # m') = Some e' \<longleftrightarrow> fst e < h \<and> h \<le> fst e'"
proof -
  have below: "\<forall>x \<in> set m. fst x < fst e" and e: "fst e < fst e'" and above: "\<forall>x \<in> set m'. fst e' < fst x"
    using assms by (auto simp: sorted_wrt_append)
  have drop: "dropWhile (\<lambda>(k, v). k < h) (m @ e # e' # m') = e' # m'" if "fst e < h" "h \<le> fst e'"
  proof -
    have "\<forall>x \<in> set m. fst x < h" using that below by (meson order.strict_trans)
    with that show ?thesis by (simp add: case_prod_beta dropWhile_append2)
  qed
  show ?thesis
  proof
    assume "fst e < h \<and> h \<le> fst e'"
    then show "ring_find h (m @ e # e' # m') = Some e'" using drop by (simp add: ring_find_def ring_empty_def lower_bound_def)
  next
    assume "ring_find h (m @ e # e' # m') = Some e'"
    then have own: "clockwise_owner (m @ e # e' # m') h e'" using find_is_owner assms by blast
    then have "fst e' - h \<le> fst e - h" by (simp add: clockwise_owner_def)
    with e show "fst e < h \<and> h \<le> fst e'"
      using unsigned_less [of h, where 'a = nat] by (auto simp: word_le_nat_alt word_less_nat_alt unat_distance split: if_splits)
  qed
qed

lemma owned_first:
  assumes "sorted_wrt (<) (map fst (m :: 'a ring))" "m \<noteq> []"
  shows "ring_find h m = Some (hd m) \<longleftrightarrow> h \<le> fst (hd m) \<or> fst (last m) < h"
proof -
  have least: "fst (hd m) \<le> fst x" if "x \<in> set m" for x using first_is_least [OF assms(1) that] .
  show ?thesis
  proof
    assume "ring_find h m = Some (hd m)"
    then have "fst (hd m) - h \<le> fst (last m) - h"
      using find_is_owner [OF assms(1)] assms(2) by (auto simp: clockwise_owner_def)
    moreover have "unat (fst (last m)) < 2 ^ 32" using unsigned_less [of "fst (last m)", where 'a = nat] by simp
    ultimately show "h \<le> fst (hd m) \<or> fst (last m) < h"
      by (auto simp: word_le_nat_alt word_less_nat_alt unat_distance split: if_splits)
  next
    assume "h \<le> fst (hd m) \<or> fst (last m) < h"
    then show "ring_find h m = Some (hd m)"
    proof
      assume "h \<le> fst (hd m)"
      with assms(2) show ?thesis by (cases m) (auto simp: ring_find_def ring_empty_def lower_bound_def not_less)
    next
      assume last: "fst (last m) < h"
      have "fst x < h" if "x \<in> set m" for x
      proof -
        have "fst x \<le> fst (last m)" using assms that
          by (induction m) (auto split: if_splits intro: order.strict_implies_order)
        with last show ?thesis by simp
      qed
      then have "dropWhile (\<lambda>(k, v). k < h) m = []" by (auto simp: dropWhile_eq_Nil_conv)
      then have "lower_bound h m = None" unfolding lower_bound_def by (simp only: list.case)
      with assms(2) show ?thesis by (simp add: ring_find_def ring_empty_def)
    qed
  qed
qed

lemma card_first:
  assumes "k \<le> l"
  shows "card {h :: u32. h \<le> k \<or> l < h} = unat (k + 0xFFFFFFFF - l) + 1"
proof -
  have top: "unat (0xFFFFFFFF :: u32) = 2 ^ 32 - 1" by simp
  have "{h :: u32. h \<le> k \<or> l < h} = insert 0 {h. 0 < h \<and> h \<le> k} \<union> {h. l < h \<and> h \<le> 0xFFFFFFFF}"
  proof -
    have "h \<le> 0xFFFFFFFF" for h :: u32
      using unsigned_less [of h, where 'a = nat] by (simp add: word_le_nat_alt)
    then show ?thesis by (auto simp: word_gt_0)
  qed
  moreover have "card (insert 0 {h :: u32. 0 < h \<and> h \<le> k}) = unat k + 1" using card_words_upto [of 0 k] by simp
  moreover have "insert 0 {h :: u32. 0 < h \<and> h \<le> k} \<inter> {h. l < h \<and> h \<le> 0xFFFFFFFF} = {}" using assms by auto
  ultimately have "card {h :: u32. h \<le> k \<or> l < h} = unat k + 1 + (2 ^ 32 - 1 - unat l)"
    using card_words_upto [of l "0xFFFFFFFF"] top by (simp only: card_Un_disjoint finite)
  moreover have "unat (k + 0xFFFFFFFF - l) = unat k + (2 ^ 32 - 1) - unat l"
  proof -
    have lk: "unat (l - k) = unat l - unat k" using assms by (simp add: unat_distance)
    have "unat l < 2 ^ 32" using unsigned_less [of l, where 'a = nat] by simp
    then have "unat (0xFFFFFFFF - (l - k)) = 2 ^ 32 - 1 - (unat l - unat k)"
      using lk by (simp add: unat_distance [of "0xFFFFFFFF"] word_le_nat_alt)
    moreover have "k + 0xFFFFFFFF - l = 0xFFFFFFFF - (l - k)" by (simp only: diff_diff_eq2 add.commute)
    ultimately have "unat (k + 0xFFFFFFFF - l) = 2 ^ 32 - 1 - (unat l - unat k)" by (simp only:)
    with assms \<open>unat l < 2 ^ 32\<close> show ?thesis unfolding word_le_nat_alt by linarith
  qed
  ultimately show ?thesis using assms unsigned_less [of l, where 'a = nat] by (simp add: word_le_nat_alt)
qed

lemma later_shares_nth: "i < length m \<Longrightarrow>
  later_shares p m ! i = (snd (m ! i), unat (fst (m ! i) - (if i = 0 then p else fst (m ! (i - 1)))))"
proof (induction p m arbitrary: i rule: later_shares.induct)
  case (2 p k v m)
  then show ?case by (cases i) (auto simp: nth_Cons')
qed simp

lemma shares_nth_Suc:
  assumes "Suc i < length m"
  shows "shares m ! Suc i = (snd (m ! Suc i), unat (fst (m ! Suc i) - fst (m ! i)))"
proof -
  obtain e m' where m: "m = e # m'" using assms by (cases m) auto
  with assms have "i < length m'" by simp
  from later_shares_nth [OF this, of "fst e"] m show ?thesis by (cases i) (simp_all add: shares_def)
qed

text \<open>
  C21: the numbers of hash values that \<open>example.cpp\<close> prints for the virtual nodes are the numbers of hash
  values \<open>find\<close> assigns to them, except for the first one, whose number is one too small: the subtraction
  from \<open>UINT32_MAX\<close> forgets the hash value 0.
\<close>

theorem shares_count_hashes:
  assumes "ring_ok hasher nodes" "i < ring_size nodes"
  shows "card {h. ring_find h nodes = Some (nodes ! i)} = snd (shares nodes ! i) + (if i = 0 then 1 else 0)"
proof (cases i)
  case 0
  have sorted: "sorted_wrt (<) (map fst nodes)" and ne: "nodes \<noteq> []" using assms by (auto simp: ring_ok_def ring_size_def)
  have "fst (hd nodes) \<le> fst (last nodes)" using first_is_least [OF sorted] ne by simp
  from card_first [OF this] show ?thesis
    using 0 ne by (simp add: owned_first [OF sorted ne] hd_conv_nth [symmetric] shares_def first_share_def)
next
  case (Suc j)
  have len: "Suc j < length nodes" using assms(2) Suc by (simp add: ring_size_def)
  then have split: "nodes = take j nodes @ nodes ! j # nodes ! Suc j # drop (Suc (Suc j)) nodes"
    by (metis Cons_nth_drop_Suc Suc_lessD append_take_drop_id)
  have sorted: "sorted_wrt (<) (map fst nodes)" using assms by (simp add: ring_ok_def)
  have "ring_find h nodes = Some (nodes ! Suc j) \<longleftrightarrow> fst (nodes ! j) < h \<and> h \<le> fst (nodes ! Suc j)" for h
    using owned_later [of "take j nodes" "nodes ! j" "nodes ! Suc j" "drop (Suc (Suc j)) nodes" h] sorted
    by (simp only: split [symmetric])
  moreover have "fst (nodes ! j) < fst (nodes ! Suc j)" using sorted len by (simp add: sorted_wrt_iff_nth_less)
  ultimately show ?thesis
    using Suc len shares_nth_Suc [OF len] by (simp add: card_words_upto unat_distance order.strict_implies_order)
qed

theorem shares_count_hashes_witness: "card {h. ring_find h [(7, 7), (9, 9)] = Some (9, 9 :: u32)} = 2"
proof -
  let ?m = "[(7, 7), (9, 9)] :: u32 ring"
  have ok: "ring_ok id ?m" "1 < ring_size ?m" by (simp_all add: ring_ok_def ring_size_def)
  have "?m ! 1 = (9, 9)" "snd (shares ?m ! 1) + (if (1::nat) = 0 then 1 else 0) = 2" by (simp_all add: shares_def)
  with shares_count_hashes [OF ok] show ?thesis by (simp only:)
qed

text \<open>A sequence of calls: \<open>True\<close> inserts the node, \<open>False\<close> erases it; and the hashes it leaves.\<close>

fun ring_ops :: "('a \<Rightarrow> u32) \<Rightarrow> (bool \<times> 'a) list \<Rightarrow> 'a ring \<Rightarrow> 'a ring" where
  "ring_ops hasher [] nodes = nodes"
| "ring_ops hasher ((ins, n) # ops) nodes =
     ring_ops hasher ops (if ins then fst (ring_insert hasher n nodes) else fst (ring_erase hasher n nodes))"

fun live_hashes :: "('a \<Rightarrow> u32) \<Rightarrow> (bool \<times> 'a) list \<Rightarrow> u32 set \<Rightarrow> u32 set" where
  "live_hashes hasher [] hs = hs"
| "live_hashes hasher ((ins, n) # ops) hs =
     live_hashes hasher ops (if ins then insert (hasher n) hs else hs - {hasher n})"

lemma ring_ops_ok:
  "ring_ok hasher nodes \<Longrightarrow>
   ring_ok hasher (ring_ops hasher ops nodes) \<and> fst ` set (ring_ops hasher ops nodes) = live_hashes hasher ops (fst ` set nodes)"
proof (induction hasher ops nodes rule: ring_ops.induct)
  case (2 hasher ins n ops nodes)
  let ?m = "if ins then fst (ring_insert hasher n nodes) else fst (ring_erase hasher n nodes)"
  have ok: "ring_ok hasher ?m" using 2(2) ring_ok_insert ring_ok_erase by (auto simp: ring_erase_def)
  have erase: "fst ` set (fst (ring_erase hasher n nodes)) = fst ` set nodes - {hasher n}"
    by (force simp: ring_erase_def ring_erase_at_def)
  have "fst ` set (fst (ring_insert hasher n nodes)) = insert (hasher n) (fst ` set nodes)"
    using set_ring_insert [OF 2(2), of n] by auto
  with erase have "fst ` set ?m = (if ins then insert (hasher n) (fst ` set nodes) else fst ` set nodes - {hasher n})" by simp
  then show ?case using 2(1) [OF ok] by simp
qed simp

text \<open>
  The map is well formed after any sequence of insertions and removals: its entries are in strictly
  increasing order of their hashes, every node stands under its own hash, and the hashes are those inserted and
  not removed since.
\<close>
theorem ring_well_formed:
  "ring_ok hasher (ring_ops hasher ops []) \<and> fst ` set (ring_ops hasher ops []) = live_hashes hasher ops {}"
  using ring_ops_ok [of hasher "[]" ops] by (simp add: ring_ok_def)

end
