(* ===== verification/Ring_Demo.thy ===== *)
theory Ring_Demo
  imports Consistent_Hash
begin

text \<open>
  \<open>consistent_hash/test.cpp\<close>: a program that inserts three nodes, looks some hashes up, removes the nodes one
  after the other and ends with an empty ring.  The hash function is an argument; using \<open>end()\<close> as an entry is
  undefined.
\<close>

section \<open>The program\<close>

datatype 'a demo_line = Listing "'a ring" | Entry "u32 \<times> 'a" | NotFound

fun run_or_stop :: "exn + 'a \<Rightarrow> ('a \<Rightarrow> exn + 'b) \<Rightarrow> exn + 'b" where
  "run_or_stop (Inl e) f = Inl e"
| "run_or_stop (Inr x) f = f x"

definition iterator_entry :: "(u32 \<times> 'a) option \<Rightarrow> exn + (u32 \<times> 'a)" where
  "iterator_entry it = (case it of None \<Rightarrow> Inl (Undefined ''*end()'') | Some e \<Rightarrow> Inr e)"

definition demo_node :: "nat \<Rightarrow> string" where
  "demo_node i = ''192.168.1.'' @ [char_of (48 + i)]"

definition demo_ring :: "(string \<Rightarrow> u32) \<Rightarrow> string ring" where
  "demo_ring hasher = fold (\<lambda>i nodes. fst (ring_insert hasher (demo_node i) nodes)) [0, 1, 2] []"

text \<open>The three lookups, the removal of a node by name, and the two removals of the node found for a hash.\<close>

definition demo_lookups :: "string ring \<Rightarrow> exn + string demo_line list" where
  "demo_lookups nodes =
     run_or_stop (iterator_entry (ring_find 290235110 nodes)) (\<lambda>a.
     run_or_stop (iterator_entry (ring_find 2286285664 nodes)) (\<lambda>b.
     run_or_stop (iterator_entry (ring_find 4282565578 nodes)) (\<lambda>c. Inr [Entry a, Entry b, Entry c])))"

definition demo_erase_found :: "u32 \<Rightarrow> string ring \<Rightarrow> exn + (string demo_line list \<times> string ring)" where
  "demo_erase_found h nodes =
     run_or_stop (iterator_entry (ring_find h nodes)) (\<lambda>e.
       let nodes' = ring_erase_at (fst e) nodes in Inr ([Entry e, Listing nodes'], nodes'))"

definition demo_last_lookup :: "string ring \<Rightarrow> string demo_line list" where
  "demo_last_lookup nodes = (if ring_find 4282565578 nodes = None then [NotFound] else [])"

definition demo_main :: "(string \<Rightarrow> u32) \<Rightarrow> exn + string demo_line list" where
  "demo_main hasher =
     (let nodes = demo_ring hasher in
      run_or_stop (demo_lookups nodes) (\<lambda>found.
      let nodes1 = fst (ring_erase hasher (demo_node 1) nodes) in
      run_or_stop (demo_erase_found 4282565578 nodes1) (\<lambda>(out2, nodes2).
      run_or_stop (iterator_entry (ring_find 4282565578 nodes2)) (\<lambda>e.
      run_or_stop (demo_erase_found 4282565576 nodes2) (\<lambda>(out3, nodes3).
        Inr ([Listing nodes] @ found @ [Listing nodes1] @ out2 @ [Entry e] @ out3 @ demo_last_lookup nodes3))))))"

section \<open>Sizes\<close>

lemma iterator_entry_find: "iterator_entry (ring_find h nodes) = (if nodes = [] then Inl (Undefined ''*end()'') else Inr (the (ring_find h nodes)))"
  using ring_find_None [of h nodes] by (cases "ring_find h nodes") (auto simp: iterator_entry_def)

lemma length_erase_at: "sorted_wrt (<) (map fst nodes) \<Longrightarrow> k \<in> fst ` set nodes \<Longrightarrow> length (ring_erase_at k nodes) + 1 = length nodes"
proof (induction nodes)
  case (Cons e nodes)
  show ?case
  proof (cases "fst e = k")
    case True
    then have "\<forall>x \<in> set nodes. fst x \<noteq> k" using Cons.prems(1) by auto
    then show ?thesis using True by (cases e) (simp add: ring_erase_at_def filter_id_conv split_beta)
  next
    case False
    then show ?thesis using Cons by (cases e) (auto simp: ring_erase_at_def)
  qed
qed simp

lemma find_in_ring: "sorted_wrt (<) (map fst nodes) \<Longrightarrow> nodes \<noteq> [] \<Longrightarrow> the (ring_find h nodes) \<in> set nodes"
  using ring_find_None [of h nodes] find_is_owner [of nodes h] by (auto simp: clockwise_owner_def)


lemma length_keys: "sorted_wrt (<) (map fst (nodes :: 'a ring)) \<Longrightarrow> length nodes = card (fst ` set nodes)"
  using strict_sorted_iff [of "map fst nodes"] distinct_card [of "map fst nodes"] by simp

lemma demo_ring_ok:
  "ring_ok hasher (demo_ring hasher) \<and> fst ` set (demo_ring hasher) = {hasher (demo_node 0), hasher (demo_node 1), hasher (demo_node 2)}"
proof -
  have "ring_ok hasher (fst (ring_insert hasher n m)) \<and> fst ` set (fst (ring_insert hasher n m)) = insert (hasher n) (fst ` set m)"
    if "ring_ok hasher m" for n m
    using that ring_ok_insert [OF that] set_ring_insert [OF that] by auto
  note ins = this
  have "ring_ok hasher []" by (simp add: ring_ok_def)
  note ins1 = ins [OF this, of "demo_node 0"]
  note ins2 = ins [OF conjunct1 [OF ins1], of "demo_node 1"]
  note ins3 = ins [OF conjunct1 [OF ins2], of "demo_node 2"]
  show ?thesis using ins1 ins2 ins3 by (auto simp: demo_ring_def)
qed

lemma card_three: "card {a, b, c} = 3 \<longleftrightarrow> distinct [a, b, c]" "card {a, b, c} \<le> 3"
  by (simp_all add: card_insert_if)

lemma demo_erase_found_size:
  assumes "ring_ok hasher nodes"
  shows "nodes = [] \<and> demo_erase_found h nodes = Inl (Undefined ''*end()'') \<or>
    (\<exists>out nodes'. demo_erase_found h nodes = Inr (out, nodes') \<and> ring_ok hasher nodes' \<and> length nodes' + 1 = length nodes)"
proof (cases "nodes = []")
  case False
  let ?e = "the (ring_find h nodes)"
  have "fst ?e \<in> fst ` set nodes" using find_in_ring [OF _ False] assms by (auto simp: ring_ok_def)
  then have "length (ring_erase_at (fst ?e) nodes) + 1 = length nodes" using assms length_erase_at [of nodes "fst ?e"] by (simp add: ring_ok_def)
  then show ?thesis using False ring_ok_erase [OF assms, of "fst ?e"] by (auto simp: demo_erase_found_def iterator_entry_find Let_def)
qed (simp add: demo_erase_found_def iterator_entry_find)

section \<open>Properties\<close>

text \<open>
  The program is defined exactly when the three nodes have different hashes.  With a collision some lookup is
  made in an empty ring and its result is used; without one the program removes every node and reports at the end
  that the ring is empty.
\<close>
theorem demo_defined_iff_no_collision:
  "if distinct [hasher (demo_node 0), hasher (demo_node 1), hasher (demo_node 2)]
   then \<exists>out. demo_main hasher = Inr (out @ [NotFound])
   else demo_main hasher = Inl (Undefined ''*end()'')"
proof -
  let ?nodes = "demo_ring hasher"
  let ?nodes1 = "fst (ring_erase hasher (demo_node 1) ?nodes)"
  have ok: "ring_ok hasher ?nodes" and keys: "fst ` set ?nodes = {hasher (demo_node 0), hasher (demo_node 1), hasher (demo_node 2)}"
    using demo_ring_ok by auto
  have "length ?nodes = card {hasher (demo_node 0), hasher (demo_node 1), hasher (demo_node 2)}"
    using ok keys length_keys [of ?nodes] by (simp add: ring_ok_def)
  then have dist: "distinct [hasher (demo_node 0), hasher (demo_node 1), hasher (demo_node 2)] \<longleftrightarrow> length ?nodes = 3" "length ?nodes \<le> 3"
    using card_three by metis+
  have ok1: "ring_ok hasher ?nodes1" using ring_ok_erase [OF ok] by (simp add: ring_erase_def)
  have size1: "length ?nodes1 + 1 = length ?nodes"
    using length_erase_at [of ?nodes "hasher (demo_node 1)"] ok keys by (simp add: ring_erase_def ring_ok_def)
  then have "?nodes \<noteq> []" by auto
  then obtain found where found: "demo_lookups ?nodes = Inr found" by (simp add: demo_lookups_def iterator_entry_find)
  from demo_erase_found_size [OF ok1, of 4282565578] show ?thesis
  proof (elim disjE exE conjE)
    assume "?nodes1 = []" "demo_erase_found 4282565578 ?nodes1 = Inl (Undefined ''*end()'')"
    then have "length ?nodes \<noteq> 3" "demo_main hasher = Inl (Undefined ''*end()'')" using size1 found by (simp_all add: demo_main_def Let_def)
    then show ?thesis unfolding dist(1) by (simp only: if_False)
  next
    fix out2 nodes2
    assume step2: "demo_erase_found 4282565578 ?nodes1 = Inr (out2, nodes2)" and ok2: "ring_ok hasher nodes2"
      and size2: "length nodes2 + 1 = length ?nodes1"
    show ?thesis
    proof (cases "nodes2 = []")
      case True
      then have "length ?nodes \<noteq> 3" "demo_main hasher = Inl (Undefined ''*end()'')"
        using step2 size1 size2 found by (simp_all add: demo_main_def Let_def iterator_entry_find)
      then show ?thesis unfolding dist(1) by (simp only: if_False)
    next
      case False
      then have "length nodes2 \<ge> 1" by (cases nodes2) auto
      then have three: "length ?nodes = 3" "length nodes2 = 1" using size1 size2 dist(2) by simp_all
      obtain out3 nodes3 where step3: "demo_erase_found 4282565576 nodes2 = Inr (out3, nodes3)" "length nodes3 + 1 = length nodes2"
        using demo_erase_found_size [OF ok2, of 4282565576] False by blast
      then have "nodes3 = []" using three(2) by simp
      then have "demo_main hasher = Inr (([Listing ?nodes] @ found @ [Listing ?nodes1] @ out2
          @ [Entry (the (ring_find 4282565578 nodes2))] @ out3) @ [NotFound])"
        using step2 step3(1) found False by (simp add: demo_main_def Let_def iterator_entry_find demo_last_lookup_def ring_find_None)
      then show ?thesis unfolding dist(1) three(1) by (simp only: if_True simp_thms) blast
    qed
  qed
qed

end
