(* ===== verification/Ps_Worker.thy ===== *)
theory Ps_Worker
  imports Comm_Messages
begin

text \<open>
  The parameter-server worker of \<open>src/mindspore/ps\<close>: the optimizer tables and the distribution of rows
  of \<open>util.cc\<close>, the ranges of an embedding table, and the slicers of \<open>worker.cc\<close> that split a message
  into one per server.  A \<open>float\<close> is its bit pattern, a \<open>int32\<close> or \<open>int64\<close> is an integer, a \<open>Key\<close> and a
  row number are 64-bit words.  The messages are the ones of \<open>ps.proto\<close>; an iteration over an
  \<open>unordered_set\<close> has no particular order, and no statement depends on the one chosen here.
\<close>

section \<open>Optimizers and rows per server\<close>

definition optimizer_to_ids :: "(string \<times> int) list" where
  "optimizer_to_ids = [(''ApplyMomentum'', 0), (''Adam'', 1), (''LazyAdam'', 2), (''Ftrl'', 3)]"

definition id_to_optimizers :: "(int \<times> string) list" where
  "id_to_optimizers = [(0, ''ApplyMomentum''), (1, ''Adam''), (2, ''LazyAdam''), (3, ''Ftrl'')]"

definition id_to_optimizer_nodes :: "(int \<times> string) list" where
  "id_to_optimizer_nodes = [(0, ''Momentum''), (1, ''Adam''), (2, ''LazyAdam''), (3, ''FTRL'')]"

definition optimizer_id :: "string \<Rightarrow> int" where
  "optimizer_id nm = (case map_of optimizer_to_ids nm of Some i \<Rightarrow> i | None \<Rightarrow> -1)"

definition optimizer_name :: "int \<Rightarrow> string" where
  "optimizer_name i = (case map_of id_to_optimizers i of Some nm \<Rightarrow> nm | None \<Rightarrow> [])"

definition optimizer_node_name :: "int \<Rightarrow> string" where
  "optimizer_node_name i = (case map_of id_to_optimizer_nodes i of Some nm \<Rightarrow> nm | None \<Rightarrow> [])"

definition is_optimizer :: "string \<Rightarrow> bool" where
  "is_optimizer nm \<longleftrightarrow> map_of optimizer_to_ids nm \<noteq> None"

text \<open>The second loop of \<open>AllRankLocalShard\<close> after \<open>n\<close> passes: \<open>server_index\<close> and the counters.\<close>

primrec deal_rows :: "nat \<Rightarrow> int \<Rightarrow> (int \<times> int) list \<Rightarrow> int \<times> (int \<times> int) list" where
  "deal_rows 0 server_num dims = (-1, dims)"
| "deal_rows (Suc n) server_num dims =
     (case deal_rows n server_num dims of (server_index, d) \<Rightarrow>
        (let server_index = (server_index + 1) mod server_num; (c, d1) = map_index 0 server_index d
         in (server_index, map_set server_index (c + 1) d1)))"

definition AllRankLocalShard :: "int \<Rightarrow> int \<Rightarrow> int \<Rightarrow> exn + (int \<times> int) list" where
  "AllRankLocalShard first_dim rank server_num =
     (if first_dim \<le> 0 \<or> server_num \<le> 0 \<or> rank < 0 then Inl (MsException ''Input values are invalid.'')
      else if rank \<ge> server_num then Inl (MsException ''The rank ID should be less than the number of servers'')
      else let shard_dims = map (\<lambda>i. (i, 0)) [0..server_num - 1] in
      if server_num \<noteq> int (length shard_dims) then Inl (MsException ''Inconsistent server num'')
      else let shard_dims = snd (deal_rows (nat first_dim) server_num shard_dims) in
      if map_of shard_dims rank = None then Inl (MsException ''Invalid rank id'')
      else Inr shard_dims)"

definition LocalShard :: "int \<Rightarrow> int \<Rightarrow> int \<Rightarrow> exn + int" where
  "LocalShard first_dim rank server_num =
     (case AllRankLocalShard first_dim rank server_num of Inl e \<Rightarrow> Inl e
      | Inr shard_dims \<Rightarrow> (case map_of shard_dims rank of None \<Rightarrow> Inl (MsException ''Invalid rank id'') | Some c \<Rightarrow> Inr c))"

section \<open>State and messages\<close>

text \<open>\<open>EmbeddingTableShardMetadata\<close>: the first and the last row of a server.\<close>

record EmbeddingTableShardMetadata =
  shard_begin :: u64
  shard_end :: u64

definition shard_size :: "EmbeddingTableShardMetadata \<Rightarrow> u64" where
  "shard_size r = shard_end r - shard_begin r"

text \<open>\<open>embedding_table_ranges_\<close> holds shared pointers; \<open>None\<close> is the null pointer \<open>operator[]\<close> inserts.\<close>

record ps_worker =
  embedding_table_ranges :: "(u64 \<times> EmbeddingTableShardMetadata list option) list"
  server_num :: int
  key_to_server_id :: "(u64 \<times> int) list"
  embedding_row_cnt :: "(u64 \<times> u64) list"
  init_keys :: "(u64 \<times> bool) list"
  lookup_slicer :: bool

definition new_ps_worker :: ps_worker where
  "new_ps_worker = \<lparr> embedding_table_ranges = [], server_num = 3, key_to_server_id = [], embedding_row_cnt = [],
     init_keys = [], lookup_slicer = False \<rparr>"

definition ps_Initialize :: "ps_worker \<Rightarrow> ps_worker" where
  "ps_Initialize w = w\<lparr> lookup_slicer := True \<rparr>"

type_synonym float32 = u32

record KVMessage =
  kv_keys :: "int list"
  kv_values :: "float32 list"
  kv_len :: "int list"

definition empty_kv :: KVMessage where
  "empty_kv = \<lparr> kv_keys = [], kv_values = [], kv_len = [] \<rparr>"

record EmbeddingTableLookup =
  lk_key :: u64
  lk_keys :: "int list"
  lk_values :: "float32 list"

definition empty_lookup :: EmbeddingTableLookup where
  "empty_lookup = \<lparr> lk_key = 0, lk_keys = [], lk_values = [] \<rparr>"

record EmbeddingTableMeta =
  meta_key :: u64
  meta_input_shape :: "u64 list"
  meta_indices_shape :: "u64 list"
  meta_output_shape :: "u64 list"

type_synonym SlicedKVMessages = "(bool \<times> KVMessage) list"
type_synonym SlicedEmbeddingMessages = "(bool \<times> EmbeddingTableLookup) list"

definition resize :: "'a \<Rightarrow> nat \<Rightarrow> 'a list \<Rightarrow> 'a list" where
  "resize dflt n xs = take n xs @ replicate (n - length xs) dflt"

text \<open>Conversions between \<open>int32\<close> and \<open>uint64\<close>.\<close>

definition to_key :: "int \<Rightarrow> u64" where "to_key x = word_of_int x"

definition of_key :: "u64 \<Rightarrow> int" where "of_key k = int32 (uint k)"

definition in_range :: "EmbeddingTableShardMetadata \<Rightarrow> u64 \<Rightarrow> bool" where
  "in_range r row \<longleftrightarrow> shard_begin r \<le> row \<and> row \<le> shard_end r"

section \<open>Tables and keys\<close>

text \<open>The loop of \<open>AddEmbeddingTable\<close> after \<open>n\<close> passes: \<open>begin\<close>, \<open>end\<close> and the ranges pushed.\<close>

primrec shard_loop :: "nat \<Rightarrow> int \<Rightarrow> int \<Rightarrow> exn + (u64 \<times> u64) \<times> EmbeddingTableShardMetadata list" where
  "shard_loop 0 row_count sn = Inr ((0, 0), [])"
| "shard_loop (Suc i) row_count sn =
     (case shard_loop i row_count sn of Inl e \<Rightarrow> Inl e
      | Inr ((bgn, ende), rs) \<Rightarrow>
         (case LocalShard row_count (int i) sn of Inl e \<Rightarrow> Inl e
          | Inr local_row_cnt \<Rightarrow>
             (let (bgn, ende) = (if i = 0 then (bgn, word_of_int (local_row_cnt - 1)) else (ende + 1, ende + word_of_int local_row_cnt))
              in Inr ((bgn, ende), rs @ [\<lparr> shard_begin = bgn, shard_end = ende \<rparr>]))))"

text \<open>
  \<open>LocalShard\<close> can only throw in the first pass, before anything is pushed; a null entry left by a
  slicer is dereferenced by \<open>push_back\<close>.
\<close>

definition AddEmbeddingTable :: "u64 \<Rightarrow> u64 \<Rightarrow> ps_worker \<Rightarrow> (exn + unit) \<times> ps_worker" where
  "AddEmbeddingTable key row_count w =
     (case shard_loop (nat (server_num w)) (sint row_count) (server_num w) of Inl e \<Rightarrow> (Inl e, w)
      | Inr (_, rs) \<Rightarrow>
         (let done = (\<lambda>old. w\<lparr> embedding_table_ranges :=
                 (if rs = [] then embedding_table_ranges w else map_set key (Some (old @ rs)) (embedding_table_ranges w)),
               embedding_row_cnt := map_set key row_count (embedding_row_cnt w) \<rparr>)
          in case map_of (embedding_table_ranges w) key of None \<Rightarrow> (Inr (), done [])
             | Some (Some old) \<Rightarrow> (Inr (), done old)
             | Some None \<Rightarrow> if rs = [] then (Inr (), done []) else (Inl (Undefined ''push_back''), w)))"

definition AddKeyByHashMod :: "u64 \<Rightarrow> ps_worker \<Rightarrow> (exn + unit) \<times> ps_worker" where
  "AddKeyByHashMod key w =
     (if server_num w = 0 then (Inl (MsException ''Server number is invalid:0''), w)
      else (Inr (), w\<lparr> key_to_server_id := map_set key (sint (key mod word_of_int (server_num w))) (key_to_server_id w) \<rparr>))"

definition AddKeyToServerId :: "u64 \<Rightarrow> ps_worker \<Rightarrow> (exn + unit) \<times> ps_worker" where
  "AddKeyToServerId key w = AddKeyByHashMod key w"

definition IsKeyInit :: "u64 \<Rightarrow> ps_worker \<Rightarrow> bool" where
  "IsKeyInit key w = (case map_of (init_keys w) key of None \<Rightarrow> False | Some b \<Rightarrow> b)"

text \<open>
  \<open>InitPSEmbeddingTable\<close> and \<open>UpdateEmbeddingTable\<close> fill in a message that goes out of scope at the end of the
  function; the results are the message and the worker.
\<close>

definition InitPSEmbeddingTable :: "u64 \<Rightarrow> u64 list \<Rightarrow> u64 list \<Rightarrow> u64 list \<Rightarrow> ps_worker \<Rightarrow> EmbeddingTableMeta option \<times> ps_worker" where
  "InitPSEmbeddingTable key input_shape indices_shape output_shape w =
     (if IsKeyInit key w then (None, w)
      else (Some \<lparr> meta_key = key, meta_input_shape = input_shape, meta_indices_shape = indices_shape,
                   meta_output_shape = output_shape \<rparr>, w))"

definition UpdateEmbeddingTable :: "u64 list \<Rightarrow> int list \<Rightarrow> float32 list \<Rightarrow> ps_worker \<Rightarrow> KVMessage \<times> ps_worker" where
  "UpdateEmbeddingTable keys lookup_ids vals w =
     (\<lparr> kv_keys = map of_key keys, kv_values = vals, kv_len = lookup_ids \<rparr>, w)"

text \<open>Initialising a table does not make its key initialised.\<close>

lemma InitPSEmbeddingTable_no_effect:
  "IsKeyInit key (snd (InitPSEmbeddingTable key input_shape indices_shape output_shape w)) = IsKeyInit key w"
  by (simp add: InitPSEmbeddingTable_def)

section \<open>Slicers\<close>

text \<open>\<open>*(embedding_table_ranges_[key])\<close>: a missing key gets a null entry, whose dereference is undefined.\<close>

definition ranges_of :: "u64 \<Rightarrow> ps_worker \<Rightarrow> (exn + EmbeddingTableShardMetadata list) \<times> ps_worker" where
  "ranges_of key w =
     (case map_index None key (embedding_table_ranges w) of (p, rs) \<Rightarrow>
        (case p of None \<Rightarrow> Inl (Undefined ''embedding_table_ranges_'') | Some ranges \<Rightarrow> Inr ranges,
         w\<lparr> embedding_table_ranges := rs \<rparr>))"

definition lookup_slice :: "EmbeddingTableLookup \<Rightarrow> EmbeddingTableShardMetadata \<Rightarrow> bool \<times> EmbeddingTableLookup \<Rightarrow> bool \<times> EmbeddingTableLookup" where
  "lookup_slice send rng old =
     (let unique_ids = remdups (filter (\<lambda>lookup_id. in_range rng (to_key lookup_id)) (lk_keys send));
          kvs = (snd old)\<lparr> lk_key := lk_key send, lk_keys := unique_ids \<rparr>
      in (lk_keys kvs \<noteq> [], kvs))"

definition LookupIdSlicer ::
  "EmbeddingTableLookup \<Rightarrow> SlicedEmbeddingMessages \<Rightarrow> ps_worker \<Rightarrow> (exn + SlicedEmbeddingMessages) \<times> ps_worker" where
  "LookupIdSlicer send sliced w =
     (case ranges_of (lk_key send) w of (Inl e, w') \<Rightarrow> (Inl e, w')
      | (Inr ranges, w') \<Rightarrow>
          (Inr (map2 (lookup_slice send) ranges (resize (False, empty_lookup) (length ranges) sliced)), w'))"

text \<open>
  \<open>WorkerInitEmbeddingSlicer\<close>: a division by the missing row count 0 and iterators outside the values
  are undefined, \<open>at\<close> throws where there are more ranges than servers.
\<close>

definition init_slice :: "KVMessage \<Rightarrow> nat \<Rightarrow> EmbeddingTableShardMetadata \<Rightarrow> exn + bool \<times> KVMessage" where
  "init_slice send col_cnt rng =
     (let offset_begin = unat (shard_begin rng * word_of_nat col_cnt);
          offset_end = unat ((shard_end rng + 1) * word_of_nat col_cnt)
      in if offset_begin \<le> offset_end \<and> offset_end \<le> length (kv_values send)
         then Inr (True, empty_kv\<lparr> kv_keys := kv_keys send, kv_values := take (offset_end - offset_begin) (drop offset_begin (kv_values send)) \<rparr>)
         else Inl (Undefined ''values''))"

fun init_slices :: "KVMessage \<Rightarrow> nat \<Rightarrow> EmbeddingTableShardMetadata list \<Rightarrow> SlicedKVMessages \<Rightarrow> exn + SlicedKVMessages" where
  "init_slices send col_cnt [] sliced = Inr sliced"
| "init_slices send col_cnt (rng # ranges) sliced =
     (case init_slice send col_cnt rng of Inl e \<Rightarrow> Inl e
      | Inr s \<Rightarrow> (case sliced of [] \<Rightarrow> Inl (MsException ''out_of_range'')
          | _ # rest \<Rightarrow> (case init_slices send col_cnt ranges rest of Inl e \<Rightarrow> Inl e | Inr rest' \<Rightarrow> Inr (s # rest'))))"

definition WorkerInitEmbeddingSlicer :: "KVMessage \<Rightarrow> SlicedKVMessages \<Rightarrow> ps_worker \<Rightarrow> (exn + SlicedKVMessages) \<times> ps_worker" where
  "WorkerInitEmbeddingSlicer send sliced w =
     (let sliced = resize (False, empty_kv) (nat (server_num w)) sliced in
      if kv_keys send = [] then (Inl (Undefined ''keys[0]''), w)
      else let key = to_key (hd (kv_keys send)); (rows, cnts) = map_index 0 key (embedding_row_cnt w);
               w1 = w\<lparr> embedding_row_cnt := cnts \<rparr> in
      if rows = 0 then (Inl (Undefined ''division by zero''), w1)
      else (case ranges_of key w1 of (Inl e, w2) \<Rightarrow> (Inl e, w2)
            | (Inr ranges, w2) \<Rightarrow> (init_slices send (length (kv_values send) div unat rows) ranges sliced, w2)))"

text \<open>One key of \<open>RoundRobinSlicer\<close>: its values go to the server of the key, an unknown key to server 0.\<close>

definition rr_step :: "KVMessage \<Rightarrow> nat \<Rightarrow> ps_worker \<times> SlicedKVMessages \<Rightarrow> exn + ps_worker \<times> SlicedKVMessages" where
  "rr_step send i st =
     (case st of (w, sliced) \<Rightarrow>
        (let param_key = to_key (kv_keys send ! i); (server_id, ids) = map_index 0 param_key (key_to_server_id w);
             w' = w\<lparr> key_to_server_id := ids \<rparr> in
         if server_id < 0 \<or> length sliced \<le> nat server_id then Inl (MsException ''out_of_range'')
         else if length (kv_len send) \<le> i then Inl (Undefined ''lens'')
         else let len = kv_len send ! i; offset = sum_list (take i (kv_len send)) in
         if len < 0 \<or> offset < 0 \<or> int (length (kv_values send)) < offset + len then Inl (Undefined ''values'')
         else let kv = snd (sliced ! nat server_id);
                  kv' = \<lparr> kv_keys = kv_keys kv @ [of_key param_key],
                          kv_values = kv_values kv @ take (nat len) (drop (nat offset) (kv_values send)),
                          kv_len = kv_len kv @ [len] \<rparr>
              in Inr (w', sliced[nat server_id := (True, kv')])))"

primrec rr_loop :: "KVMessage \<Rightarrow> nat \<Rightarrow> ps_worker \<times> SlicedKVMessages \<Rightarrow> exn + ps_worker \<times> SlicedKVMessages" where
  "rr_loop send 0 st = Inr st"
| "rr_loop send (Suc i) st = (case rr_loop send i st of Inl e \<Rightarrow> Inl e | Inr st' \<Rightarrow> rr_step send i st')"

definition RoundRobinSlicer :: "KVMessage \<Rightarrow> SlicedKVMessages \<Rightarrow> ps_worker \<Rightarrow> exn + ps_worker \<times> SlicedKVMessages" where
  "RoundRobinSlicer send sliced w =
     rr_loop send (length (kv_keys send)) (w, resize (False, empty_kv) (nat (server_num w)) sliced)"

text \<open>
  \<open>SparseSlicer\<close>: the gradients and indices lie behind one another in the values; \<open>indice_data\<close> reads
  the bit patterns as \<open>int\<close>.  The reduction of the gradients is commented out in the code.
\<close>

definition sparse_slice :: "KVMessage \<Rightarrow> u64 list \<Rightarrow> EmbeddingTableShardMetadata \<Rightarrow> bool \<times> KVMessage \<Rightarrow> bool \<times> KVMessage" where
  "sparse_slice send indices rng old =
     (let kvs = (snd old)\<lparr> kv_keys := kv_keys send, kv_len := kv_len send \<rparr>;
          indice_ids = filter (in_range rng) indices
      in (True, if indice_ids = [] then kvs\<lparr> kv_values := [0xC2C80000], kv_len := [] \<rparr> else kvs))"

definition SparseSlicer ::
  "KVMessage \<Rightarrow> SlicedKVMessages \<Rightarrow> (int \<times> int) list \<Rightarrow> ps_worker \<Rightarrow> (exn + SlicedKVMessages) \<times> ps_worker" where
  "SparseSlicer send sliced attrs w =
     (case (map_of attrs 0, map_of attrs 1, map_of attrs 2, map_of attrs 3) of
        (Some g, Some n, Some _, Some _) \<Rightarrow>
          (let grad_index = unat (word_of_int g :: u64); indice_index = unat (word_of_int n :: u64) in
           if length (kv_len send) \<le> grad_index \<or> length (kv_len send) \<le> indice_index then (Inl (Undefined ''len''), w)
           else let indice_size = kv_len send ! indice_index;
                    indice_offset = sum_list (take indice_index (kv_len send)) in
           if indice_size = 0 then (Inl (Undefined ''division by zero''), w)
           else if indice_size > 0 \<and> (indice_offset < 0 \<or> int (length (kv_values send)) < indice_offset + indice_size)
           then (Inl (Undefined ''indice_data''), w)
           else if kv_keys send = [] then (Inl (Undefined ''keys[0]''), w)
           else let indices = map (\<lambda>v. word_of_int (sint v)) (take (nat indice_size) (drop (nat indice_offset) (kv_values send))) in
           (case ranges_of (to_key (hd (kv_keys send))) w of (Inl e, w') \<Rightarrow> (Inl e, w')
            | (Inr ranges, w') \<Rightarrow>
                (Inr (map2 (sparse_slice send indices) ranges (resize (False, empty_kv) (length ranges) sliced)), w')))
      | _ \<Rightarrow> (Inl (MsException ''Invalid attrs keys''), w))"

definition update_slice :: "KVMessage \<Rightarrow> nat \<Rightarrow> EmbeddingTableShardMetadata \<Rightarrow> bool \<times> KVMessage \<Rightarrow> bool \<times> KVMessage" where
  "update_slice send embedding_dim rng old =
     (let key = hd (kv_keys send);
          js = filter (\<lambda>j. in_range rng (to_key (kv_len send ! j))) [0..<length (kv_len send)];
          kvs = (snd old)\<lparr> kv_keys := kv_keys (snd old) @ [of_key (to_key key)] @ map (\<lambda>j. of_key (to_key (kv_len send ! j))) js,
                  kv_values := kv_values (snd old) @ concat (map (\<lambda>j. take embedding_dim (drop (j * embedding_dim) (kv_values send))) js) \<rparr>
      in (length (kv_keys kvs) > 1, kvs))"

definition UpdateEmbeddingSlicer :: "KVMessage \<Rightarrow> SlicedKVMessages \<Rightarrow> ps_worker \<Rightarrow> (exn + SlicedKVMessages) \<times> ps_worker" where
  "UpdateEmbeddingSlicer send sliced w =
     (if kv_len send = [] then (Inl (Undefined ''division by zero''), w)
      else if kv_keys send = [] then (Inl (Undefined ''keys[0]''), w)
      else (case ranges_of (to_key (hd (kv_keys send))) w of (Inl e, w') \<Rightarrow> (Inl e, w')
            | (Inr ranges, w') \<Rightarrow>
                (Inr (map2 (update_slice send (length (kv_values send) div length (kv_len send))) ranges
                        (resize (False, empty_kv) (length ranges) sliced)), w')))"

text \<open>\<open>DoPSEmbeddingLookup\<close> collects the messages per server; nothing is sent, and the result is never written.\<close>

definition DoPSEmbeddingLookup ::
  "u64 \<Rightarrow> int list \<Rightarrow> ps_worker \<Rightarrow> (exn + (nat \<times> EmbeddingTableLookup) list) \<times> ps_worker" where
  "DoPSEmbeddingLookup key lookup_ids w =
     (if \<not> lookup_slicer w then (Inl (MsException ''bad_function_call''), w)
      else (case LookupIdSlicer (empty_lookup\<lparr> lk_key := key, lk_keys := lookup_ids \<rparr>) [] w of (Inl e, w') \<Rightarrow> (Inl e, w')
            | (Inr messages, w') \<Rightarrow>
                (Inr (map (\<lambda>i. (i, snd (messages ! i))) (filter (\<lambda>i. fst (messages ! i)) [0..<length messages])), w')))"

text \<open>
  \<open>PrepareSparseGradient\<close> copies the segments of the listed indices one behind the other; \<open>memcpy_s\<close>
  refuses a segment of size 0, after the index has been written.
\<close>

fun prepare_loop ::
  "int list \<Rightarrow> nat \<Rightarrow> (int \<times> float32 list) list \<Rightarrow> nat \<Rightarrow> nat \<Rightarrow> float32 list \<Rightarrow> int list \<Rightarrow> exn + float32 list \<times> int list" where
  "prepare_loop distinct_ids seg [] offset index gradient indices = Inr (gradient, indices)"
| "prepare_loop distinct_ids seg ((indice, grad) # pairs) offset index gradient indices =
     (if indice \<notin> set distinct_ids then prepare_loop distinct_ids seg pairs offset index gradient indices
      else if length indices \<le> index then Inl (Undefined ''indices'')
      else let indices = indices[index := indice] in
      if seg = 0 then Inr (gradient, indices)
      else if length gradient < offset + seg \<or> length grad < seg then Inl (Undefined ''gradient'')
      else prepare_loop distinct_ids seg pairs (offset + seg) (index + 1)
             (take offset gradient @ take seg grad @ drop (offset + seg) gradient) indices)"

definition PrepareSparseGradient ::
  "int list \<Rightarrow> (int \<times> float32 list) list \<Rightarrow> nat \<Rightarrow> float32 list \<Rightarrow> int list \<Rightarrow> exn + float32 list \<times> int list" where
  "PrepareSparseGradient distinct_ids indice_to_grad seg gradient indices =
     prepare_loop distinct_ids seg indice_to_grad 0 0 gradient indices"

section \<open>Rows per server\<close>

lemma map_of_zeros: "map_of (map (\<lambda>i. (i, 0)) [0..sn - 1]) r = (if 0 \<le> r \<and> r < sn then Some (0 :: int) else None)"
  by (simp add: map_of_map_restrict restrict_map_def)

lemma div_mod_Suc:
  assumes "0 < sn" "0 \<le> r" "r < sn" "0 \<le> n"
  shows "(n + 1) div sn + (if r < (n + 1) mod sn then 1 else 0) =
    n div sn + (if r < n mod sn then 1 else 0) + (if r = n mod sn then 1 else (0 :: int))"
proof -
  define q m where "q = n div sn" and "m = n mod sn"
  have n: "n = sn * q + m" "0 \<le> m" "m < sn" using assms by (simp_all add: q_def m_def)
  show ?thesis
  proof (cases "m + 1 = sn")
    case True
    with n have "n + 1 = sn * (q + 1) + 0" by (simp add: algebra_simps)
    then have "(n + 1) div sn = q + 1" "(n + 1) mod sn = 0"
      using assms(1) int_div_pos_eq [of "n + 1" sn "q + 1" 0] int_mod_pos_eq [of "n + 1" sn "q + 1" 0] by simp_all
    with True assms show ?thesis by (simp add: q_def [symmetric] m_def [symmetric])
  next
    case False
    with n have "n + 1 = sn * q + (m + 1)" "0 \<le> m + 1" "m + 1 < sn" by simp_all
    then have "(n + 1) div sn = q" "(n + 1) mod sn = m + 1"
      using int_div_pos_eq [of "n + 1" sn q "m + 1"] int_mod_pos_eq [of "n + 1" sn q "m + 1"] by simp_all
    then show ?thesis by (simp add: q_def [symmetric] m_def [symmetric])
  qed
qed

lemma deal_rows_state:
  assumes "0 < sn"
  shows "fst (deal_rows n sn (map (\<lambda>i. (i, 0)) [0..sn - 1])) = (if n = 0 then -1 else (int n - 1) mod sn)"
    and "map_of (snd (deal_rows n sn (map (\<lambda>i. (i, 0)) [0..sn - 1]))) r =
      (if 0 \<le> r \<and> r < sn then Some (int n div sn + (if r < int n mod sn then 1 else 0)) else None)"
proof (induction n arbitrary: r)
  case 0
  case 1
  show ?case by simp
next
  case 0
  case 2
  show ?case by (simp add: map_of_zeros)
next
  case (Suc n)
  have idx: "(fst (deal_rows n sn (map (\<lambda>i. (i, 0)) [0..sn - 1])) + 1) mod sn = int n mod sn"
    using Suc.IH(1) assms by (simp add: mod_add_left_eq)
  case 1
  show ?case using idx by (simp add: case_prod_beta Let_def)
next
  case (Suc n)
  let ?d = "deal_rows n sn (map (\<lambda>i. (i, 0)) [0..sn - 1])" and ?i = "int n mod sn"
  have idx: "(fst ?d + 1) mod sn = ?i" using Suc.IH(1) assms by (simp add: mod_add_left_eq)
  have bnd: "0 \<le> ?i" "?i < sn" using assms by simp_all
  have at: "map_of (snd ?d) ?i = Some (int n div sn)" using Suc.IH(2) [of ?i] bnd by simp
  have new: "map_of (snd (deal_rows (Suc n) sn (map (\<lambda>i. (i, 0)) [0..sn - 1]))) = (map_of (snd ?d))(?i \<mapsto> int n div sn + 1)"
    using map_index_present [OF at, of 0] idx by (simp add: case_prod_beta Let_def)
  case 2
  show ?case
    using div_mod_Suc [OF assms, of r "int n"] bnd Suc.IH(2) [of r] unfolding new by (auto simp: add.commute)
qed

lemma LocalShard_rank:
  assumes "0 < rows" "0 \<le> r" "r < sn"
  shows "LocalShard rows r sn = Inr (rows div sn + (if r < rows mod sn then 1 else 0))"
  using deal_rows_state(2) [of sn "nat rows" r] assms
  by (simp add: LocalShard_def AllRankLocalShard_def Let_def)

section \<open>The ranges of a table\<close>

text \<open>The first row of server \<open>j\<close>.\<close>

definition row_start :: "int \<Rightarrow> int \<Rightarrow> nat \<Rightarrow> int" where
  "row_start rows sn j = int j * (rows div sn) + min (int j) (rows mod sn)"

lemma row_start_0 [simp]: "0 < sn \<Longrightarrow> row_start rows sn 0 = 0"
  by (simp add: row_start_def)

lemma row_start_Suc:
  "row_start rows sn (Suc j) = row_start rows sn j + (rows div sn + (if int j < rows mod sn then 1 else 0))"
  by (auto simp: row_start_def algebra_simps)

lemma row_start_end:
  assumes "0 < sn"
  shows "row_start rows sn (nat sn) = rows"
  using pos_mod_bound [OF assms, of rows] assms by (simp add: row_start_def)

lemma row_start_mono: "0 < sn \<Longrightarrow> 0 \<le> rows \<Longrightarrow> i \<le> j \<Longrightarrow> row_start rows sn i \<le> row_start rows sn j"
  by (rule lift_Suc_mono_le [of "row_start rows sn"]) (auto simp: row_start_Suc pos_imp_zdiv_nonneg_iff)

lemma row_start_pos:
  assumes "0 < sn" "0 < rows"
  shows "0 < row_start rows sn (Suc j)"
proof -
  have "0 < row_start rows sn (Suc 0)"
  proof (cases "rows div sn = 0")
    case True
    then have "rows mod sn = rows" using assms by (simp add: mod_div_trivial minus_div_mult_eq_mod [symmetric])
    with True assms show ?thesis by (simp add: row_start_def)
  next
    case False
    then have "0 < rows div sn" using assms by (simp add: less_le pos_imp_zdiv_nonneg_iff)
    with assms show ?thesis by (simp add: row_start_def add_pos_nonneg)
  qed
  with row_start_mono [OF assms(1), of rows "Suc 0" "Suc j"] assms show ?thesis by simp
qed

definition table_range :: "int \<Rightarrow> int \<Rightarrow> nat \<Rightarrow> EmbeddingTableShardMetadata" where
  "table_range rows sn j = \<lparr> shard_begin = word_of_int (row_start rows sn j), shard_end = word_of_int (row_start rows sn (Suc j) - 1) \<rparr>"

lemma shard_loop_ranges:
  assumes "0 < sn" "0 < rows" "int i \<le> sn"
  shows "\<exists>b. shard_loop i rows sn = Inr ((b, if i = 0 then 0 else word_of_int (row_start rows sn i - 1)), map (table_range rows sn) [0..<i])
    \<and> (i = 0 \<longrightarrow> b = 0)"
  using assms(3)
proof (induction i)
  case (Suc i)
  then obtain b where b: "shard_loop i rows sn =
      Inr ((b, if i = 0 then 0 else word_of_int (row_start rows sn i - 1)), map (table_range rows sn) [0..<i])" "i = 0 \<longrightarrow> b = 0"
    by auto
  let ?n = "rows div sn + (if int i < rows mod sn then 1 else 0)"
  have loc: "LocalShard rows (int i) sn = Inr ?n" using LocalShard_rank [OF assms(2)] Suc.prems by simp
  have step: "word_of_int (row_start rows sn i - 1) + word_of_int ?n = (word_of_int (row_start rows sn (Suc i) - 1) :: u64)"
    unfolding wi_hom_add by (simp add: row_start_Suc algebra_simps)
  show ?case
  proof (cases i)
    case 0
    with b loc assms(1) show ?thesis
      by (simp add: table_range_def row_start_Suc)
  next
    case (Suc k)
    then have "shard_loop (Suc i) rows sn = Inr ((word_of_int (row_start rows sn i), word_of_int (row_start rows sn (Suc i) - 1)),
        map (table_range rows sn) [0..<i] @ [table_range rows sn i])"
      using b(1) loc step by (simp add: table_range_def Let_def)
    then show ?thesis by simp
  qed
qed simp

lemma AddEmbeddingTable_fresh:
  assumes "map_of (embedding_table_ranges w) key = None" "0 < server_num w" "0 < sint row_count"
  shows "AddEmbeddingTable key row_count w =
    (Inr (), w\<lparr> embedding_table_ranges := map_set key (Some (map (table_range (sint row_count) (server_num w)) [0..<nat (server_num w)]))
                  (embedding_table_ranges w),
               embedding_row_cnt := map_set key row_count (embedding_row_cnt w) \<rparr>)"
  using shard_loop_ranges [OF assms(2,3), of "nat (server_num w)"] assms
  by (auto simp: AddEmbeddingTable_def Let_def)

lemma unique_interval:
  fixes f :: "nat \<Rightarrow> int"
  assumes "\<And>i j. i \<le> j \<Longrightarrow> f i \<le> f j" "f 0 \<le> r"
  shows "r < f n \<Longrightarrow> \<exists>!j. j < n \<and> f j \<le> r \<and> r < f (Suc j)"
proof (induction n)
  case (Suc n)
  have no: "\<not> (f j \<le> r \<and> r < f (Suc j))" if "j < n" "f n \<le> r" for j
    using assms(1) [of "Suc j" n] that by auto
  have no': "\<not> f n \<le> r" if "r < f n" using that by simp
  show ?case
  proof (cases "r < f n")
    case True
    from Suc.IH [OF this] no' [OF True] show ?thesis by (metis less_Suc_eq)
  next
    case False
    with no Suc.prems show ?thesis by (intro ex1I [of _ n]) (auto simp: less_Suc_eq)
  qed
qed (use assms in simp)

lemma uint_word_id: "0 \<le> x \<Longrightarrow> x < 2 ^ 64 \<Longrightarrow> uint (word_of_int x :: u64) = x"
  by (simp add: uint_word_of_int)

lemma in_table_range:
  assumes "0 < sn" "0 < rows" "rows < 2 ^ 63" "int j < sn" 
  shows "in_range (table_range rows sn j) r \<longleftrightarrow> row_start rows sn j \<le> uint r \<and> uint r < row_start rows sn (Suc j)"
proof -
  have mono: "row_start rows sn i \<le> row_start rows sn k" if "i \<le> k" for i k using row_start_mono assms that by simp
  have "row_start rows sn (Suc j) \<le> rows"
    using mono [of "Suc j" "nat sn"] row_start_end [OF assms(1)] assms(4) by simp
  moreover have "0 \<le> row_start rows sn j" using mono [of 0 j] assms(1) by simp
  moreover have "row_start rows sn j \<le> row_start rows sn (Suc j)" by (rule mono) simp
  moreover have "0 < row_start rows sn (Suc j)" by (rule row_start_pos [OF assms(1,2)])
  ultimately have "uint (word_of_int (row_start rows sn j) :: u64) = row_start rows sn j"
    "uint (word_of_int (row_start rows sn (Suc j) - 1) :: u64) = row_start rows sn (Suc j) - 1"
    using assms(3) by (intro uint_word_id; simp)+
  then show ?thesis
    unfolding in_range_def table_range_def word_le_def EmbeddingTableShardMetadata.simps by linarith
qed

text \<open>Every row of the table lies in exactly one range, and no other row in any.\<close>

definition partitions :: "EmbeddingTableShardMetadata list \<Rightarrow> u64 \<Rightarrow> bool" where
  "partitions rs row_count \<longleftrightarrow>
     (\<forall>r. if r < row_count then \<exists>!j. j < length rs \<and> in_range (rs ! j) r else \<forall>j < length rs. \<not> in_range (rs ! j) r)"

lemma sint_small:
  assumes "n < 2 ^ 63"
  shows "sint (n :: u64) = uint n"
proof -
  have "uint n < 2 ^ 63" using assms by (simp add: word_less_def)
  moreover have "- (2 ^ 63) \<le> uint n" by (rule order_trans [OF _ uint_ge_0]) simp
  ultimately have "signed_take_bit 63 (uint n) = uint n" by (intro signed_take_bit_int_eq_self) simp_all
  then show ?thesis by (simp add: sint_uint)
qed

lemma table_partitions:
  assumes "0 < sn" "0 < row_count" "row_count < 2 ^ 63"
  shows "partitions (map (table_range (uint row_count) sn) [0..<nat sn]) row_count"
  unfolding partitions_def
proof (intro allI)
  fix r :: u64
  let ?rows = "uint row_count" and ?n = "nat sn"
  have rows: "0 < ?rows" "?rows < 2 ^ 63" using assms(2,3) by (simp_all add: word_less_def)
  have mono: "row_start ?rows sn i \<le> row_start ?rows sn j" if "i \<le> j" for i j using row_start_mono assms(1) rows that by simp
  have at: "in_range (table_range ?rows sn j) r \<longleftrightarrow> row_start ?rows sn j \<le> uint r \<and> uint r < row_start ?rows sn (Suc j)" if "j < ?n" for j
    using in_table_range [OF assms(1) rows, of j r] that by simp
  have iff: "(j < ?n \<and> in_range (map (table_range ?rows sn) [0..<?n] ! j) r) \<longleftrightarrow>
      (j < ?n \<and> row_start ?rows sn j \<le> uint r \<and> uint r < row_start ?rows sn (Suc j))" for j
    using at [of j] by auto
  show "if r < row_count then \<exists>!j. j < length (map (table_range ?rows sn) [0..<?n]) \<and> in_range (map (table_range ?rows sn) [0..<?n] ! j) r
      else \<forall>j < length (map (table_range ?rows sn) [0..<?n]). \<not> in_range (map (table_range ?rows sn) [0..<?n] ! j) r"
  proof (cases "r < row_count")
    case True
    then have "uint r < row_start ?rows sn ?n" using row_start_end [OF assms(1)] by (simp add: word_less_def)
    with unique_interval [of "row_start ?rows sn" "uint r" ?n] mono assms(1) True show ?thesis by (simp add: iff)
  next
    case False
    then have "?rows \<le> uint r" by (simp add: word_less_def)
    moreover have "row_start ?rows sn (Suc j) \<le> ?rows" if "j < ?n" for j
      using mono [of "Suc j" ?n] row_start_end [OF assms(1)] that by simp
    ultimately have "\<not> in_range (table_range ?rows sn j) r" if "j < ?n" for j using at [OF that] that by fastforce
    with False show ?thesis by simp
  qed
qed

section \<open>Properties of the table and of lookups\<close>

text \<open>
  \<open>LocalShard\<close> deals the rows out evenly.  For a positive number of rows and a rank below the number
  of servers, it is the quotient, plus one for the first ranks that share the remainder; every other
  argument throws.
\<close>

theorem LocalShard_closed_form:
  "LocalShard rows r sn =
     (if 0 < rows \<and> 0 \<le> r \<and> r < sn then Inr (rows div sn + (if r < rows mod sn then 1 else 0))
      else if rows \<le> 0 \<or> sn \<le> 0 \<or> r < 0 then Inl (MsException ''Input values are invalid.'')
      else Inl (MsException ''The rank ID should be less than the number of servers''))"
  using LocalShard_rank [of rows r sn] by (simp add: LocalShard_def AllRankLocalShard_def)

text \<open>
  C23: \<open>AddEmbeddingTable\<close> for a new key gives every server one range, and these partition the table: each
  row belongs to exactly one server, also when there are fewer rows than servers.
\<close>

theorem table_ranges_partition:
  assumes "map_of (embedding_table_ranges w) key = None" "0 < server_num w" "0 < row_count" "row_count < 2 ^ 63"
  shows "\<exists>rs w'. AddEmbeddingTable key row_count w = (Inr (), w') \<and> map_of (embedding_table_ranges w') key = Some (Some rs)
    \<and> int (length rs) = server_num w \<and> partitions rs row_count"
proof -
  have "0 < sint row_count" using assms(3,4) by (simp add: sint_small word_less_def)
  from AddEmbeddingTable_fresh [OF assms(1,2) this] table_partitions [OF assms(2-4)] assms(2,4) show ?thesis
    by (simp add: sint_small)
qed

theorem table_ranges_partition_witness:
  "\<exists>rs w'. AddEmbeddingTable 5 2 new_ps_worker = (Inr (), w') \<and> map_of (embedding_table_ranges w') 5 = Some (Some rs)
    \<and> int (length rs) = 3 \<and> partitions rs 2"
  using table_ranges_partition [of new_ps_worker 5 2] by (simp add: new_ps_worker_def)

lemma ranges_of_present:
  "map_of (embedding_table_ranges w) key = Some (Some rs) \<Longrightarrow> ranges_of key w = (Inr rs, w)"
  by (simp add: ranges_of_def map_index_present)

lemma LookupIdSlicer_slices:
  assumes "map_of (embedding_table_ranges w) (lk_key send) = Some (Some rs)"
  shows "LookupIdSlicer send [] w = (Inr (map (\<lambda>r. lookup_slice send r (False, empty_lookup)) rs), w)"
  by (simp add: LookupIdSlicer_def ranges_of_present [OF assms] resize_def)
    (simp add: map2_map_map [symmetric] zip_replicate2)

text \<open>The messages \<open>DoPSEmbeddingLookup\<close> collects, server by server.\<close>

definition server_ids :: "int list \<Rightarrow> EmbeddingTableShardMetadata \<Rightarrow> int list" where
  "server_ids ids r = remdups (filter (\<lambda>i. in_range r (to_key i)) ids)"

definition lookup_messages :: "u64 \<Rightarrow> int list \<Rightarrow> EmbeddingTableShardMetadata list \<Rightarrow> (nat \<times> EmbeddingTableLookup) list" where
  "lookup_messages key ids rs =
     map (\<lambda>j. (j, \<lparr> lk_key = key, lk_keys = server_ids ids (rs ! j), lk_values = [] \<rparr>))
       (filter (\<lambda>j. server_ids ids (rs ! j) \<noteq> []) [0..<length rs])"

lemma DoPSEmbeddingLookup_messages:
  assumes "map_of (embedding_table_ranges w) key = Some (Some rs)" "lookup_slicer w"
  shows "DoPSEmbeddingLookup key ids w = (Inr (lookup_messages key ids rs), w)"
  using LookupIdSlicer_slices [of w "empty_lookup\<lparr> lk_key := key, lk_keys := ids \<rparr>" rs] assms
  by (simp add: DoPSEmbeddingLookup_def lookup_messages_def lookup_slice_def Let_def server_ids_def [symmetric] empty_lookup_def)
    (intro map_cong filter_cong; simp)

lemma set_lookup_messages:
  "m \<in> set (lookup_messages key ids rs) \<longleftrightarrow>
     (\<exists>j < length rs. server_ids ids (rs ! j) \<noteq> [] \<and> m = (j, \<lparr> lk_key = key, lk_keys = server_ids ids (rs ! j), lk_values = [] \<rparr>))"
  by (auto simp: lookup_messages_def)

lemma server_ids_mem: "i \<in> set (server_ids ids r) \<longleftrightarrow> i \<in> set ids \<and> in_range r (to_key i)"
  by (auto simp: server_ids_def)

lemma lookup_messages_unique:
  assumes "partitions rs row_count" "i \<in> set ids" "to_key i < row_count"
  shows "\<exists>!m. m \<in> set (lookup_messages key ids rs) \<and> i \<in> set (lk_keys (snd m))"
proof -
  from assms(1,3) have "\<exists>!j. j < length rs \<and> in_range (rs ! j) (to_key i)" unfolding partitions_def by metis
  then obtain j where j: "j < length rs" "in_range (rs ! j) (to_key i)"
    and uniq: "\<And>j'. j' < length rs \<Longrightarrow> in_range (rs ! j') (to_key i) \<Longrightarrow> j' = j" by blast
  let ?m = "\<lambda>j. (j, \<lparr> lk_key = key, lk_keys = server_ids ids (rs ! j), lk_values = [] \<rparr>)"
  have mem: "i \<in> set (server_ids ids (rs ! j))" using j(2) assms(2) by (simp add: server_ids_mem)
  then have "server_ids ids (rs ! j) \<noteq> []" by auto
  show ?thesis
  proof (rule ex1I [of _ "?m j"])
    show "?m j \<in> set (lookup_messages key ids rs) \<and> i \<in> set (lk_keys (snd (?m j)))"
      using j(1) mem \<open>server_ids ids (rs ! j) \<noteq> []\<close> by (auto simp: set_lookup_messages)
  next
    fix m assume "m \<in> set (lookup_messages key ids rs) \<and> i \<in> set (lk_keys (snd m))"
    then obtain j' where j': "j' < length rs" "m = ?m j'" "i \<in> set (server_ids ids (rs ! j'))"
      by (auto simp: set_lookup_messages)
    with uniq [OF j'(1)] show "m = ?m j" by (simp add: server_ids_mem)
  qed
qed

lemma lookup_messages_none:
  assumes "partitions rs row_count" "i \<notin> set ids \<or> row_count \<le> to_key i" "m \<in> set (lookup_messages key ids rs)"
  shows "i \<notin> set (lk_keys (snd m))"
proof -
  from assms(3) obtain j where j: "j < length rs" "lk_keys (snd m) = server_ids ids (rs ! j)"
    by (auto simp: set_lookup_messages)
  have "row_count \<le> to_key i \<Longrightarrow> \<not> in_range (rs ! j) (to_key i)"
    using assms(1) j(1) unfolding partitions_def by (metis not_less)
  with assms(2) j(2) show ?thesis by (auto simp: server_ids_mem)
qed



section \<open>Properties of the slicers\<close>

lemma concat_cuts:
  fixes f :: "nat \<Rightarrow> nat"
  assumes "\<And>j. f j \<le> f (Suc j)" "f 0 = 0"
  shows "concat (map (\<lambda>j. take (f (Suc j) - f j) (drop (f j) xs)) [0..<n]) = take (f n) xs"
proof (induction n)
  case (Suc n)
  have "take (f (Suc n)) xs = take (f n) xs @ take (f (Suc n) - f n) (drop (f n) xs)"
    using assms(1) [of n] take_add [of "f n" "f (Suc n) - f n" xs] by simp
  with Suc show ?case by simp
qed (simp add: assms)

lemma init_slices_all:
  "(\<And>j. j < length rs \<Longrightarrow> init_slice send c (rs ! j) = Inr (f j)) \<Longrightarrow> length sl = length rs \<Longrightarrow>
     init_slices send c rs sl = Inr (map f [0..<length rs])"
proof (induction rs arbitrary: sl f)
  case (Cons r rs)
  obtain s sl' where sl: "sl = s # sl'" "length sl' = length rs" using Cons.prems(2) by (cases sl) auto
  have "init_slice send c r = Inr (f 0)" using Cons.prems(1) [of 0] by simp
  moreover have "init_slices send c rs sl' = Inr (map (f \<circ> Suc) [0..<length rs])"
    using Cons.IH [of "f \<circ> Suc" sl'] Cons.prems(1) [of "Suc _"] sl(2) by simp
  ultimately show ?case using sl(1) by (simp add: map_upt_Suc comp_def del: upt_Suc)
qed simp

definition row_cut :: "u64 \<Rightarrow> int \<Rightarrow> nat \<Rightarrow> nat \<Rightarrow> nat" where
  "row_cut row_count sn c j = nat (row_start (uint row_count) sn j) * c"

lemma unat_offset:
  assumes "0 \<le> a" "nat a * c < 2 ^ 64" "a < 2 ^ 63" "c < 2 ^ 64"
  shows "unat (word_of_int a * word_of_nat c :: u64) = nat a * c"
proof -
  have "unat (word_of_int a :: u64) = nat a" using assms(1,3) by (simp add: unat_eq_nat_uint uint_word_of_int)
  moreover have "unat (word_of_nat c :: u64) = c" using assms(4) by (simp add: unat_of_nat)
  ultimately show ?thesis using assms(2) by (simp add: unat_word_ariths)
qed

lemma init_slice_range:
  assumes "0 < sn" "0 < row_count" "row_count < 2 ^ 63" "length (kv_values send) = unat row_count * c"
    and "length (kv_values send) < 2 ^ 64" "int j < sn"
  shows "init_slice send c (table_range (uint row_count) sn j) =
    Inr (True, \<lparr> kv_keys = kv_keys send, kv_values =
      take (row_cut row_count sn c (Suc j) - row_cut row_count sn c j) (drop (row_cut row_count sn c j) (kv_values send)), kv_len = [] \<rparr>)"
proof -
  let ?S = "row_start (uint row_count) sn"
  have rows: "0 < uint row_count" "uint row_count < 2 ^ 63" using assms(2,3) by (simp_all add: word_less_def)
  have mono: "?S i \<le> ?S k" if "i \<le> k" for i k using row_start_mono assms(1) rows that by simp
  have S: "0 \<le> ?S j" "?S j \<le> ?S (Suc j)" "?S (Suc j) \<le> uint row_count"
    using mono [of 0 j] mono [of j "Suc j"] mono [of "Suc j" "nat sn"] row_start_end [OF assms(1)] assms(1,6) by simp_all
  have bound: "nat (?S k) * c \<le> length (kv_values send)" if "k = j \<or> k = Suc j" for k
  proof -
    have "?S k \<le> uint row_count" using that S(2,3) by (elim disjE) simp_all
    then have "nat (?S k) \<le> unat row_count" unfolding unat_eq_nat_uint by (rule nat_mono)
    then show ?thesis unfolding assms(4) by (rule mult_le_mono1)
  qed
  have c: "c < 2 ^ 64"
  proof -
    have "0 < unat row_count" using assms(2) by (simp add: word_less_nat_alt)
    then have "c \<le> unat row_count * c" by simp
    with assms(4,5) show ?thesis by linarith
  qed
  have off: "unat (word_of_int (?S k) * word_of_nat c :: u64) = nat (?S k) * c" if "k = j \<or> k = Suc j" for k
    using unat_offset [of "?S k" c] bound [OF that] S rows c assms(5) that by auto
  have "word_of_int (?S (Suc j) - 1) + 1 = (word_of_int (?S (Suc j)) :: u64)" by simp
  then show ?thesis
    using off [of j] off [of "Suc j"] bound [of "Suc j"] nat_mono [OF S(2)]
    by (simp add: init_slice_def table_range_def row_cut_def empty_kv_def Let_def)
qed

text \<open>
  \<open>WorkerInitEmbeddingSlicer\<close> loses and duplicates nothing.  For a table registered under a new key
  and values of whole rows, every server gets a message with the keys, and the values of the messages,
  one server after the other, are the values sent.
\<close>

theorem init_slices_cover:
  assumes "map_of (embedding_table_ranges w) key = None" "0 < server_num w" "0 < row_count" "row_count < 2 ^ 63"
    and "kv_keys send = k # ks" "to_key k = key" "length (kv_values send) = unat row_count * c" "length (kv_values send) < 2 ^ 64"
  shows "\<exists>sliced w'. WorkerInitEmbeddingSlicer send [] (snd (AddEmbeddingTable key row_count w)) = (Inr sliced, w')
    \<and> int (length sliced) = server_num w \<and> list_all (\<lambda>s. fst s \<and> kv_keys (snd s) = kv_keys send) sliced
    \<and> concat (map (kv_values \<circ> snd) sliced) = kv_values send"
proof -
  let ?n = "nat (server_num w)" and ?cut = "row_cut row_count (server_num w) c"
  define rs where "rs = map (table_range (uint row_count) (server_num w)) [0..<?n]"
  define f where "f = (\<lambda>j. (True, \<lparr> kv_keys = kv_keys send, kv_values = take (?cut (Suc j) - ?cut j) (drop (?cut j) (kv_values send)), kv_len = [] \<rparr>))"
  define w1 where "w1 = snd (AddEmbeddingTable key row_count w)"
  have pos: "0 < sint row_count" using assms(3,4) by (simp add: sint_small word_less_def)
  have w1: "map_of (embedding_table_ranges w1) key = Some (Some rs)" "map_of (embedding_row_cnt w1) key = Some row_count" "server_num w1 = server_num w"
    unfolding w1_def AddEmbeddingTable_fresh [OF assms(1,2) pos] by (simp_all add: rs_def sint_small [OF assms(4)])
  have col: "length (kv_values send) div unat row_count = c" using assms(3,7) by (simp add: word_less_nat_alt)
  have sl: "init_slices send c rs (replicate ?n (False, empty_kv)) = Inr (map f [0..<?n])"
    using init_slices_all [of rs send c f "replicate ?n (False, empty_kv)"]
      init_slice_range [OF assms(2-4,7,8)] by (simp add: rs_def f_def)
  then have run: "WorkerInitEmbeddingSlicer send [] w1 = (Inr (map f [0..<?n]), w1)"
    using w1 assms(3,5,6) col
    by (simp add: WorkerInitEmbeddingSlicer_def map_index_present ranges_of_present resize_def)
  have "row_start (uint row_count) (server_num w) j \<le> row_start (uint row_count) (server_num w) (Suc j)" for j
    using row_start_mono [OF assms(2)] by simp
  then have "?cut j \<le> ?cut (Suc j)" for j unfolding row_cut_def by (intro mult_le_mono1 nat_mono)
  then have "concat (map (\<lambda>j. take (?cut (Suc j) - ?cut j) (drop (?cut j) (kv_values send))) [0..<?n]) = take (?cut ?n) (kv_values send)"
    by (rule concat_cuts) (simp add: row_cut_def assms(2))
  moreover have "?cut ?n = length (kv_values send)"
    using assms(7) row_start_end [OF assms(2)] by (simp add: row_cut_def)
  ultimately have "concat (map (kv_values \<circ> snd) (map f [0..<?n])) = kv_values send" by (simp add: f_def comp_def)
  with run assms(2) show ?thesis unfolding w1_def by (auto simp: f_def list_all_iff)
qed

theorem init_slices_cover_witness:
  "\<exists>sliced w'. WorkerInitEmbeddingSlicer \<lparr> kv_keys = [5], kv_values = [10, 11, 20, 21, 30, 31, 40, 41], kv_len = [] \<rparr> []
      (snd (AddEmbeddingTable 5 4 new_ps_worker)) = (Inr sliced, w')
    \<and> concat (map (kv_values \<circ> snd) sliced) = [10, 11, 20, 21, 30, 31, 40, 41]"
  using init_slices_cover [of new_ps_worker 5 4 "\<lparr> kv_keys = [5], kv_values = [10, 11, 20, 21, 30, 31, 40, 41], kv_len = [] \<rparr>" 5 "[]" 2]
  by (fastforce simp: new_ps_worker_def to_key_def)

text \<open>
  The round-robin slicer.  A well-formed message has one length per key, and the lengths cut the values
  into segments; a slice for a server holds the keys of that server with their segments.
\<close>

fun segments :: "int list \<Rightarrow> 'a list \<Rightarrow> 'a list list" where
  "segments [] xs = []"
| "segments (n # ns) xs = take (nat n) xs # segments ns (drop (nat n) xs)"

definition wf_kv :: "KVMessage \<Rightarrow> bool" where
  "wf_kv send \<longleftrightarrow> length (kv_len send) = length (kv_keys send) \<and> list_all (\<lambda>n. 0 \<le> n) (kv_len send)
     \<and> sum_list (kv_len send) = int (length (kv_values send)) \<and> list_all (\<lambda>k. - (2 ^ 31) \<le> k \<and> k < 2 ^ 31) (kv_keys send)"

definition slice_for :: "(int \<Rightarrow> nat) \<Rightarrow> (int \<times> float32 list) list \<Rightarrow> nat \<Rightarrow> bool \<times> KVMessage" where
  "slice_for srv pairs s =
     (let ps = filter (\<lambda>p. srv (fst p) = s) pairs
      in (ps \<noteq> [], \<lparr> kv_keys = map fst ps, kv_values = concat (map snd ps), kv_len = map (int \<circ> length \<circ> snd) ps \<rparr>))"

lemma sum_list_nonneg_take: "list_all (\<lambda>n. 0 \<le> n) ns \<Longrightarrow> 0 \<le> sum_list (take i ns :: int list)"
  by (intro sum_list_nonneg) (auto simp: list_all_iff dest: in_set_takeD)

lemma segments_nth:
  "list_all (\<lambda>n. 0 \<le> n) ns \<Longrightarrow> i < length ns \<Longrightarrow>
     segments ns xs ! i = take (nat (ns ! i)) (drop (nat (sum_list (take i ns))) xs)"
proof (induction ns xs arbitrary: i rule: segments.induct)
  case (2 n ns xs)
  then show ?case
    by (cases i) (simp_all add: nat_add_distrib sum_list_nonneg_take add.commute)
qed simp

lemma length_segments [simp]: "length (segments ns xs) = length ns"
  by (induction ns xs rule: segments.induct) simp_all

lemma slice_for_snoc:
  "slice_for srv (ps @ [(k, seg)]) s =
     (if srv k = s
      then (True, \<lparr> kv_keys = kv_keys (snd (slice_for srv ps s)) @ [k],
             kv_values = kv_values (snd (slice_for srv ps s)) @ seg, kv_len = kv_len (snd (slice_for srv ps s)) @ [int (length seg)] \<rparr>)
      else slice_for srv ps s)"
  by (simp add: slice_for_def Let_def)

lemma of_key_to_key: "- (2 ^ 31) \<le> k \<Longrightarrow> k < 2 ^ 31 \<Longrightarrow> of_key (to_key k) = k"
proof -
  assume k: "- (2 ^ 31) \<le> k" "k < 2 ^ 31"
  have "word_of_int (uint (word_of_int k :: u64)) = (word_of_int k :: u32)"
    unfolding uint_word_of_int_eq word_of_int_eq_iff by (simp only: take_bit_take_bit) simp
  with int32_id [OF k] show ?thesis by (simp add: of_key_def to_key_def int32_def)
qed

lemma rr_loop_slices:
  assumes wf: "wf_kv send"
    and reg: "\<And>k. k \<in> set (kv_keys send) \<Longrightarrow> map_of (key_to_server_id w) (to_key k) = Some (int (srv k)) \<and> srv k < n"
  shows "i \<le> length (kv_keys send) \<Longrightarrow>
    rr_loop send i (w, map (slice_for srv []) [0..<n]) =
      Inr (w, map (slice_for srv (take i (zip (kv_keys send) (segments (kv_len send) (kv_values send))))) [0..<n])"
proof (induction i)
  case (Suc i)
  let ?ks = "kv_keys send" and ?ns = "kv_len send" and ?vs = "kv_values send"
  let ?ps = "zip ?ks (segments ?ns ?vs)" and ?k = "kv_keys send ! i"
  have i: "i < length ?ks" "i < length ?ns" using Suc.prems wf by (simp_all add: wf_kv_def)
  have nonneg: "list_all (\<lambda>n. 0 \<le> n) ?ns" using wf by (simp add: wf_kv_def)
  have k: "map_of (key_to_server_id w) (to_key ?k) = Some (int (srv ?k))" "srv ?k < n" using reg i(1) by simp_all
  have len: "0 \<le> ?ns ! i" using nonneg i(2) by (simp add: list_all_length)
  have off: "0 \<le> sum_list (take i ?ns)" by (rule sum_list_nonneg_take [OF nonneg])
  have "sum_list (take (Suc i) ?ns) \<le> sum_list ?ns"
    using sum_list_append [of "take (Suc i) ?ns" "drop (Suc i) ?ns"] nonneg
    by (simp add: list_all_iff) (metis in_set_dropD sum_list_nonneg)
  then have fits: "sum_list (take i ?ns) + ?ns ! i \<le> int (length ?vs)"
    using wf i(2) by (simp add: wf_kv_def take_Suc_conv_app_nth)
  define seg where "seg = take (nat (?ns ! i)) (drop (nat (sum_list (take i ?ns))) ?vs)"
  have seg: "int (length seg) = ?ns ! i" using fits len off by (simp add: seg_def)
  have key: "of_key (to_key ?k) = ?k" using wf i(1) by (intro of_key_to_key) (simp_all add: wf_kv_def list_all_length)
  have snoc: "take (Suc i) ?ps = take i ?ps @ [(?k, seg)]"
    using i segments_nth [OF nonneg i(2), of ?vs] by (simp add: take_Suc_conv_app_nth seg_def)
  have "rr_loop send (Suc i) (w, map (slice_for srv []) [0..<n]) = rr_step send i (w, map (slice_for srv (take i ?ps)) [0..<n])"
    using Suc by simp
  also have "\<dots> = Inr (w, (map (slice_for srv (take i ?ps)) [0..<n])[srv ?k := slice_for srv (take i ?ps @ [(?k, seg)]) (srv ?k)])"
    using k i len off fits seg key
    by (simp add: rr_step_def map_index_present Let_def slice_for_snoc seg_def [symmetric] not_less)
  also have "(map (slice_for srv (take i ?ps)) [0..<n])[srv ?k := slice_for srv (take i ?ps @ [(?k, seg)]) (srv ?k)] =
      map (slice_for srv (take (Suc i) ?ps)) [0..<n]"
    unfolding snoc by (rule nth_equalityI) (auto simp: nth_list_update slice_for_snoc)
  finally show ?case .
qed simp

lemma AddKeys_registered:
  assumes "0 < server_num w" "server_num w < 2 ^ 63"
  shows "server_num (fold (\<lambda>k w. snd (AddKeyToServerId (to_key k) w)) ks w) = server_num w"
    "k \<in> set ks \<Longrightarrow> map_of (key_to_server_id (fold (\<lambda>k w. snd (AddKeyToServerId (to_key k) w)) ks w)) (to_key k) =
      Some (uint (to_key k) mod server_num w)"
proof -
  have add: "snd (AddKeyToServerId q v) = v\<lparr> key_to_server_id := map_set q (uint q mod server_num v) (key_to_server_id v) \<rparr>"
    if "server_num v = server_num w" for q v
  proof -
    have n: "uint (word_of_int (server_num v) :: u64) = server_num v" using assms that by (intro uint_word_id) simp_all
    then have "uint (q mod word_of_int (server_num v)) = uint q mod server_num v" by (simp only: uint_mod_distrib)
    moreover have "uint q mod server_num v < 2 ^ 63" using pos_mod_bound [of "server_num v" "uint q"] assms that by linarith
    ultimately have "sint (q mod word_of_int (server_num v)) = uint q mod server_num v"
      by (subst sint_small) (simp_all add: word_less_def)
    then show ?thesis using assms that by (simp add: AddKeyToServerId_def AddKeyByHashMod_def)
  qed
  have sn: "server_num (fold (\<lambda>k w. snd (AddKeyToServerId (to_key k) w)) ks w) = server_num w" for ks
    by (induction ks rule: rev_induct) (simp_all add: add)
  then show "server_num (fold (\<lambda>k w. snd (AddKeyToServerId (to_key k) w)) ks w) = server_num w" .
  show "k \<in> set ks \<Longrightarrow> map_of (key_to_server_id (fold (\<lambda>k w. snd (AddKeyToServerId (to_key k) w)) ks w)) (to_key k) =
      Some (uint (to_key k) mod server_num w)"
    by (induction ks rule: rev_induct) (auto simp: add sn)
qed

text \<open>
  C9: \<open>RoundRobinSlicer\<close> gives each server the keys that hash to it with their values.  When every key
  has been added with \<open>AddKeyToServerId\<close>, the slice of server \<open>s\<close> has, in order, the keys whose value
  modulo the number of servers is \<open>s\<close>, their segments of the values and their lengths.
\<close>

theorem round_robin_slices:
  assumes "wf_kv send" "0 < server_num w" "server_num w < 2 ^ 63"
  shows "let w' = fold (\<lambda>k w. snd (AddKeyToServerId (to_key k) w)) (kv_keys send) w in
    RoundRobinSlicer send [] w' =
      Inr (w', map (slice_for (\<lambda>k. nat (uint (to_key k) mod server_num w)) (zip (kv_keys send) (segments (kv_len send) (kv_values send))))
                 [0..<nat (server_num w)])"
proof -
  let ?w = "fold (\<lambda>k w. snd (AddKeyToServerId (to_key k) w)) (kv_keys send) w"
  let ?srv = "\<lambda>k. nat (uint (to_key k) mod server_num w)" and ?n = "nat (server_num w)"
  note reg = AddKeys_registered [OF assms(2,3)]
  have bnd: "0 \<le> uint (to_key k) mod server_num w" "uint (to_key k) mod server_num w < server_num w" for k
    using assms(2) by simp_all
  have "replicate ?n (False, empty_kv) = map (slice_for ?srv []) [0..<?n]"
    by (rule nth_equalityI) (simp_all add: slice_for_def empty_kv_def)
  moreover have "rr_loop send (length (kv_keys send)) (?w, map (slice_for ?srv []) [0..<?n]) =
      Inr (?w, map (slice_for ?srv (take (length (kv_keys send)) (zip (kv_keys send) (segments (kv_len send) (kv_values send))))) [0..<?n])"
    using reg(2) bnd assms(2) by (intro rr_loop_slices [OF assms(1)]) (simp_all add: nat_less_iff)
  moreover have "length (segments (kv_len send) (kv_values send)) = length (kv_keys send)" using assms(1) by (simp add: wf_kv_def)
  ultimately show ?thesis by (simp add: RoundRobinSlicer_def reg(1) resize_def)
qed

theorem round_robin_slices_witness:
  "\<exists>w'. RoundRobinSlicer \<lparr> kv_keys = [4, 6], kv_values = [10, 11, 12], kv_len = [2, 1] \<rparr> [] w' =
    Inr (w', [(True, \<lparr> kv_keys = [6], kv_values = [12], kv_len = [1] \<rparr>), (True, \<lparr> kv_keys = [4], kv_values = [10, 11], kv_len = [2] \<rparr>),
              (False, empty_kv)])"
proof -
  have "wf_kv \<lparr> kv_keys = [4, 6], kv_values = [10, 11, 12], kv_len = [2, 1] \<rparr>" by (simp add: wf_kv_def)
  from round_robin_slices [OF this, of new_ps_worker] show ?thesis
    by (auto simp: new_ps_worker_def Let_def slice_for_def empty_kv_def to_key_def upt_rec)
qed

text \<open>
  \<open>SparseSlicer\<close> sends no gradients.  Into empty messages it never puts more than the marker \<open>-100\<close>: a
  server with indices in its range gets the keys and lengths and no values at all, because the reduction
  that would fill them is commented out.
\<close>

theorem sparse_slicer_drops_gradients:
  assumes "SparseSlicer send [] attrs w = (Inr sliced, w')"
  shows "list_all (\<lambda>s. fst s \<and> kv_keys (snd s) = kv_keys send
    \<and> (kv_values (snd s) = [] \<and> kv_len (snd s) = kv_len send \<or> kv_values (snd s) = [0xC2C80000] \<and> kv_len (snd s) = [])) sliced"
proof -
  obtain indices rs where "sliced = map2 (sparse_slice send indices) rs (replicate (length rs) (False, empty_kv))"
    using assms by (auto simp: SparseSlicer_def Let_def resize_def split: option.splits prod.splits sum.splits if_splits)
  then have "sliced = map (\<lambda>r. sparse_slice send indices r (False, empty_kv)) rs"
    by (simp add: map2_map_map [symmetric] zip_replicate2)
  then show ?thesis by (simp add: list_all_iff sparse_slice_def empty_kv_def Let_def)
qed

theorem sparse_slicer_drops_gradients_witness:
  "\<exists>sliced w'. SparseSlicer \<lparr> kv_keys = [5], kv_values = [0x3F800000, 1], kv_len = [1, 1] \<rparr> [] [(0, 0), (1, 1), (2, 1), (3, 1)]
      (snd (AddEmbeddingTable 5 4 new_ps_worker)) = (Inr sliced, w') \<and> length sliced = 3
    \<and> list_all (\<lambda>s. kv_values (snd s) = [] \<or> kv_values (snd s) = [0xC2C80000]) sliced"
proof -
  let ?run = "SparseSlicer \<lparr> kv_keys = [5], kv_values = [0x3F800000, 1], kv_len = [1, 1] \<rparr> [] [(0, 0), (1, 1), (2, 1), (3, 1)]
      (snd (AddEmbeddingTable 5 4 new_ps_worker))"
  let ?none = "(True, \<lparr> kv_keys = [5], kv_values = [0xC2C80000], kv_len = [] \<rparr>)"
  have "fst ?run = Inr [(True, \<lparr> kv_keys = [5], kv_values = [], kv_len = [1, 1] \<rparr>), ?none, ?none]" by code_simp
  then obtain w' where "?run = (Inr [(True, \<lparr> kv_keys = [5], kv_values = [], kv_len = [1, 1] \<rparr>), ?none, ?none], w')"
    by (metis prod.collapse)
  with sparse_slicer_drops_gradients [OF this] show ?thesis by auto
qed

lemma optimizer_tables_agree: "is_optimizer nm \<Longrightarrow> optimizer_name (optimizer_id nm) = nm"
  by (auto simp: is_optimizer_def optimizer_name_def optimizer_id_def optimizer_to_ids_def id_to_optimizers_def split: if_splits)

text \<open>\<open>size\<close> of a range is one less than the number of its rows.\<close>

lemma shard_size_rows:
  assumes "0 < sn" "0 < rows" "rows < 2 ^ 63" "int j < sn"
  shows "shard_size (table_range rows sn j) = word_of_int (rows div sn + (if int j < rows mod sn then 1 else 0) - 1)"
  by (simp add: shard_size_def table_range_def row_start_Suc)

end
