(* ===== verification/Thread_Pool.thy ===== *)
theory Thread_Pool
  imports Main
begin

text \<open>
  \<open>even-http/ps/core/thread_pool.cc\<close> and \<open>.h\<close> and \<open>count_down_latch.cc\<close>.  The threads of the pool are a
  step relation: each event is what one thread does between taking and releasing the mutex, and any
  interleaving is a run.  Waiting on the condition variable releases the mutex atomically; a waiting
  thread goes on when it is notified, and the standard also lets it wake up spuriously.
\<close>

section \<open>The latch\<close>

definition latch_CountDown :: "int \<Rightarrow> int" where
  "latch_CountDown count = count - 1"

text \<open>
  \<open>Wait\<close>: \<open>others\<close> is what other threads do to the counter until the waiting thread looks again, \<open>None\<close>
  stands for a thread that still waits.
\<close>

definition latch_Wait :: "(int \<Rightarrow> int) \<Rightarrow> int \<Rightarrow> int option" where
  "latch_Wait others count =
     (if count > 0 then (if others count = 0 then Some (others count) else None) else Some count)"

text \<open>\<open>WaitFor\<close> has no \<open>return\<close> for a counter that is not positive: \<open>None\<close> is undefined behaviour.\<close>

definition latch_WaitFor :: "(int \<Rightarrow> int) \<Rightarrow> int \<Rightarrow> bool option" where
  "latch_WaitFor others count = (if count > 0 then Some (others count = 0) else None)"

lemma latch_counts:
  assumes "0 < n"
  shows "latch_Wait (latch_CountDown ^^ k) (int n) \<noteq> None \<longleftrightarrow> k = n"
proof -
  have "(latch_CountDown ^^ k) c = c - int k" for c
    by (induction k) (simp_all add: latch_CountDown_def)
  with assms show ?thesis by (auto simp: latch_Wait_def)
qed

lemma latch_WaitFor_undefined: "latch_WaitFor others count = None \<longleftrightarrow> count \<le> 0"
  by (auto simp: latch_WaitFor_def)

section \<open>The pool\<close>

text \<open>A thread of the pool: about to lock at the top of its loop, waiting, woken, in a task, or returned.\<close>

datatype 't worker = AtTop | Waiting | Woken | Working 't | Exited

text \<open>
  \<open>passed\<close> are the calls of \<open>Submit\<close> that have seen room and released the mutex, \<open>notifying\<close> says that the
  notify thread is between its unlock and its \<open>notify_one\<close>, and \<open>pushed\<close> and \<open>started\<close> record the order in
  which tasks entered and left the queue.
\<close>

record 't pool =
  running :: bool
  max_task_num :: nat
  task_num :: nat
  idle_thread_num :: nat
  task_queue :: "'t list"
  workers :: "'t worker list"
  passed :: "'t list"
  notifying :: bool
  pushed :: "'t list"
  started :: "'t list"

definition new_pool :: "nat \<Rightarrow> nat \<Rightarrow> 't pool" where
  "new_pool thread_num max_num = \<lparr> running = True, max_task_num = max_num, task_num = 0, idle_thread_num = 0, task_queue = [],
     workers = replicate thread_num AtTop, passed = [], notifying = False, pushed = [], started = [] \<rparr>"

text \<open>\<open>Submit\<close>: the loop that looks for room, and the push under a second lock.\<close>

definition submit_check :: "'t \<Rightarrow> 't pool \<Rightarrow> 't pool option" where
  "submit_check t p = (if task_num p \<ge> max_task_num p then None else Some (p\<lparr> passed := t # passed p \<rparr>))"

definition submit_push :: "'t \<Rightarrow> 't pool \<Rightarrow> 't pool option" where
  "submit_push t p =
     (if t \<in> set (passed p)
      then Some (p\<lparr> passed := remove1 t (passed p), task_num := task_num p + 1, task_queue := task_queue p @ [t], pushed := pushed p @ [t] \<rparr>)
      else None)"

text \<open>The loop of a working thread: down to the wait, from the wait to the task, and the task.\<close>

definition worker_top :: "nat \<Rightarrow> 't pool \<Rightarrow> 't pool option" where
  "worker_top i p =
     (if i < length (workers p) \<and> workers p ! i = AtTop
      then Some (p\<lparr> idle_thread_num := idle_thread_num p + 1, workers := (workers p)[i := if running p then Waiting else Exited] \<rparr>)
      else None)"

definition worker_woken :: "nat \<Rightarrow> 't pool \<Rightarrow> 't pool option" where
  "worker_woken i p =
     (if i < length (workers p) \<and> workers p ! i = Woken
      then Some (case task_queue p of
          [] \<Rightarrow> p\<lparr> workers := (workers p)[i := Exited] \<rparr>
        | t # q \<Rightarrow>
            if running p then p\<lparr> workers := (workers p)[i := Working t], task_queue := q, started := started p @ [t] \<rparr>
            else p\<lparr> workers := (workers p)[i := Exited] \<rparr>)
      else None)"

definition worker_done :: "nat \<Rightarrow> 't pool \<Rightarrow> 't pool option" where
  "worker_done i p =
     (if i < length (workers p) \<and> (case workers p ! i of Working _ \<Rightarrow> True | _ \<Rightarrow> False)
      then Some (p\<lparr> workers := (workers p)[i := AtTop] \<rparr>) else None)"

text \<open>The notify thread; \<open>notify_one\<close> wakes some waiting thread, if there is one.\<close>

definition notify_take :: "'t pool \<Rightarrow> 't pool option" where
  "notify_take p =
     (if \<not> notifying p \<and> idle_thread_num p > 0 \<and> task_num p > 0
      then Some (p\<lparr> idle_thread_num := idle_thread_num p - 1, task_num := task_num p - 1, notifying := True \<rparr>)
      else None)"

definition wake :: "nat \<Rightarrow> 't pool \<Rightarrow> 't pool option" where
  "wake i p = (if i < length (workers p) \<and> workers p ! i = Waiting then Some (p\<lparr> workers := (workers p)[i := Woken] \<rparr>) else None)"

definition notify_one :: "nat option \<Rightarrow> 't pool \<Rightarrow> 't pool option" where
  "notify_one target p =
     (if \<not> notifying p then None
      else case target of
        None \<Rightarrow> if Waiting \<in> set (workers p) then None else Some (p\<lparr> notifying := False \<rparr>)
      | Some i \<Rightarrow> map_option (\<lambda>p'. p'\<lparr> notifying := False \<rparr>) (wake i p))"

text \<open>The destructor: it clears \<open>running_\<close>, notifies all threads and joins them.\<close>

definition pool_stop :: "'t pool \<Rightarrow> 't pool option" where
  "pool_stop p = Some (p\<lparr> running := False \<rparr>)"

definition notify_all :: "'t pool \<Rightarrow> 't pool option" where
  "notify_all p = (if running p then None else Some (p\<lparr> workers := map (\<lambda>s. if s = Waiting then Woken else s) (workers p) \<rparr>))"

datatype 't pool_event = SubmitCheck 't | SubmitPush 't | WorkerTop nat | WorkerWoken nat | WorkerDone nat
  | NotifyTake | NotifyOne "nat option" | SpuriousWakeup nat | PoolStop | NotifyAll

fun pool_do :: "'t pool_event \<Rightarrow> 't pool \<Rightarrow> 't pool option" where
  "pool_do (SubmitCheck t) p = submit_check t p"
| "pool_do (SubmitPush t) p = submit_push t p"
| "pool_do (WorkerTop i) p = worker_top i p"
| "pool_do (WorkerWoken i) p = worker_woken i p"
| "pool_do (WorkerDone i) p = worker_done i p"
| "pool_do NotifyTake p = notify_take p"
| "pool_do (NotifyOne target) p = notify_one target p"
| "pool_do (SpuriousWakeup i) p = wake i p"
| "pool_do PoolStop p = pool_stop p"
| "pool_do NotifyAll p = notify_all p"

fun orderly :: "'t pool_event \<Rightarrow> bool" where
  "orderly (SpuriousWakeup i) = False"
| "orderly PoolStop = False"
| "orderly NotifyAll = False"
| "orderly e = True"

inductive pool_run :: "('t pool_event \<Rightarrow> bool) \<Rightarrow> 't pool \<Rightarrow> 't pool_event list \<Rightarrow> 't pool \<Rightarrow> bool" for ok where
  pool_run_Nil: "pool_run ok p [] p"
| pool_run_snoc: "pool_run ok p es q \<Longrightarrow> ok e \<Longrightarrow> pool_do e q = Some r \<Longrightarrow> pool_run ok p (es @ [e]) r"

text \<open>The same as a function on lists of events.\<close>

fun pool_exec :: "'t pool_event list \<Rightarrow> 't pool \<Rightarrow> 't pool option" where
  "pool_exec [] p = Some p"
| "pool_exec (e # es) p = (case pool_do e p of None \<Rightarrow> None | Some q \<Rightarrow> pool_exec es q)"

lemma pool_exec_append: "pool_exec (es @ fs) p = (case pool_exec es p of None \<Rightarrow> None | Some q \<Rightarrow> pool_exec fs q)"
  by (induction es arbitrary: p) (auto split: option.splits)

lemma pool_run_exec: "pool_run ok p es q \<longleftrightarrow> list_all ok es \<and> pool_exec es p = Some q"
proof
  show "pool_run ok p es q \<Longrightarrow> list_all ok es \<and> pool_exec es p = Some q"
    by (induction rule: pool_run.induct) (auto simp: pool_exec_append)
  show "list_all ok es \<and> pool_exec es p = Some q \<Longrightarrow> pool_run ok p es q"
  proof (induction es arbitrary: q rule: rev_induct)
    case (snoc e es)
    then show ?case by (auto simp: pool_exec_append split: option.splits intro: pool_run_snoc)
  qed (auto intro: pool_run_Nil)
qed

lemmas pool_defs = submit_check_def submit_push_def worker_top_def worker_woken_def worker_done_def notify_take_def
  notify_one_def wake_def pool_stop_def notify_all_def

section \<open>The invariant\<close>

text \<open>
  While the pool runs without spurious wakeups, \<open>idle_thread_num_\<close> counts the waiting threads that have
  not been promised a signal, and the queue holds one task for each promise and each woken thread
  besides the \<open>task_num_\<close> tasks that are not promised yet.
\<close>

abbreviation many :: "'t pool \<Rightarrow> 't worker \<Rightarrow> nat" where
  "many p s \<equiv> count_list (workers p) s"

definition pool_inv :: "'t pool \<Rightarrow> bool" where
  "pool_inv p \<longleftrightarrow> running p \<and> idle_thread_num p + of_bool (notifying p) = many p Waiting
     \<and> length (task_queue p) = task_num p + of_bool (notifying p) + many p Woken
     \<and> Exited \<notin> set (workers p) \<and> pushed p = started p @ task_queue p"

lemma count_list_update:
  "i < length xs \<Longrightarrow> count_list (xs[i := y]) x + of_bool (xs ! i = x) = count_list xs x + of_bool (y = x)"
proof (induction xs arbitrary: i)
  case (Cons a xs)
  then show ?case by (cases i) auto
qed simp

lemma count_update:
  assumes "i < length xs" "xs ! i = z" "z \<noteq> y"
  shows "count_list (xs[i := y]) y = count_list xs y + 1"
    and "count_list xs z = count_list (xs[i := y]) z + 1"
    and "x \<noteq> y \<Longrightarrow> x \<noteq> z \<Longrightarrow> count_list (xs[i := y]) x = count_list xs x"
  using count_list_update [OF assms(1), of y y] count_list_update [OF assms(1), of y z] count_list_update [OF assms(1), of y x] assms(2,3)
  by auto

lemma Exited_update: "Exited \<notin> set xs \<Longrightarrow> s \<noteq> Exited \<Longrightarrow> Exited \<notin> set (xs[i := s])"
  using set_update_subset_insert [of xs i s] by auto

lemma count_pos: "i < length xs \<Longrightarrow> xs ! i = s \<Longrightarrow> 0 < count_list xs s"
  by (metis count_list_0_iff gr0I nth_mem)

lemma pool_inv_new: "pool_inv (new_pool n m)"
proof -
  have "count_list (replicate n AtTop) s = (if s = AtTop then n else 0)" for s :: "'t worker" by (induction n) auto
  then show ?thesis by (simp add: pool_inv_def new_pool_def)
qed

lemma pool_inv_worker_top: "pool_inv p \<Longrightarrow> worker_top i p = Some q \<Longrightarrow> pool_inv q"
  using count_update [of i "workers p" AtTop Waiting]
  by (auto simp: worker_top_def pool_inv_def Exited_update split: if_splits)

lemma pool_inv_worker_woken:
  assumes "pool_inv p" "worker_woken i p = Some q"
  shows "pool_inv q \<and> task_queue p \<noteq> []"
proof -
  have i: "i < length (workers p)" "workers p ! i = Woken" using assms(2) by (auto simp: worker_woken_def split: if_splits)
  have "0 < length (task_queue p)" using assms(1) count_pos [OF i] by (auto simp: pool_inv_def)
  then obtain t ts where q: "task_queue p = t # ts" by (cases "task_queue p") auto
  with assms i count_update [OF i, of "Working t"] show ?thesis
    by (auto simp: worker_woken_def pool_inv_def Exited_update)
qed

lemma pool_inv_worker_done:
  assumes "pool_inv p" "worker_done i p = Some q"
  shows "pool_inv q"
proof -
  obtain t where i: "i < length (workers p)" "workers p ! i = Working t" "q = p\<lparr> workers := (workers p)[i := AtTop] \<rparr>"
    using assms(2) by (auto simp: worker_done_def split: if_splits worker.splits)
  with assms(1) count_update [OF i(1,2), of AtTop] show ?thesis by (simp add: pool_inv_def Exited_update)
qed

lemma pool_inv_notify_one:
  assumes "pool_inv p" "notify_one target p = Some q"
  shows "pool_inv q \<and> target \<noteq> None"
proof (cases target)
  case None
  with assms have "notifying p" "Waiting \<notin> set (workers p)" by (auto simp: notify_one_def split: if_splits)
  then show ?thesis using assms(1) by (simp add: pool_inv_def count_list_0_iff)
next
  case (Some i)
  with assms(2) have i: "notifying p" "i < length (workers p)" "workers p ! i = Waiting"
    "q = p\<lparr> workers := (workers p)[i := Woken], notifying := False \<rparr>"
    by (auto simp: notify_one_def wake_def split: if_splits)
  with assms(1) Some count_update [OF i(2,3), of Woken] show ?thesis by (simp add: pool_inv_def Exited_update)
qed

lemma pool_inv_step:
  assumes "pool_inv p" "orderly e" "pool_do e p = Some q"
  shows "pool_inv q"
proof (cases e)
  case (SubmitCheck t)
  with assms show ?thesis by (auto simp: submit_check_def pool_inv_def split: if_splits)
next
  case (SubmitPush t)
  with assms show ?thesis by (auto simp: submit_push_def pool_inv_def split: if_splits)
next
  case NotifyTake
  with assms show ?thesis by (auto simp: notify_take_def pool_inv_def split: if_splits)
qed (use assms in \<open>auto dest: pool_inv_worker_top pool_inv_worker_woken pool_inv_worker_done pool_inv_notify_one\<close>)

lemma pool_inv_run: "pool_run orderly p es q \<Longrightarrow> pool_inv p \<Longrightarrow> pool_inv q"
  by (induction rule: pool_run.induct) (auto intro: pool_inv_step)

section \<open>Properties\<close>

text \<open>The steps of the pool's own threads that lead to a task being started.\<close>

fun dispatching :: "'t pool_event \<Rightarrow> bool" where
  "dispatching (WorkerTop i) = True"
| "dispatching (WorkerWoken i) = True"
| "dispatching NotifyTake = True"
| "dispatching (NotifyOne target) = True"
| "dispatching e = False"

definition dispatch_measure :: "'t pool \<Rightarrow> nat" where
  "dispatch_measure p = 3 * many p AtTop + 2 * many p Waiting + many p Woken + 2 * task_num p + of_bool (notifying p)"

lemma dispatch_decreases:
  assumes "pool_inv p" "dispatching e" "pool_do e p = Some q"
  shows "dispatch_measure q < dispatch_measure p"
proof (cases e)
  case (WorkerTop i)
  with assms have i: "i < length (workers p)" "workers p ! i = AtTop"
    "q = p\<lparr> idle_thread_num := idle_thread_num p + 1, workers := (workers p)[i := Waiting] \<rparr>"
    by (auto simp: worker_top_def pool_inv_def split: if_splits)
  with count_update [OF i(1,2), of Waiting] show ?thesis by (simp add: dispatch_measure_def)
next
  case (WorkerWoken i)
  with assms pool_inv_worker_woken have "task_queue p \<noteq> []" by auto
  with WorkerWoken assms obtain t where i: "i < length (workers p)" "workers p ! i = Woken"
    "workers q = (workers p)[i := Working t]" "task_num q = task_num p" "notifying q = notifying p"
    by (auto simp: worker_woken_def pool_inv_def neq_Nil_conv split: if_splits)
  with count_update [OF i(1,2), of "Working t"] show ?thesis by (simp add: dispatch_measure_def)
next
  case NotifyTake
  with assms show ?thesis by (auto simp: notify_take_def dispatch_measure_def split: if_splits)
next
  case (NotifyOne target)
  with assms have one: "notify_one target p = Some q" by simp
  with pool_inv_notify_one [OF assms(1)] obtain i where "target = Some i" by blast
  with one have i: "notifying p" "i < length (workers p)" "workers p ! i = Waiting"
    "q = p\<lparr> workers := (workers p)[i := Woken], notifying := False \<rparr>"
    by (auto simp: notify_one_def wake_def split: if_splits)
  with count_update [OF i(2,3), of Woken] show ?thesis by (simp add: dispatch_measure_def)
qed (use assms in auto)

lemma dispatch_enabled:
  assumes "pool_inv p" "task_queue p \<noteq> []" "s \<in> set (workers p)" "\<And>t. s \<noteq> Working t"
  shows "\<exists>e. dispatching e \<and> pool_do e p \<noteq> None"
proof -
  have woken: "\<exists>e. dispatching e \<and> pool_do e p \<noteq> None" if woken: "Woken \<in> set (workers p)"
  proof -
    obtain j where "j < length (workers p)" "workers p ! j = Woken" using woken by (auto simp: in_set_conv_nth)
    then show ?thesis by (intro exI [of _ "WorkerWoken j"]) (simp add: worker_woken_def)
  qed
  obtain i where i: "i < length (workers p)" "workers p ! i = s" using assms(3) by (auto simp: in_set_conv_nth)
  show ?thesis
  proof (cases s)
    case AtTop
    with i show ?thesis by (intro exI [of _ "WorkerTop i"]) (simp add: worker_top_def)
  next
    case Waiting
    show ?thesis
    proof (cases "notifying p")
      case True
      with i Waiting show ?thesis by (intro exI [of _ "NotifyOne (Some i)"]) (simp add: notify_one_def wake_def)
    next
      case idle: False
      show ?thesis
      proof (cases "task_num p = 0")
        case True
        with assms(1,2) idle have "0 < many p Woken" by (auto simp: pool_inv_def simp flip: length_greater_0_conv)
        then have "Woken \<in> set (workers p)" by (metis count_list_0_iff less_irrefl)
        then show ?thesis by (rule woken)
      next
        case False
        have "0 < idle_thread_num p" using assms(1) idle count_pos [OF i] Waiting by (simp add: pool_inv_def)
        with False idle show ?thesis by (intro exI [of _ NotifyTake]) (simp add: notify_take_def)
      qed
    qed
  next
    case Woken
    with assms(3) woken show ?thesis by simp
  qed (use assms in \<open>auto simp: pool_inv_def\<close>)
qed

text \<open>
  C10: without spurious wakeups and before its destructor, the pool loses nothing.  In every interleaving of
  submissions, working threads and the notify thread, no working thread returns, a signal always finds
  a waiting thread, a woken thread always finds a task, and the tasks start in the order of their
  submission.
\<close>

theorem pool_safe:
  assumes "pool_run orderly (new_pool n m) es p"
  shows "Exited \<notin> set (workers p) \<and> pushed p = started p @ task_queue p
    \<and> (Woken \<in> set (workers p) \<longrightarrow> task_queue p \<noteq> []) \<and> (notifying p \<longrightarrow> Waiting \<in> set (workers p))"
proof -
  have inv: "pool_inv p" using pool_inv_run [OF assms pool_inv_new] .
  have "task_queue p \<noteq> []" if "Woken \<in> set (workers p)"
    using inv that by (auto simp: pool_inv_def count_list_0_iff)
  moreover have "Waiting \<in> set (workers p)" if "notifying p"
    using inv that by (auto simp: pool_inv_def intro: ccontr simp flip: count_list_0_iff)
  ultimately show ?thesis using inv by (simp add: pool_inv_def)
qed

theorem pool_safe_witness:
  "\<exists>p. pool_run orderly (new_pool 1 10) [WorkerTop 0, SubmitCheck (7 :: nat), SubmitPush (7 :: nat), NotifyTake, NotifyOne (Some 0), WorkerWoken 0] p
     \<and> started p = [(7 :: nat)] \<and> pushed p = started p @ task_queue p"
proof -
  let ?es = "[WorkerTop 0, SubmitCheck (7 :: nat), SubmitPush (7 :: nat), NotifyTake, NotifyOne (Some 0), WorkerWoken 0]"
  obtain p where "pool_exec ?es (new_pool 1 10) = Some p" "started p = [7]" by (simp add: new_pool_def pool_defs)
  then have run: "pool_run orderly (new_pool 1 10) ?es p" "started p = [(7 :: nat)]" by (simp_all add: pool_run_exec)
  from pool_safe [OF run(1)] run show ?thesis by auto
qed

text \<open>
  C11: the pool dispatches in bounded time.  From every state reached without spurious wakeups the pool's own
  threads can only make a bounded number of dispatching steps, each of which decreases a measure, and they
  only get stuck when the queue is empty or every working thread is in a task.
\<close>

theorem pool_dispatches:
  assumes "pool_run orderly (new_pool n m) es p"
  shows "(\<forall>e q. dispatching e \<longrightarrow> pool_do e p = Some q \<longrightarrow> dispatch_measure q < dispatch_measure p)
    \<and> ((\<forall>e. dispatching e \<longrightarrow> pool_do e p = None) \<longrightarrow> task_queue p = [] \<or> (\<forall>s \<in> set (workers p). \<exists>t. s = Working t))"
proof (intro conjI impI allI)
  have inv: "pool_inv p" using pool_inv_run [OF assms pool_inv_new] .
  show "dispatch_measure q < dispatch_measure p" if "dispatching e" "pool_do e p = Some q" for e q
    using dispatch_decreases [OF inv that] .
  show "task_queue p = [] \<or> (\<forall>s \<in> set (workers p). \<exists>t. s = Working t)" if "\<forall>e. dispatching e \<longrightarrow> pool_do e p = None"
    using that dispatch_enabled [OF inv] by metis
qed

theorem pool_dispatches_witness:
  "\<exists>p. pool_run orderly (new_pool 0 10) [SubmitCheck (7 :: nat), SubmitPush (7 :: nat)] p \<and> task_queue p = [(7 :: nat)]
    \<and> (\<forall>e q. dispatching e \<longrightarrow> pool_do e p = Some q \<longrightarrow> dispatch_measure q < dispatch_measure p)"
proof -
  let ?es = "[SubmitCheck (7 :: nat), SubmitPush (7 :: nat)]"
  obtain p where "pool_exec ?es (new_pool 0 10) = Some p" "task_queue p = [7]" by (simp add: new_pool_def pool_defs)
  then have run: "pool_run orderly (new_pool 0 10) ?es p" "task_queue p = [(7 :: nat)]" by (simp_all add: pool_run_exec)
  from pool_dispatches [OF run(1)] run show ?thesis by blast
qed

lemma exited_pool_stuck:
  "workers p = [Exited] \<Longrightarrow> pool_exec es p = Some q \<Longrightarrow> workers q = [Exited] \<and> started q = started p"
proof (induction es arbitrary: p)
  case (Cons e es)
  then obtain r where r: "pool_do e p = Some r" "pool_exec es r = Some q" by (auto split: option.splits)
  have "workers r = [Exited] \<and> started r = started p"
    using r(1) Cons.prems(1)
    by (cases e) (auto simp: pool_defs split: if_splits option.splits)
  with Cons.IH [OF _ r(2)] show ?case by simp
qed simp

text \<open>
  A spurious wakeup, which the standard allows, kills a thread of the pool: it finds the queue empty and
  returns.  With one thread, no task submitted afterwards is ever started, although the pool runs and
  still counts the thread as idle.
\<close>

theorem spurious_wakeup_starves:
  assumes "pool_exec ([WorkerTop 0, SpuriousWakeup 0, WorkerWoken 0] @ es) (new_pool 1 m) = Some q"
  shows "workers q = [Exited] \<and> started q = []"
proof -
  obtain p where p: "pool_exec [WorkerTop 0, SpuriousWakeup 0, WorkerWoken 0] (new_pool 1 m) = Some p" "pool_exec es p = Some q"
    using assms unfolding pool_exec_append by (auto split: option.splits)
  then have "workers p = [Exited] \<and> started p = []"
    by (auto simp: new_pool_def worker_top_def wake_def worker_woken_def)
  with exited_pool_stuck [OF _ p(2)] show ?thesis by simp
qed

theorem spurious_wakeup_starves_witness:
  "\<exists>q. pool_exec ([WorkerTop 0, SpuriousWakeup 0, WorkerWoken 0] @ [SubmitCheck (7 :: nat), SubmitPush (7 :: nat), NotifyTake, NotifyOne None])
      (new_pool 1 10) = Some q \<and> running q \<and> task_queue q = [(7 :: nat)] \<and> started q = []"
proof -
  let ?es = "[WorkerTop 0, SpuriousWakeup 0, WorkerWoken 0] @ [SubmitCheck (7 :: nat), SubmitPush (7 :: nat), NotifyTake, NotifyOne None]"
  obtain q where q: "pool_exec ?es (new_pool 1 10) = Some q" "running q" "task_queue q = [7]" by (simp add: new_pool_def pool_defs)
  from spurious_wakeup_starves [OF q(1)] q show ?thesis by blast
qed

end
