(* ===== verification/Work_Queue.thy ===== *)
theory Work_Queue
  imports Prelude "HOL-Library.Multiset"
begin

text \<open>
  \<open>libevent-example/multithread\<close>: the multithreaded work queue of \<open>workqueue.c\<close> and the echo server of
  \<open>echoserver_threaded.c\<close> on top of it.  The linked lists are a store of nodes with \<open>prev\<close> and \<open>next\<close>; the
  threads are a step relation in which each event is one critical section or one blocking call.
\<close>

section \<open>Linked lists\<close>

type_synonym addr = nat

record node =
  node_prev :: "addr option"
  node_next :: "addr option"

type_synonym store = "addr \<Rightarrow> node"

text \<open>The macros \<open>LL_ADD\<close> and \<open>LL_REMOVE\<close>; the second component is the head of the list.\<close>

definition LL_ADD :: "addr \<Rightarrow> store \<times> addr option \<Rightarrow> store \<times> addr option" where
  "LL_ADD item sl = (case sl of (h, list) \<Rightarrow> (h(item := \<lparr> node_prev = None, node_next = list \<rparr>), Some item))"

definition LL_REMOVE :: "addr \<Rightarrow> store \<times> addr option \<Rightarrow> store \<times> addr option" where
  "LL_REMOVE item sl =
     (case sl of (h, list) \<Rightarrow>
        (let h1 = (case node_prev (h item) of None \<Rightarrow> h | Some p \<Rightarrow> h(p := (h p)\<lparr> node_next := node_next (h item) \<rparr>));
             h2 = (case node_next (h1 item) of None \<Rightarrow> h1 | Some n \<Rightarrow> h1(n := (h1 n)\<lparr> node_prev := node_prev (h1 item) \<rparr>));
             list' = (if list = Some item then node_next (h2 item) else list)
         in (h2(item := \<lparr> node_prev = None, node_next = None \<rparr>), list')))"

text \<open>The list that starts at a pointer.\<close>

fun list_at :: "store \<Rightarrow> addr option \<Rightarrow> addr list \<Rightarrow> bool" where
  "list_at h p [] \<longleftrightarrow> p = None"
| "list_at h p (a # as) \<longleftrightarrow> p = Some a \<and> list_at h (node_next (h a)) as"

section \<open>The work queue\<close>

text \<open>Where a worker thread is: before its lock, in the wait, woken and before the lock, in a job, or gone.\<close>

datatype 'j wq_thread = WLock | WWait | WRelock | WRun 'j | WDead

text \<open>
  Where \<open>workqueue_shutdown\<close> is: not called, at a worker of the list, about to read that worker's \<open>next\<close>, before
  the lock, returned, or past a read of a freed worker.
\<close>

datatype shutdown_pc = SIdle | SSet "nat list" | SNext "nat list" | SLock | SDone | SUseAfterFree

text \<open>
  \<open>mutex_kept\<close> is the worker that keeps \<open>jobs_mutex\<close> for good; between events nobody else holds it.
  \<open>terminate\<close> is the flag of each worker, \<open>workers\<close> the list of the workers and \<open>wq_started\<close> the jobs that
  have been started, in their order.
\<close>

record 'j workqueue =
  workers :: "nat list"
  waiting_jobs :: "'j list"
  mutex_kept :: "nat option"
  wthreads :: "'j wq_thread list"
  terminate :: "bool list"
  shutdown :: shutdown_pc
  wq_started :: "'j list"

definition blank_workqueue :: "'j workqueue" where
  "blank_workqueue = \<lparr> workers = [], waiting_jobs = [], mutex_kept = None, wthreads = [], terminate = [],
     shutdown = SIdle, wq_started = [] \<rparr>"

text \<open>
  \<open>workqueue_init\<close>; \<open>created i\<close> tells whether \<open>malloc\<close> and \<open>pthread_create\<close> succeed for worker \<open>i\<close>.
\<close>

fun init_workers :: "(nat \<Rightarrow> bool) \<Rightarrow> nat \<Rightarrow> nat \<Rightarrow> 'j workqueue \<Rightarrow> int \<times> 'j workqueue" where
  "init_workers created i 0 q = (0, q)"
| "init_workers created i (Suc n) q =
     (if created i
      then init_workers created (Suc i) n
             (q\<lparr> workers := i # workers q, wthreads := wthreads q @ [WLock], terminate := terminate q @ [False] \<rparr>)
      else (1, q))"

definition workqueue_init :: "(nat \<Rightarrow> bool) \<Rightarrow> int \<Rightarrow> int \<times> 'j workqueue" where
  "workqueue_init created numWorkers =
     init_workers created 0 (nat (if numWorkers < 1 then 1 else numWorkers)) blank_workqueue"

text \<open>
  The critical section of \<open>worker_function\<close>: a worker that is to terminate leaves its loop with the mutex
  locked and ends without unlocking it.
\<close>

definition worker_section :: "nat \<Rightarrow> 'j workqueue \<Rightarrow> 'j workqueue option" where
  "worker_section i q =
     (if mutex_kept q = None \<and> i < length (wthreads q) \<and> (wthreads q ! i = WLock \<or> wthreads q ! i = WRelock)
      then Some (if terminate q ! i then q\<lparr> wthreads := (wthreads q)[i := WDead], mutex_kept := Some i \<rparr>
                 else case waiting_jobs q of
                    [] \<Rightarrow> q\<lparr> wthreads := (wthreads q)[i := WWait] \<rparr>
                  | j # js \<Rightarrow> q\<lparr> wthreads := (wthreads q)[i := WRun j], waiting_jobs := js, wq_started := wq_started q @ [j] \<rparr>)
      else None)"

definition job_done :: "nat \<Rightarrow> 'j workqueue \<Rightarrow> 'j workqueue option" where
  "job_done i q =
     (if i < length (wthreads q) \<and> (case wthreads q ! i of WRun _ \<Rightarrow> True | _ \<Rightarrow> False)
      then Some (q\<lparr> wthreads := (wthreads q)[i := WLock] \<rparr>) else None)"

definition wake_worker :: "nat \<Rightarrow> 'j workqueue \<Rightarrow> 'j workqueue" where
  "wake_worker i q = (if i < length (wthreads q) \<and> wthreads q ! i = WWait then q\<lparr> wthreads := (wthreads q)[i := WRelock] \<rparr> else q)"

text \<open>\<open>workqueue_add_job\<close>; the signal wakes the thread \<open>i\<close> when it is waiting.\<close>

definition workqueue_add_job :: "'j \<Rightarrow> nat \<Rightarrow> 'j workqueue \<Rightarrow> 'j workqueue option" where
  "workqueue_add_job j i q =
     (if mutex_kept q = None then Some (wake_worker i (q\<lparr> waiting_jobs := j # waiting_jobs q \<rparr>)) else None)"

text \<open>
  \<open>workqueue_shutdown\<close>: the walk over the workers sets their flags without the mutex, and reads a worker again
  for its \<open>next\<close> after its flag is set; a worker that has ended has freed itself.
\<close>

definition worker_freed :: "nat \<Rightarrow> 'j workqueue \<Rightarrow> bool" where
  "worker_freed w q \<longleftrightarrow> w < length (wthreads q) \<and> wthreads q ! w = WDead"

definition shutdown_step :: "'j workqueue \<Rightarrow> 'j workqueue option" where
  "shutdown_step q =
     (case shutdown q of
        SIdle \<Rightarrow> Some (q\<lparr> shutdown := SSet (workers q) \<rparr>)
      | SSet [] \<Rightarrow> Some (q\<lparr> shutdown := SLock \<rparr>)
      | SSet (w # ws) \<Rightarrow> Some (q\<lparr> terminate := (terminate q)[w := True], shutdown := SNext (w # ws) \<rparr>)
      | SNext [] \<Rightarrow> None
      | SNext (w # ws) \<Rightarrow> Some (q\<lparr> shutdown := (if worker_freed w q then SUseAfterFree else SSet ws) \<rparr>)
      | SLock \<Rightarrow>
          (if mutex_kept q = None
           then Some (q\<lparr> workers := [], waiting_jobs := [], shutdown := SDone,
                         wthreads := map (\<lambda>s. if s = WWait then WRelock else s) (wthreads q) \<rparr>)
           else None)
      | SDone \<Rightarrow> None
      | SUseAfterFree \<Rightarrow> None)"

datatype 'j wq_event = WorkerSection nat | JobDone nat | SpuriousWake nat | AddJob 'j nat | Shutdown

fun wq_do :: "'j wq_event \<Rightarrow> 'j workqueue \<Rightarrow> 'j workqueue option" where
  "wq_do (WorkerSection i) q = worker_section i q"
| "wq_do (JobDone i) q = job_done i q"
| "wq_do (SpuriousWake i) q = Some (wake_worker i q)"
| "wq_do (AddJob j i) q = workqueue_add_job j i q"
| "wq_do Shutdown q = shutdown_step q"

fun wq_exec :: "'j wq_event list \<Rightarrow> 'j workqueue \<Rightarrow> 'j workqueue option" where
  "wq_exec [] q = Some q"
| "wq_exec (e # es) q = (case wq_do e q of None \<Rightarrow> None | Some r \<Rightarrow> wq_exec es r)"

fun added_jobs :: "'j wq_event list \<Rightarrow> 'j list" where
  "added_jobs [] = []"
| "added_jobs (AddJob j i # es) = j # added_jobs es"
| "added_jobs (_ # es) = added_jobs es"

section \<open>The echo server\<close>

text \<open>What a client object owns; \<open>None\<close> and \<open>False\<close> are the cleared fields of \<open>memset\<close>.\<close>

record client_t =
  c_fd :: int
  c_evbase :: bool
  c_buf_ev :: bool
  c_output_buffer :: bool

datatype release = CloseFd int | FreeBufEv | FreeBase | FreeBuffer | FreeClient | FreeJob

definition closeClient :: "client_t \<Rightarrow> release list \<times> client_t" where
  "closeClient c = (if c_fd c \<ge> 0 then ([CloseFd (c_fd c)], c\<lparr> c_fd := -1 \<rparr>) else ([], c))"

definition closeAndFreeClient :: "client_t \<Rightarrow> release list" where
  "closeAndFreeClient c =
     (case closeClient c of (rs, c1) \<Rightarrow>
        rs @ (if c_buf_ev c1 then [FreeBufEv] else []) @ (if c_evbase c1 then [FreeBase] else [])
        @ (if c_output_buffer c1 then [FreeBuffer] else []) @ [FreeClient])"

text \<open>
  \<open>buffered_on_read\<close>: the input goes to the client's output buffer in pieces of at most 4096 bytes; the length
  of the input is read into an \<open>int\<close>.  The result is the input buffer, the client's output buffer, what has
  been queued for sending, what is released and the client.
\<close>

definition EVBUFFER_LENGTH :: "byte list \<Rightarrow> int" where
  "EVBUFFER_LENGTH input = sint (of_nat (length input) :: 32 word)"

lemma EVBUFFER_LENGTH_pos: "0 \<le> k \<Longrightarrow> k < EVBUFFER_LENGTH xs \<Longrightarrow> 0 < length xs"
  by (cases xs) (auto simp: EVBUFFER_LENGTH_def)

function copy_input :: "byte list \<Rightarrow> byte list \<Rightarrow> byte list \<times> byte list" where
  "copy_input input out =
     (let nbytes = EVBUFFER_LENGTH input in
      if nbytes > 0 then
        (let chunk = nat (if nbytes > 4096 then 4096 else nbytes)
         in copy_input (drop chunk input) (out @ take chunk input))
      else (input, out))"
  by pat_completeness auto
termination
  by (relation "measure (length \<circ> fst)") (auto dest: EVBUFFER_LENGTH_pos [rotated] intro!: diff_less)

declare copy_input.simps [simp del]

definition buffered_on_read :: "bool \<Rightarrow> byte list \<Rightarrow> byte list \<Rightarrow> byte list \<Rightarrow> client_t
    \<Rightarrow> byte list \<times> byte list \<times> byte list \<times> release list \<times> client_t" where
  "buffered_on_read write_fails input output_buffer sent c =
     (case copy_input input output_buffer of (input', out) \<Rightarrow>
        if write_fails then (case closeClient c of (rs, c') \<Rightarrow> (input', out, sent, rs, c'))
        else (input', [], sent @ out, [], c))"

definition buffered_on_error :: "client_t \<Rightarrow> release list \<times> client_t" where
  "buffered_on_error c = closeClient c"

definition server_job_function :: "client_t \<Rightarrow> release list" where
  "server_job_function c = closeAndFreeClient c @ [FreeJob]"

definition setnonblock :: "int \<Rightarrow> int \<Rightarrow> int" where
  "setnonblock getfl setfl = (if getfl < 0 then getfl else if setfl < 0 then -1 else 0)"

text \<open>
  \<open>on_accept\<close>: the arguments are the results of \<open>accept\<close>, of the two \<open>fcntl\<close> calls and of the allocations in
  their order; the result is what is released and the client of the job that is queued, if any.
\<close>

definition on_accept :: "int \<Rightarrow> int \<Rightarrow> int \<Rightarrow> bool \<Rightarrow> bool \<Rightarrow> bool \<Rightarrow> bool \<Rightarrow> bool \<Rightarrow> release list \<times> client_t option" where
  "on_accept client_fd getfl setfl client buffer base bufev job =
     (if client_fd < 0 then ([], None)
      else if setnonblock getfl setfl < 0 then ([CloseFd client_fd], None)
      else if \<not> client then ([CloseFd client_fd], None)
      else let c0 = \<lparr> c_fd = client_fd, c_evbase = False, c_buf_ev = False, c_output_buffer = False \<rparr> in
      if \<not> buffer then (closeAndFreeClient c0, None)
      else let c1 = c0\<lparr> c_output_buffer := True \<rparr> in
      if \<not> base then (closeAndFreeClient c1, None)
      else let c2 = c1\<lparr> c_evbase := True \<rparr> in
      if \<not> bufev then (closeAndFreeClient c2, None)
      else let c3 = c2\<lparr> c_buf_ev := True \<rparr> in
      if \<not> job then (closeAndFreeClient c3, None)
      else ([], Some c3))"

text \<open>
  \<open>runServer\<close>: the results of the calls in their order are arguments.  \<open>err\<close> ends the process; a return comes
  with what has been released, the work queue, and whether \<open>workqueue_shutdown\<close> was called on it.
\<close>

definition NUM_THREADS :: int where "NUM_THREADS = 8"

record listen_results =
  ls_socket :: int
  ls_bind :: int
  ls_listen :: int
  ls_getfl :: int
  ls_setfl :: int
  ls_base :: bool
  ls_created :: "nat \<Rightarrow> bool"

datatype 'j server_end = Exited string | Returned int "release list" "'j workqueue option" bool

definition runServer :: "listen_results \<Rightarrow> 'j server_end" where
  "runServer r =
     (let listenfd = ls_socket r in
      if listenfd < 0 then Exited ''listen failed''
      else if ls_bind r < 0 then Exited ''bind failed''
      else if ls_listen r < 0 then Exited ''listen failed''
      else if setnonblock (ls_getfl r) (ls_setfl r) < 0 then Exited ''failed to set server socket to non-blocking''
      else if \<not> ls_base r then Returned 1 [CloseFd listenfd] None False
      else case workqueue_init (ls_created r) NUM_THREADS of (failed, q) \<Rightarrow>
        if failed \<noteq> 0 then Returned 1 [CloseFd listenfd] (Some q) True
        else Returned 0 [FreeBase, CloseFd listenfd] (Some q) False)"

text \<open>\<open>killServer\<close> starts \<open>workqueue_shutdown\<close> whether or not the event loop could be told to end.\<close>

definition killServer :: "bool \<Rightarrow> 'j workqueue \<Rightarrow> bool \<times> 'j workqueue option" where
  "killServer loopexit q = (loopexit, shutdown_step q)"

lemma init_workers_ok: "init_workers created i n q = (0, q') \<Longrightarrow> length (workers q') = length (workers q) + n"
proof (induction created i n q rule: init_workers.induct)
  case (2 created i n q)
  then show ?case by (auto split: if_splits)
qed simp

text \<open>
  Every return closes the listening socket; the server runs with all of its workers; and the event base is leaked
  when the workers cannot be created.
\<close>

lemma runServer_releases:
  assumes "runServer r = Returned code rs q down"
  shows "CloseFd (ls_socket r) \<in> set rs
    \<and> (code = 0 \<longrightarrow> (\<exists>q'. q = Some q' \<and> length (workers q') = 8) \<and> FreeBase \<in> set rs)
    \<and> (ls_base r \<and> code \<noteq> 0 \<longrightarrow> FreeBase \<notin> set rs)"
  using assms
  by (auto simp: runServer_def workqueue_init_def NUM_THREADS_def blank_workqueue_def Let_def split: if_splits prod.splits
      dest!: init_workers_ok)

section \<open>Properties of the lists\<close>

lemma list_at_frame: "a \<notin> set xs \<Longrightarrow> list_at (h(a := n)) p xs = list_at h p xs"
  by (induction xs arbitrary: p) auto

lemma list_at_prev: "list_at (h(a := (h a)\<lparr> node_prev := q \<rparr>)) p xs = list_at h p xs"
  by (induction xs arbitrary: p) auto


text \<open>The invariant of a list built by \<open>LL_ADD\<close> alone: no node has a \<open>prev\<close>.\<close>

definition no_prev :: "store \<Rightarrow> addr list \<Rightarrow> bool" where
  "no_prev h xs \<longleftrightarrow> (\<forall>a \<in> set xs. node_prev (h a) = None)"

lemma LL_ADD_pushes:
  assumes "list_at h l xs" "no_prev h xs" "a \<notin> set xs"
  shows "case LL_ADD a (h, l) of (h', l') \<Rightarrow> list_at h' l' (a # xs) \<and> no_prev h' (a # xs)"
  using assms by (auto simp: LL_ADD_def list_at_frame no_prev_def)

lemma LL_REMOVE_pops:
  assumes "list_at h l (a # xs)" "no_prev h (a # xs)" "distinct (a # xs)"
  shows "case LL_REMOVE a (h, l) of (h', l') \<Rightarrow> list_at h' l' xs \<and> no_prev h' xs"
proof (cases xs)
  case Nil
  then show ?thesis using assms by (auto simp: LL_REMOVE_def no_prev_def)
next
  case (Cons b ys)
  then show ?thesis using assms
    by (auto simp: LL_REMOVE_def no_prev_def list_at_frame list_at_prev)
qed

text \<open>\<open>worker_function\<close> takes the head of the list; here the first \<open>n\<close> takes.\<close>

fun pop_heads :: "nat \<Rightarrow> store \<times> addr option \<Rightarrow> addr list \<times> (store \<times> addr option)" where
  "pop_heads 0 sl = ([], sl)"
| "pop_heads (Suc n) sl =
     (case snd sl of None \<Rightarrow> ([], sl)
      | Some a \<Rightarrow> (case pop_heads n (LL_REMOVE a sl) of (as, sl') \<Rightarrow> (a # as, sl')))"

lemma fold_LL_ADD:
  assumes "list_at h l ys" "no_prev h ys" "distinct (xs @ ys)"
  shows "case fold LL_ADD xs (h, l) of (h', l') \<Rightarrow> list_at h' l' (rev xs @ ys) \<and> no_prev h' (rev xs @ ys)"
  using assms
proof (induction xs arbitrary: h l ys)
  case (Cons a xs)
  obtain h1 l1 where add: "LL_ADD a (h, l) = (h1, l1)" by fastforce
  have "list_at h1 l1 (a # ys)" "no_prev h1 (a # ys)"
    using LL_ADD_pushes [of h l ys a] Cons.prems add by auto
  then show ?case using Cons.IH [of h1 l1 "a # ys"] Cons.prems add by simp
qed simp

lemma pop_heads_takes:
  assumes "list_at h l xs" "no_prev h xs" "distinct xs" "n \<le> length xs"
  shows "case pop_heads n (h, l) of (as, h', l') \<Rightarrow> as = take n xs \<and> list_at h' l' (drop n xs)"
  using assms
proof (induction n arbitrary: h l xs)
  case (Suc n)
  then obtain a ys where xs: "xs = a # ys" by (cases xs) auto
  obtain h1 l1 where rm: "LL_REMOVE a (h, l) = (h1, l1)" by fastforce
  have "list_at h1 l1 ys" "no_prev h1 ys" using LL_REMOVE_pops [of h l a ys] Suc.prems xs rm by auto
  then show ?case using Suc.IH [of h1 l1 ys] Suc.prems xs rm by (auto split: prod.splits)
qed simp

text \<open>
  The linked list of waiting jobs is a stack.  When the jobs of a list of distinct nodes have been added
  to the empty list, the first \<open>n\<close> heads taken by the workers are the \<open>n\<close> jobs added last, latest first, and
  what remains is a well-formed list of the others.
\<close>
theorem waiting_jobs_stack:
  assumes "distinct xs" and "n \<le> length xs"
  shows "case pop_heads n (fold LL_ADD xs (h, None)) of
           (as, h', l') \<Rightarrow> as = take n (rev xs) \<and> list_at h' l' (drop n (rev xs))"
proof -
  obtain h1 l1 where f: "fold LL_ADD xs (h, None) = (h1, l1)" by fastforce
  have "list_at h1 l1 (rev xs)" "no_prev h1 (rev xs)"
    using fold_LL_ADD [of h None "[]" xs] assms f by (auto simp: no_prev_def)
  then show ?thesis using pop_heads_takes [of h1 l1 "rev xs" n] assms f by simp
qed

theorem waiting_jobs_stack_witness:
  "case pop_heads 2 (fold LL_ADD [1, 2, 3] ((\<lambda>_. \<lparr> node_prev = None, node_next = None \<rparr>), None)) of
     (as, h', l') \<Rightarrow> as = [3, 2] \<and> list_at h' l' [1]"
  using waiting_jobs_stack [of "[1, 2, 3]" 2 "\<lambda>_. \<lparr> node_prev = None, node_next = None \<rparr>"] by simp

text \<open>
  \<open>LL_ADD\<close> does not set the \<open>prev\<close> of the old head, so \<open>LL_REMOVE\<close> of another node than the head does not unlink
  it and loses what follows it; \<open>worker_function\<close> only removes heads.
\<close>
lemma list_at_cut:
  "list_at h p (cs @ a # xs) \<Longrightarrow> a \<notin> set cs \<Longrightarrow> node_next n = None \<Longrightarrow> list_at (h(a := n)) p (cs @ [a])"
  by (induction cs arbitrary: p) auto

lemma LL_REMOVE_inner_truncates:
  assumes "list_at h l (cs @ a # xs)" and "cs \<noteq> []" and "no_prev h (cs @ a # xs)" and "distinct (cs @ a # xs)"
  shows "case LL_REMOVE a (h, l) of (h', l') \<Rightarrow> list_at h' l' (cs @ [a])"
proof -
  have l: "l \<noteq> Some a" using assms by (cases cs) auto
  have prev: "node_prev (h a) = None" using assms(3) by (simp add: no_prev_def)
  have "list_at (h(c := (h c)\<lparr> node_prev := None \<rparr>)) l (cs @ a # xs)" for c
    using assms(1) by (simp only: list_at_prev)
  then have cut: "list_at (h(c := (h c)\<lparr> node_prev := None \<rparr>, a := \<lparr> node_prev = None, node_next = None \<rparr>)) l (cs @ [a])" for c
    using assms(4) by (intro list_at_cut [where xs = xs]) auto
  then show ?thesis using list_at_cut [of h l cs a xs] assms l prev
    by (auto simp: LL_REMOVE_def Let_def simp del: fun_upd_apply split: option.splits)
qed

section \<open>Properties of the queue\<close>

definition wq_inv :: "'j workqueue \<Rightarrow> bool" where
  "wq_inv q \<longleftrightarrow> (\<forall>i < length (wthreads q). wthreads q ! i = WDead \<longleftrightarrow> mutex_kept q = Some i)"

lemmas wq_defs = worker_section_def job_done_def wake_worker_def workqueue_add_job_def shutdown_step_def

lemma wq_inv_init: "wq_inv q \<Longrightarrow> mutex_kept q = None \<Longrightarrow>
   wq_inv (snd (init_workers created i n q)) \<and> mutex_kept (snd (init_workers created i n q)) = None"
  by (induction created i n q rule: init_workers.induct) (auto simp: wq_inv_def nth_append less_Suc_eq)

lemma wq_inv_step: "wq_do e q = Some r \<Longrightarrow> wq_inv q \<Longrightarrow> wq_inv r"
  by (cases e; auto simp: wq_defs wq_inv_def nth_list_update split: if_splits list.splits shutdown_pc.splits wq_thread.splits; fastforce)

text \<open>Once the mutex is kept, every event leaves it kept, the jobs as they are and the shutdown unfinished.\<close>

definition wq_mono :: "'j workqueue \<Rightarrow> 'j workqueue \<Rightarrow> bool" where
  "wq_mono q r \<longleftrightarrow> mutex_kept q \<noteq> None \<longrightarrow>
     mutex_kept r = mutex_kept q \<and> waiting_jobs r = waiting_jobs q \<and> wq_started r = wq_started q
     \<and> (shutdown r = SDone \<longleftrightarrow> shutdown q = SDone)"

lemma wq_mono_step: "wq_do e q = Some r \<Longrightarrow> wq_mono q r"
  by (cases e) (auto simp: wq_defs wq_mono_def split: if_splits list.splits shutdown_pc.splits)

definition wq_call :: "'j wq_event \<Rightarrow> 'j workqueue \<Rightarrow> unit + 'j workqueue" where
  "wq_call e q = (case wq_do e q of None \<Rightarrow> Inl () | Some r \<Rightarrow> Inr r)"

interpretation wq: component wq_call wq_inv wq_mono
proof unfold_locales
  show "wq_inv r" if "wq_inv q" "wq_call e q = Inr r" for q e r
    using that by (auto simp: wq_call_def intro: wq_inv_step split: option.splits)
  show "wq_mono q r" if "wq_inv q" "wq_call e q = Inr r" for q e r
    using that by (auto simp: wq_call_def intro: wq_mono_step split: option.splits)
qed (auto simp: wq_mono_def)

lemma wq_exec_run: "wq_exec es q = Some r \<longleftrightarrow> run wq_call es q = Inr r"
  by (induction es arbitrary: q) (auto simp: wq_call_def split: option.splits)

definition jobs_of :: "'j workqueue \<Rightarrow> 'j multiset" where
  "jobs_of q = mset (wq_started q) + mset (waiting_jobs q)"

lemma jobs_step:
  "wq_do e q = Some r \<Longrightarrow>
   jobs_of r \<subseteq># jobs_of q + mset (added_jobs [e])
   \<and> (shutdown q = SDone \<longrightarrow> shutdown r = SDone)
   \<and> (shutdown r \<noteq> SDone \<longrightarrow> jobs_of r = jobs_of q + mset (added_jobs [e]))"
  by (cases e) (auto simp: wq_defs jobs_of_def split: if_splits list.splits shutdown_pc.splits)

lemma added_jobs_Cons: "mset (added_jobs (e # es)) = mset (added_jobs [e]) + mset (added_jobs es)"
  by (cases e) auto

lemma jobs_exec:
  "wq_exec es q = Some r \<Longrightarrow>
   jobs_of r \<subseteq># jobs_of q + mset (added_jobs es)
   \<and> (shutdown q = SDone \<longrightarrow> shutdown r = SDone)
   \<and> (shutdown r \<noteq> SDone \<longrightarrow> jobs_of r = jobs_of q + mset (added_jobs es))"
proof (induction es arbitrary: q)
  case (Cons e es)
  then obtain q1 where step: "wq_do e q = Some q1" and rest: "wq_exec es q1 = Some r" by (auto split: option.splits)
  have "jobs_of q1 + mset (added_jobs es) \<subseteq># jobs_of q + mset (added_jobs [e]) + mset (added_jobs es)"
    using jobs_step [OF step] by (simp only: subset_mset.add_le_cancel_right)
  then have "jobs_of r \<subseteq># jobs_of q + mset (added_jobs [e]) + mset (added_jobs es)"
    using Cons.IH [OF rest] by (meson subset_mset.order_trans)
  then show ?case using Cons.IH [OF rest] jobs_step [OF step]
    by (auto simp only: added_jobs_Cons [of e es] add.assoc)
qed simp

lemma init_fields:
  "waiting_jobs (snd (init_workers created i n q)) = waiting_jobs q
   \<and> wq_started (snd (init_workers created i n q)) = wq_started q
   \<and> shutdown (snd (init_workers created i n q)) = shutdown q"
  by (induction created i n q rule: init_workers.induct) auto

text \<open>
  C32: no job is lost or run twice.  After any sequence of events from \<open>workqueue_init\<close>, the jobs that were
  started and those that wait are jobs that were added, each as often as it was added at most; as long as
  \<open>workqueue_shutdown\<close> has not cleared the queue they are all of them.
\<close>
theorem jobs_run_at_most_once:
  assumes "wq_exec es (snd (workqueue_init created numWorkers)) = Some q"
  shows "mset (wq_started q) + mset (waiting_jobs q) \<subseteq># mset (added_jobs es)
    \<and> (shutdown q \<noteq> SDone \<longrightarrow> mset (wq_started q) + mset (waiting_jobs q) = mset (added_jobs es))"
  using jobs_exec [OF assms] by (simp add: jobs_of_def workqueue_init_def init_fields blank_workqueue_def)

theorem jobs_run_at_most_once_witness:
  "\<exists>q. wq_exec [AddJob (7::nat) 0, WorkerSection 0, AddJob 8 0] (snd (workqueue_init (\<lambda>_. True) 0)) = Some q
     \<and> mset (wq_started q) + mset (waiting_jobs q) = {#7, 8#}"
proof -
  obtain q where q: "wq_exec [AddJob (7::nat) 0, WorkerSection 0, AddJob 8 0] (snd (workqueue_init (\<lambda>_. True) 0)) = Some q"
    and "shutdown q \<noteq> SDone"
    by (simp add: wq_defs workqueue_init_def blank_workqueue_def)
  then show ?thesis using jobs_run_at_most_once [OF q] by auto
qed

text \<open>
  C33: the shutdown does not complete.  Once one worker has ended, the mutex is held for good: whatever happens
  afterwards, no other worker ends, no job is started or added, and \<open>workqueue_shutdown\<close> does not return when it
  has not returned before.
\<close>
theorem ended_worker_blocks_queue:
  assumes "wq_exec es (snd (workqueue_init created numWorkers)) = Some q"
    and "i < length (wthreads q)" and "wthreads q ! i = WDead"
    and "wq_exec es' q = Some r"
  shows "(\<forall>k < length (wthreads r). wthreads r ! k = WDead \<longleftrightarrow> k = i)
    \<and> waiting_jobs r = waiting_jobs q \<and> wq_started r = wq_started q \<and> (shutdown r = SDone \<longleftrightarrow> shutdown q = SDone)
    \<and> (\<forall>j k. workqueue_add_job j k r = None)"
proof -
  have "wq_inv (blank_workqueue :: 'a workqueue)" "mutex_kept (blank_workqueue :: 'a workqueue) = None"
    by (simp_all add: blank_workqueue_def wq_inv_def)
  then have "wq_inv (snd (workqueue_init created numWorkers) :: 'a workqueue)"
    unfolding workqueue_init_def using wq_inv_init by blast
  then have inv: "wq_inv q" using wq.run_inv assms(1) wq_exec_run by blast
  then have kept: "mutex_kept q = Some i" using assms(2,3) by (simp add: wq_inv_def)
  have "wq_inv r" "wq_mono q r" using wq.run_inv wq.run_mono inv assms(4) wq_exec_run by blast+
  then show ?thesis using kept by (auto simp: wq_mono_def wq_inv_def workqueue_add_job_def)
qed


text \<open>With two workers the first to end leaves the other one unable to end.\<close>

theorem ended_worker_blocks_queue_witness:
  "\<exists>q. wq_exec [WorkerSection 0, WorkerSection 1, Shutdown, Shutdown, Shutdown, Shutdown, Shutdown, Shutdown, Shutdown, WorkerSection 0]
         (snd (workqueue_init (\<lambda>_. True) 2)) = Some (q :: nat workqueue)
     \<and> shutdown q = SDone \<and> wthreads q = [WDead, WRelock]
     \<and> (\<forall>es' r. wq_exec es' q = Some r \<longrightarrow> (\<forall>k < length (wthreads r). wthreads r ! k = WDead \<longleftrightarrow> k = 0))"
proof -
  let ?es = "[WorkerSection 0, WorkerSection 1, Shutdown, Shutdown, Shutdown, Shutdown, Shutdown, Shutdown, Shutdown, WorkerSection 0]"
  have "\<exists>q. wq_exec ?es (snd (workqueue_init (\<lambda>_. True) 2)) = Some (q :: nat workqueue)
     \<and> shutdown q = SDone \<and> wthreads q = [WDead, WRelock]"
    by (simp add: wq_defs worker_freed_def workqueue_init_def blank_workqueue_def numeral_2_eq_2)
  then obtain q :: "nat workqueue" where q: "wq_exec ?es (snd (workqueue_init (\<lambda>_. True) 2)) = Some q"
    and st: "shutdown q = SDone" "wthreads q = [WDead, WRelock]" by blast
  show ?thesis using ended_worker_blocks_queue [OF q, of 0] q st by auto
qed

text \<open>
  A worker that finds its flag set while \<open>workqueue_shutdown\<close> still walks the list frees itself, and the walk
  reads its \<open>next\<close>.
\<close>
lemma shutdown_reads_freed_worker:
  "\<exists>q. wq_exec [Shutdown, Shutdown, WorkerSection 0, Shutdown] (snd (workqueue_init (\<lambda>_. True) 1)) = Some (q :: nat workqueue)
     \<and> shutdown q = SUseAfterFree"
  by (simp add: wq_defs worker_freed_def workqueue_init_def blank_workqueue_def)

section \<open>Properties of the echo server\<close>

lemma EVBUFFER_LENGTH_small: "length xs < 2 ^ 31 \<Longrightarrow> EVBUFFER_LENGTH xs = int (length xs)"
  by (simp add: EVBUFFER_LENGTH_def signed_of_nat signed_take_bit_int_eq_self)

lemma copy_input_all: "length input < 2 ^ 31 \<Longrightarrow> copy_input input out = ([], out @ input)"
proof (induction input out rule: copy_input.induct)
  case (1 input out)
  show ?case
  proof (cases "input = []")
    case True
    then show ?thesis by (simp add: copy_input.simps [of "[]"] EVBUFFER_LENGTH_small)
  next
    case False
    let ?n = "nat (if EVBUFFER_LENGTH input > 4096 then 4096 else EVBUFFER_LENGTH input)"
    have len: "EVBUFFER_LENGTH input = int (length input)" using 1 by (intro EVBUFFER_LENGTH_small)
    have "copy_input (drop ?n input) (out @ take ?n input) = ([], (out @ take ?n input) @ drop ?n input)"
      using 1 False len by (intro "1.IH") auto
    then show ?thesis using False len by (subst copy_input.simps) (auto simp: Let_def split: if_splits)
  qed
qed

fun read_events :: "byte list list \<Rightarrow> byte list \<Rightarrow> byte list \<Rightarrow> client_t \<Rightarrow> byte list \<times> byte list \<times> client_t" where
  "read_events [] out sent c = (out, sent, c)"
| "read_events (input # inputs) out sent c =
     (case buffered_on_read False input out sent c of (_, out', sent', _, c') \<Rightarrow> read_events inputs out' sent' c')"

text \<open>
  The server echoes.  Over any number of read events with inputs below two gigabytes each, what is queued
  for sending is the input, all of it and in its order, and the client's buffer is empty again.
\<close>
theorem server_echoes:
  assumes "\<forall>input \<in> set inputs. length input < 2 ^ 31"
  shows "read_events inputs [] sent c = ([], sent @ concat inputs, c)"
  using assms by (induction inputs arbitrary: sent) (auto simp: buffered_on_read_def copy_input_all)

theorem server_echoes_witness:
  "let c = \<lparr> c_fd = 5, c_evbase = True, c_buf_ev = True, c_output_buffer = True \<rparr> in
   read_events [[1, 2], [3]] [] [] c = ([], [1, 2, 3], c)"
  using server_echoes [of "[[1, 2], [3]]" "[]" "\<lparr> c_fd = 5, c_evbase = True, c_buf_ev = True, c_output_buffer = True \<rparr>"]
  by simp

text \<open>A client whose descriptor was closed by a failed write or a socket error is not closed again by its job.\<close>

lemma closed_once: "0 \<le> c_fd c \<Longrightarrow> CloseFd k \<notin> set (server_job_function (snd (closeClient c)))"
  by (auto simp: server_job_function_def closeAndFreeClient_def closeClient_def)

text \<open>
  An accepted connection is not leaked.  \<open>on_accept\<close> either queues a job whose client owns the descriptor
  and all three libevent objects, and releases nothing, or it releases the descriptor once and each object that
  was allocated once; the job of a queued client releases all of it when its event loop ends.
\<close>
theorem accept_releases_everything:
  "case on_accept fd getfl setfl client buffer base bufev job of
     (rs, Some c) \<Rightarrow> rs = [] \<and> 0 \<le> fd \<and> server_job_function c = [CloseFd fd, FreeBufEv, FreeBase, FreeBuffer, FreeClient, FreeJob]
   | (rs, None) \<Rightarrow>
       distinct rs \<and> (CloseFd fd \<in> set rs \<longleftrightarrow> 0 \<le> fd)
       \<and> (FreeClient \<in> set rs \<longleftrightarrow> 0 \<le> fd \<and> setnonblock getfl setfl \<ge> 0 \<and> client)
       \<and> (FreeBuffer \<in> set rs \<longleftrightarrow> FreeClient \<in> set rs \<and> buffer)
       \<and> (FreeBase \<in> set rs \<longleftrightarrow> FreeBuffer \<in> set rs \<and> base)
       \<and> (FreeBufEv \<in> set rs \<longleftrightarrow> FreeBase \<in> set rs \<and> bufev)"
  by (simp add: on_accept_def closeAndFreeClient_def closeClient_def server_job_function_def Let_def)

end
