(* ===== verification/Http_Handler.thy ===== *)
theory Http_Handler
  imports Securec
begin

text \<open>
  \<open>even-http/ps/core/http_message_handler.cc\<close> and \<open>http_client.cc\<close>: the object that wraps one HTTP request or
  response, and the client that runs a request on its event loop.  What libevent computes (parsing of
  addresses and queries, the search for a header, which additions succeed) is the record \<open>evlib\<close>; the
  callbacks the event loop makes during a request are a list of events.
\<close>

section \<open>What the code uses of libevent and of the C library\<close>

type_synonym kvq = "(string \<times> string) list"

record evhttp_uri =
  uri_host :: "string option"
  uri_port :: int
  uri_path :: "string option"
  uri_query :: "string option"
  uri_fragment :: "string option"

record evlib =
  evhttp_uri_parse :: "string \<Rightarrow> evhttp_uri option"
  evhttp_parse_query_str :: "string \<Rightarrow> kvq option"
  evhttp_find_header :: "kvq \<Rightarrow> string \<Rightarrow> string option"
  evhttp_add_header_ok :: "string \<Rightarrow> string \<Rightarrow> bool"
  evbuffer_add_ok :: "byte list \<Rightarrow> bool"

record evhttp_request =
  req_evhttp_uri :: "evhttp_uri option"
  req_uri :: "string option"
  req_host :: "string option"
  input_headers :: kvq
  output_headers :: kvq
  input_buffer :: "byte list"
  output_buffer :: "byte list"
  body_size :: nat

text \<open>The bytes a \<open>char*\<close> of a string shows: up to the first zero.\<close>

definition c_str :: "string \<Rightarrow> string" where
  "c_str s = takeWhile (\<lambda>c. c \<noteq> CHR 0x00) s"

definition string_bytes :: "string \<Rightarrow> byte list" where
  "string_bytes s = map of_char s"

definition bytes_string :: "byte list \<Rightarrow> string" where
  "bytes_string bs = map (\<lambda>b. char_of (unat b)) bs"

text \<open>\<open>strtouq\<close> with base 10: blanks, an optional sign, digits; the value saturates, a minus negates it.\<close>

definition is_space :: "char \<Rightarrow> bool" where
  "is_space c \<longleftrightarrow> c = CHR '' '' \<or> (9 \<le> (of_char c :: nat) \<and> (of_char c :: nat) \<le> 13)"

definition is_digit :: "char \<Rightarrow> bool" where
  "is_digit c \<longleftrightarrow> 48 \<le> (of_char c :: nat) \<and> (of_char c :: nat) \<le> 57"

definition dec_value :: "string \<Rightarrow> nat" where
  "dec_value ds = foldl (\<lambda>v c. v * 10 + (of_char c - 48)) 0 ds"

definition strtouq :: "string \<Rightarrow> u64" where
  "strtouq s =
     (let t = dropWhile is_space s;
          neg = (t \<noteq> [] \<and> hd t = CHR ''-'');
          u = (if t \<noteq> [] \<and> (hd t = CHR ''-'' \<or> hd t = CHR ''+'') then tl t else t);
          v = dec_value (takeWhile is_digit u)
      in if v \<ge> 2 ^ 64 then - 1 else if neg then - word_of_nat v else word_of_nat v)"

section \<open>The message handler\<close>

text \<open>
  The fields of \<open>HttpMessageHandler\<close>; a null pointer is \<open>None\<close>.  \<open>head_params\<close>, \<open>resp_headers\<close> and \<open>resp_buf\<close>
  point into the request and are only reached through these pointers after \<open>InitHttpMessage\<close>.
\<close>

record handler =
  event_request :: "evhttp_request option"
  event_uri :: "evhttp_uri option"
  path_params :: kvq
  head_params :: "kvq option"
  post_params :: kvq
  post_param_parsed :: bool
  post_message :: "string option"
  body_vec :: "byte list option"
  body_capacity :: nat
  resp_headers :: "kvq option"
  resp_buf :: "byte list option"
  resp_code :: int
  content_len :: u64
  event_base :: bool
  recv_offset :: u64

definition new_http_handler :: handler where
  "new_http_handler = \<lparr> event_request = None, event_uri = None, path_params = [], head_params = None, post_params = [],
     post_param_parsed = False, post_message = None, body_vec = None, body_capacity = 0, resp_headers = None, resp_buf = None,
     resp_code = 200, content_len = 0, event_base = False, recv_offset = 0 \<rparr>"

type_synonym 'a handled = "(exn + 'a) \<times> handler"

text \<open>\<open>MS_EXCEPTION_IF_NULL\<close>.\<close>

definition null_exn :: "string \<Rightarrow> exn" where
  "null_exn what = MsException (''The pointer ['' @ what @ ''] is null.'')"

definition InitHttpMessage :: "evlib \<Rightarrow> handler \<Rightarrow> unit handled" where
  "InitHttpMessage lib h =
     (case event_request h of
        None \<Rightarrow> (Inl (null_exn ''event_request_''), h)
      | Some req \<Rightarrow>
          (let h1 = h\<lparr> event_uri := req_evhttp_uri req \<rparr> in
           case req_evhttp_uri req of
             None \<Rightarrow> (Inl (null_exn ''event_uri_''), h1)
           | Some uri \<Rightarrow>
               (let h2 = (case uri_query uri of
                            None \<Rightarrow> h1
                          | Some query \<Rightarrow> h1\<lparr> path_params := (case evhttp_parse_query_str lib query of None \<Rightarrow> [] | Some q \<Rightarrow> q) \<rparr>)
                in (Inr (), h2\<lparr> head_params := Some (input_headers req), resp_headers := Some (output_headers req),
                                resp_buf := Some (output_buffer req) \<rparr>))))"

definition ParseUrl :: "evlib \<Rightarrow> string \<Rightarrow> handler \<Rightarrow> unit handled" where
  "ParseUrl lib url h =
     (let h1 = h\<lparr> event_uri := evhttp_uri_parse lib (c_str url) \<rparr> in
      if event_uri h1 = None then (Inl (null_exn ''event_uri_''), h1) else (Inr (), h1))"

definition GetHeadParam :: "evlib \<Rightarrow> string \<Rightarrow> handler \<Rightarrow> exn + string" where
  "GetHeadParam lib key h =
     (case head_params h of
        None \<Rightarrow> Inl (null_exn ''head_params_'')
      | Some ps \<Rightarrow> (case evhttp_find_header lib ps (c_str key) of None \<Rightarrow> Inl (null_exn ''val'') | Some val \<Rightarrow> Inr val))"

definition GetPathParam :: "evlib \<Rightarrow> string \<Rightarrow> handler \<Rightarrow> exn + string" where
  "GetPathParam lib key h =
     (case evhttp_find_header lib (path_params h) (c_str key) of None \<Rightarrow> Inl (null_exn ''val'') | Some val \<Rightarrow> Inr val)"

definition ParsePostParam :: "evlib \<Rightarrow> handler \<Rightarrow> unit handled" where
  "ParsePostParam lib h =
     (case event_request h of
        None \<Rightarrow> (Inl (null_exn ''event_request_''), h)
      | Some req \<Rightarrow>
          (if input_buffer req = [] then (Inl (MsException ''The post parameter size is: 0''), h)
           else let msg = bytes_string (input_buffer req);
                    h1 = h\<lparr> post_param_parsed := True, post_message := Some msg \<rparr>
           in case evhttp_parse_query_str lib (c_str msg) of
                None \<Rightarrow> (Inl (MsException ''Parse post parameter failed!''), h1\<lparr> post_params := [] \<rparr>)
              | Some q \<Rightarrow> (Inr (), h1\<lparr> post_params := q \<rparr>)))"

definition GetPostParam :: "evlib \<Rightarrow> string \<Rightarrow> handler \<Rightarrow> string handled" where
  "GetPostParam lib key h =
     (case (if post_param_parsed h then (Inr (), h) else ParsePostParam lib h) of
        (Inl e, h1) \<Rightarrow> (Inl e, h1)
      | (Inr _, h1) \<Rightarrow>
          (case evhttp_find_header lib (post_params h1) (c_str key) of
             None \<Rightarrow> (Inl (null_exn ''val''), h1) | Some val \<Rightarrow> (Inr val, h1)))"

text \<open>The accessors of the request and of its address.\<close>

definition of_request :: "(evhttp_request \<Rightarrow> string option) \<Rightarrow> string \<Rightarrow> handler \<Rightarrow> exn + string" where
  "of_request field what h =
     (case event_request h of
        None \<Rightarrow> Inl (null_exn ''event_request_'')
      | Some req \<Rightarrow> (case field req of None \<Rightarrow> Inl (null_exn what) | Some s \<Rightarrow> Inr s))"

definition GetRequestUri :: "handler \<Rightarrow> exn + string" where
  "GetRequestUri h = of_request req_uri ''uri'' h"

definition GetRequestHost :: "handler \<Rightarrow> exn + string" where
  "GetRequestHost h = of_request req_host ''host'' h"

definition of_uri :: "(evhttp_uri \<Rightarrow> string option) \<Rightarrow> string \<Rightarrow> handler \<Rightarrow> exn + string" where
  "of_uri field what h =
     (case event_uri h of
        None \<Rightarrow> Inl (null_exn ''event_uri_'')
      | Some uri \<Rightarrow> (case field uri of None \<Rightarrow> Inl (null_exn what) | Some s \<Rightarrow> Inr s))"

definition GetHostByUri :: "handler \<Rightarrow> exn + string" where "GetHostByUri h = of_uri uri_host ''host'' h"
definition GetUriPath :: "handler \<Rightarrow> exn + string" where "GetUriPath h = of_uri uri_path ''path'' h"
definition GetUriQuery :: "handler \<Rightarrow> exn + string" where "GetUriQuery h = of_uri uri_query ''query'' h"
definition GetUriFragment :: "handler \<Rightarrow> exn + string" where "GetUriFragment h = of_uri uri_fragment ''fragment'' h"

definition GetUriPort :: "handler \<Rightarrow> exn + int" where
  "GetUriPort h =
     (case event_uri h of
        None \<Rightarrow> Inl (null_exn ''event_uri_'')
      | Some uri \<Rightarrow> Inr (if uri_port uri < 0 then 80 else uri_port uri))"

definition GetRequestPath :: "handler \<Rightarrow> exn + string" where
  "GetRequestPath h =
     (case event_uri h of
        None \<Rightarrow> Inl (null_exn ''event_uri_'')
      | Some uri \<Rightarrow>
          (let path = (case uri_path uri of None \<Rightarrow> ''/'' | Some p \<Rightarrow> if p = [] then ''/'' else p)
           in Inr (case uri_query uri of None \<Rightarrow> path | Some query \<Rightarrow> path @ ''?'' @ query)))"

definition GetPostMsg :: "handler \<Rightarrow> exn + byte list" where
  "GetPostMsg h =
     (case event_request h of
        None \<Rightarrow> Inl (null_exn ''event_request_'')
      | Some req \<Rightarrow> if input_buffer req = [] then Inl (MsException ''The post message is empty!'') else Inr (input_buffer req))"

text \<open>The response: its headers, its body and what is handed to \<open>evhttp_send_reply\<close> and \<open>evhttp_send_error\<close>.\<close>

datatype http_reply = Reply int kvq "byte list" | ErrorReply int "string option"

definition AddRespHeadParam :: "evlib \<Rightarrow> string \<Rightarrow> string \<Rightarrow> handler \<Rightarrow> unit handled" where
  "AddRespHeadParam lib key val h =
     (case resp_headers h of
        None \<Rightarrow> (Inl (null_exn ''resp_headers_''), h)
      | Some hs \<Rightarrow>
          (if \<not> evhttp_add_header_ok lib (c_str key) (c_str val)
           then (Inl (MsException ''Add parameter of response header failed.''), h)
           else (Inr (), h\<lparr> resp_headers := Some (hs @ [(c_str key, c_str val)]) \<rparr>)))"

fun add_pairs :: "evlib \<Rightarrow> kvq \<Rightarrow> handler \<Rightarrow> unit handled" where
  "add_pairs lib [] h = (Inr (), h)"
| "add_pairs lib ((key, val) # ps) h =
     (case AddRespHeadParam lib key val h of (Inl e, h1) \<Rightarrow> (Inl e, h1) | (Inr _, h1) \<Rightarrow> add_pairs lib ps h1)"

type_synonym HttpHeaders = "(string \<times> string list) list"

definition AddRespHeaders :: "evlib \<Rightarrow> HttpHeaders \<Rightarrow> handler \<Rightarrow> unit handled" where
  "AddRespHeaders lib headers h = add_pairs lib (concat (map (\<lambda>(key, vals). map (Pair key) vals) headers)) h"

definition AddRespString :: "evlib \<Rightarrow> string \<Rightarrow> handler \<Rightarrow> unit handled" where
  "AddRespString lib str h =
     (case resp_buf h of
        None \<Rightarrow> (Inl (null_exn ''resp_buf_''), h)
      | Some buf \<Rightarrow>
          (if \<not> evbuffer_add_ok lib (string_bytes (c_str str)) then (Inl (MsException ''Add string to response body failed.''), h)
           else (Inr (), h\<lparr> resp_buf := Some (buf @ string_bytes (c_str str)) \<rparr>)))"

definition SetRespCode :: "int \<Rightarrow> handler \<Rightarrow> handler" where
  "SetRespCode code h = h\<lparr> resp_code := code \<rparr>"

definition send_reply :: "int \<Rightarrow> handler \<Rightarrow> http_reply handled" where
  "send_reply code h =
     (if event_request h = None then (Inl (null_exn ''event_request_''), h)
      else case resp_buf h of
        None \<Rightarrow> (Inl (null_exn ''resp_buf_''), h)
      | Some buf \<Rightarrow> (Inr (Reply code (case resp_headers h of None \<Rightarrow> [] | Some hs \<Rightarrow> hs) buf), h))"

definition SendResponse :: "handler \<Rightarrow> http_reply handled" where
  "SendResponse h = send_reply (resp_code h) h"

definition QuickResponse :: "evlib \<Rightarrow> int \<Rightarrow> byte list option \<Rightarrow> nat \<Rightarrow> handler \<Rightarrow> http_reply handled" where
  "QuickResponse lib code body len h =
     (if event_request h = None then (Inl (null_exn ''event_request_''), h)
      else case body of
        None \<Rightarrow> (Inl (null_exn ''body''), h)
      | Some bs \<Rightarrow>
          (case resp_buf h of
             None \<Rightarrow> (Inl (null_exn ''resp_buf_''), h)
           | Some buf \<Rightarrow>
               (if len > length bs then (Inl (Undefined ''read outside body''), h)
                else if \<not> evbuffer_add_ok lib (take len bs) then (Inl (MsException ''Add body to response body failed.''), h)
                else send_reply code (h\<lparr> resp_buf := Some (buf @ take len bs) \<rparr>))))"

text \<open>\<open>SimpleResponse\<close> does not use its argument \<open>code\<close>.\<close>

definition SimpleResponse :: "evlib \<Rightarrow> int \<Rightarrow> HttpHeaders \<Rightarrow> string \<Rightarrow> handler \<Rightarrow> http_reply handled" where
  "SimpleResponse lib code headers body h =
     (if event_request h = None then (Inl (null_exn ''event_request_''), h)
      else if resp_buf h = None then (Inl (null_exn ''resp_buf_''), h)
      else case AddRespHeaders lib headers h of
        (Inl e, h1) \<Rightarrow> (Inl e, h1)
      | (Inr _, h1) \<Rightarrow>
          (case AddRespString lib body h1 of
             (Inl e, h2) \<Rightarrow> (Inl e, h2)
           | (Inr _, h2) \<Rightarrow> send_reply (resp_code h2) h2))"

definition RespError :: "int \<Rightarrow> string \<Rightarrow> handler \<Rightarrow> http_reply handled" where
  "RespError nCode message h =
     (if event_request h = None then (Inl (null_exn ''event_request_''), h)
      else (Inr (ErrorReply nCode (if message = [] then None else Some (c_str message))), h))"

text \<open>
  The body of a response.  \<open>http_ReceiveMessage\<close> tells \<open>memcpy_s\<close> that the destination has \<open>num\<close> bytes, so that a copy
  past the end of the vector is not caught and is undefined; a vector without storage has a null \<open>data()\<close>, which
  \<open>memcpy_s\<close> refuses.
\<close>

definition http_ReceiveMessage :: "byte list \<Rightarrow> handler \<Rightarrow> unit handled" where
  "http_ReceiveMessage buffer h =
     (case body_vec h of
        None \<Rightarrow> (Inl (Undefined ''body_ is null''), h)
      | Some body \<Rightarrow>
          (let num = length buffer; off = unat (recv_offset h); in_range = (0 < num \<and> num \<le> SECUREC_MEM_MAX_LEN) in
           if in_range \<and> body_capacity h = 0 then (Inl (MsException ''The memcpy_s error''), h)
           else if in_range \<and> off + num > length body then (Inl (Undefined ''write outside body_''), h)
           else case memcpy_s_at body off num buffer num of
             (ret, body') \<Rightarrow>
               (if ret \<noteq> 0 then (Inl (MsException ''The memcpy_s error''), h)
                else (Inr (), h\<lparr> body_vec := Some body', recv_offset := recv_offset h + word_of_nat num \<rparr>))))"

definition set_content_len :: "u64 \<Rightarrow> handler \<Rightarrow> handler" where
  "set_content_len len h = h\<lparr> content_len := len \<rparr>"

definition vector_resize :: "nat \<Rightarrow> byte list \<Rightarrow> byte list" where
  "vector_resize n xs = take n xs @ replicate (n - length xs) 0"

text \<open>\<open>resize\<close> throws \<open>std::length_error\<close> above the largest size of a vector.\<close>

definition InitBodySize :: "handler \<Rightarrow> unit handled" where
  "InitBodySize h =
     (case body_vec h of
        None \<Rightarrow> (Inl (Undefined ''body_ is null''), h)
      | Some body \<Rightarrow>
          (let n = unat (content_len h + 1) in
           if n \<ge> 2 ^ 63 then (Inl (MsException ''vector::_M_default_append''), h)
           else (Inr (), h\<lparr> body_vec := Some (vector_resize n body), body_capacity := max (body_capacity h) n \<rparr>)))"

definition set_http_base :: "bool \<Rightarrow> handler \<Rightarrow> unit handled" where
  "set_http_base base h = (if base then (Inr (), h\<lparr> event_base := True \<rparr>) else (Inl (null_exn ''base''), h))"

definition set_request :: "evhttp_request option \<Rightarrow> handler \<Rightarrow> unit handled" where
  "set_request req h = (if req = None then (Inl (null_exn ''req''), h) else (Inr (), h\<lparr> event_request := req \<rparr>))"

definition set_body :: "byte list \<Rightarrow> nat \<Rightarrow> handler \<Rightarrow> handler" where
  "set_body vec capacity h = h\<lparr> body_vec := Some vec, body_capacity := capacity \<rparr>"


section \<open>The client\<close>

text \<open>The values of the enumeration \<open>Status\<close>; the cast of a response code gives any other \<open>int\<close> as well.\<close>

definition Status_BADREQUEST :: int where "Status_BADREQUEST = 400"
definition Status_INTERNAL :: int where "Status_INTERNAL = 500"

text \<open>
  The callbacks the loop makes: the headers are complete, data has arrived, the request failed, the peer closed
  the connection, the request is done.  The last is called with a null request when the request failed.
\<close>

datatype http_event =
    HeaderDone kvq
  | ChunkData "byte list"
  | RequestError
  | ConnectionClose
  | ReadDone "evhttp_request option"

fun scan_headers :: "kvq \<Rightarrow> handler \<Rightarrow> unit handled" where
  "scan_headers [] h = (Inr (), h)"
| "scan_headers ((key, val) # hs) h =
     (if key = ''Content-Length''
      then (case InitBodySize (set_content_len (strtouq val) h) of
              (Inl e, h1) \<Rightarrow> (Inl e, h1)
            | (Inr _, h1) \<Rightarrow> scan_headers hs h1)
      else scan_headers hs h)"

definition ReadHeaderDoneCallback :: "kvq \<Rightarrow> handler \<Rightarrow> unit handled" where
  "ReadHeaderDoneCallback headers h = scan_headers headers h"

definition http_kMessageChunkLength :: nat where "http_kMessageChunkLength = 4096"

function ReadChunkDataCallback :: "byte list \<Rightarrow> handler \<Rightarrow> unit handled" where
  "ReadChunkDataCallback evbuf h =
     (if evbuf = [] then (Inr (), h)
      else case http_ReceiveMessage (take http_kMessageChunkLength evbuf) h of
        (Inl e, h1) \<Rightarrow> (Inl e, h1)
      | (Inr _, h1) \<Rightarrow> ReadChunkDataCallback (drop http_kMessageChunkLength evbuf) h1)"
  by pat_completeness auto
termination
  by (relation "measure (length \<circ> fst)") (auto simp: http_kMessageChunkLength_def)

declare ReadChunkDataCallback.simps [simp del]

text \<open>
  \<open>ReadCallback\<close> reads \<open>request->body_size\<close> for its log line before it tests the pointer.  \<open>exit_ok\<close> is the result
  of \<open>event_base_loopexit\<close>.
\<close>

definition ReadCallback :: "bool \<Rightarrow> evhttp_request option \<Rightarrow> handler \<Rightarrow> unit handled" where
  "ReadCallback exit_ok request h =
     (case request of
        None \<Rightarrow> (Inl (Undefined ''request is null''), h)
      | Some req \<Rightarrow>
          (case set_request (Some req) h of
             (Inl e, h1) \<Rightarrow> (Inl e, h1)
           | (Inr _, h1) \<Rightarrow>
               (case body_vec h1 of
                  None \<Rightarrow> (Inl (Undefined ''body_ is null''), h1)
                | Some body \<Rightarrow>
                    (let h2 = h1\<lparr> body_vec := Some (vector_resize (body_size req) body),
                                  body_capacity := max (body_capacity h1) (body_size req) \<rparr>
                     in if \<not> exit_ok then (Inl (MsException ''event base loop exit failed!''), h2) else (Inr (), h2)))))"

definition RequestErrorCallback :: "handler \<Rightarrow> unit handled" where
  "RequestErrorCallback h = (Inr (), h)"

definition ConnectionCloseCallback :: "bool \<Rightarrow> handler \<Rightarrow> unit handled" where
  "ConnectionCloseCallback exit_ok h =
     (if \<not> exit_ok then (Inl (MsException ''event base loop exit failed!''), h) else (Inr (), h))"

fun http_callback :: "bool \<Rightarrow> http_event \<Rightarrow> handler \<Rightarrow> unit handled" where
  "http_callback exit_ok (HeaderDone hs) h = ReadHeaderDoneCallback hs h"
| "http_callback exit_ok (ChunkData bs) h = ReadChunkDataCallback bs h"
| "http_callback exit_ok RequestError h = RequestErrorCallback h"
| "http_callback exit_ok ConnectionClose h = ConnectionCloseCallback exit_ok h"
| "http_callback exit_ok (ReadDone req) h = ReadCallback exit_ok req h"

text \<open>The callbacks of one run of the loop; the list ends where the loop does.\<close>

fun run_events :: "bool \<Rightarrow> http_event list \<Rightarrow> handler \<Rightarrow> unit handled" where
  "run_events exit_ok [] h = (Inr (), h)"
| "run_events exit_ok (e # es) h =
     (case http_callback exit_ok e h of (Inl x, h1) \<Rightarrow> (Inl x, h1) | (Inr _, h1) \<Rightarrow> run_events exit_ok es h1)"

text \<open>
  What is outside of a request: whether \<open>Init\<close> has set the event base, whether the request, the connection and
  the call of \<open>evhttp_make_request\<close> succeed, the callbacks and the result of the loop, and what
  \<open>evhttp_request_get_response_code\<close> gives for the request after the loop.
\<close>

record outside =
  base_set :: bool
  request_new :: bool
  connected :: bool
  made_request :: bool
  loopexit_ok :: bool
  loop_events :: "http_event list"
  loop_ret :: int
  code_after_loop :: "evhttp_request \<Rightarrow> int"

definition client_Start :: "outside \<Rightarrow> handler \<Rightarrow> bool handled" where
  "client_Start w h =
     (if \<not> base_set w then (Inl (null_exn ''event_base_''), h)
      else case run_events (loopexit_ok w) (loop_events w) h of
        (Inl e, h1) \<Rightarrow> (Inl e, h1)
      | (Inr _, h1) \<Rightarrow>
          if loop_ret w = 0 then (Inr True, h1)
          else if loop_ret w = 1 \<or> loop_ret w = -1 then (Inr False, h1)
          else (Inl (MsException ''Event base dispatch with unexpected error code!''), h1))"

definition CreateRequest :: "outside \<Rightarrow> handler \<Rightarrow> int handled" where
  "CreateRequest w h =
     (case GetRequestPath h of
        Inl e \<Rightarrow> (Inl e, h)
      | Inr _ \<Rightarrow>
          if \<not> made_request w then (Inr Status_INTERNAL, h)
          else case client_Start w h of
            (Inl e, h1) \<Rightarrow> (Inl e, h1)
          | (Inr started, h1) \<Rightarrow>
              if \<not> started then (Inr Status_INTERNAL, h1)
              else case event_request h1 of
                None \<Rightarrow> (Inr Status_INTERNAL, h1)
              | Some req \<Rightarrow> (Inr (code_after_loop w req), h1))"

definition InitRequest :: "evlib \<Rightarrow> bool \<Rightarrow> string \<Rightarrow> handler \<Rightarrow> unit handled" where
  "InitRequest lib base url h =
     (case set_http_base base h of
        (Inl e, h1) \<Rightarrow> (Inl e, h1)
      | (Inr _, h1) \<Rightarrow>
          (case ParseUrl lib url h1 of
             (Inl e, h2) \<Rightarrow> (Inl e, h2)
           | (Inr _, h2) \<Rightarrow> (case GetHostByUri h2 of Inl e \<Rightarrow> (Inl e, h2) | Inr _ \<Rightarrow> (Inr (), h2))))"

text \<open>\<open>AddHeaders\<close>: the \<open>Host\<close> header, then the caller's; the result is the headers of the request.\<close>

fun add_request_headers :: "evlib \<Rightarrow> kvq \<Rightarrow> kvq \<Rightarrow> exn + kvq" where
  "add_request_headers lib [] out = Inr out"
| "add_request_headers lib ((key, val) # hs) out =
     (if \<not> evhttp_add_header_ok lib key val then Inl (MsException ''Add header failed!'')
      else add_request_headers lib hs (out @ [(key, val)]))"

definition AddHeaders :: "evlib \<Rightarrow> kvq \<Rightarrow> handler \<Rightarrow> exn + kvq" where
  "AddHeaders lib headers h =
     (case GetHostByUri h of
        Inl e \<Rightarrow> Inl e
      | Inr host \<Rightarrow> add_request_headers lib ((''Host'', host) # map (\<lambda>(k, v). (c_str k, c_str v)) headers) [])"

text \<open>
  \<open>Get\<close> and \<open>Post\<close>: \<open>capacity\<close> is that of the caller's output vector, which is cleared first; the results are the
  status and the output vector.
\<close>

definition finish_request :: "evlib \<Rightarrow> outside \<Rightarrow> kvq \<Rightarrow> handler \<Rightarrow> (exn + int) \<times> byte list option" where
  "finish_request lib w headers h =
     (case AddHeaders lib headers h of
        Inl e \<Rightarrow> (Inl e, body_vec h)
      | Inr _ \<Rightarrow> (case CreateRequest w h of (r, h1) \<Rightarrow> (r, body_vec h1)))"

definition http_Get :: "evlib \<Rightarrow> outside \<Rightarrow> string \<Rightarrow> nat \<Rightarrow> kvq \<Rightarrow> (exn + int) \<times> byte list option" where
  "http_Get lib w url capacity headers =
     (let h = set_body [] capacity new_http_handler in
      if \<not> request_new w then (Inl (null_exn ''request''), Some [])
      else case InitRequest lib (base_set w) url h of
        (Inl e, h1) \<Rightarrow> (Inl e, body_vec h1)
      | (Inr _, h1) \<Rightarrow> if \<not> connected w then (Inr Status_BADREQUEST, body_vec h1) else finish_request lib w headers h1)"

definition http_Post :: "evlib \<Rightarrow> outside \<Rightarrow> string \<Rightarrow> byte list option \<Rightarrow> nat \<Rightarrow> kvq \<Rightarrow> (exn + int) \<times> byte list option" where
  "http_Post lib w url body capacity headers =
     (case body of
        None \<Rightarrow> (Inl (null_exn ''body''), None)
      | Some bs \<Rightarrow>
          (let h = set_body [] capacity new_http_handler in
           if \<not> request_new w then (Inl (null_exn ''request''), Some [])
           else case InitRequest lib (base_set w) url h of
             (Inl e, h1) \<Rightarrow> (Inl e, body_vec h1)
           | (Inr _, h1) \<Rightarrow>
               if \<not> connected w then (Inr Status_BADREQUEST, body_vec h1)
               else if \<not> evbuffer_add_ok lib bs then (Inr Status_INTERNAL, body_vec h1)
               else finish_request lib w headers h1))"


text \<open>
  The client object.  \<open>Init\<close> creates the event base and the resolver, and frees the resolver again; the dangling
  pointer stays in \<open>dns_base_\<close> and is what \<open>Get\<close> and \<open>Post\<close> pass on.
\<close>

datatype dns_base = NullDns | LiveDns | FreedDns

record http_client =
  hc_event_base :: bool
  hc_dns_base :: dns_base
  hc_is_init :: bool
  hc_connection_timeout :: int

definition new_http_client :: http_client where
  "new_http_client = \<lparr> hc_event_base = False, hc_dns_base = NullDns, hc_is_init = False, hc_connection_timeout = 120 \<rparr>"

definition http_client_Init :: "bool \<Rightarrow> bool \<Rightarrow> http_client \<Rightarrow> (exn + bool) \<times> http_client" where
  "http_client_Init base dns c =
     (let c1 = c\<lparr> hc_event_base := base \<rparr> in
      if \<not> base then (Inl (null_exn ''event_base_''), c1)
      else let c2 = c1\<lparr> hc_dns_base := (if dns then LiveDns else NullDns) \<rparr> in
      if \<not> dns then (Inl (null_exn ''dns_base_''), c2)
      else (Inr True, c2\<lparr> hc_dns_base := FreedDns \<rparr>))"

definition set_connection_timeout :: "int \<Rightarrow> http_client \<Rightarrow> http_client" where
  "set_connection_timeout timeout c = c\<lparr> hc_connection_timeout := timeout \<rparr>"

text \<open>After a successful \<open>Init\<close> there is never a resolver to use.\<close>

lemma Init_leaves_no_resolver:
  "http_client_Init base dns c = (Inr b, c') \<Longrightarrow> hc_dns_base c' = FreedDns \<and> hc_event_base c' \<and> hc_is_init c' = hc_is_init c"
  by (auto simp: http_client_Init_def Let_def split: if_splits)

section \<open>The body of a response\<close>

text \<open>
  The state while a body of \<open>n\<close> bytes arrives: what has been received stands at the start of the vector, which
  has room for all of it and one more byte.
\<close>

definition receiving :: "nat \<Rightarrow> byte list \<Rightarrow> handler \<Rightarrow> bool" where
  "receiving n got h \<longleftrightarrow> length got \<le> n \<and> n < 2 ^ 63 - 1 \<and> recv_offset h = word_of_nat (length got)
     \<and> body_capacity h > 0 \<and> (\<exists>rest. body_vec h = Some (got @ rest) \<and> length (got @ rest) = n + 1)"

text \<open>The fields of a handler the callbacks before the last leave alone.\<close>

definition same_request :: "handler \<Rightarrow> handler \<Rightarrow> bool" where
  "same_request h h' \<longleftrightarrow> event_request h' = event_request h \<and> event_uri h' = event_uri h"

lemma offset_small: "length got \<le> n \<Longrightarrow> n < 2 ^ 63 - 1 \<Longrightarrow> unat (word_of_nat (length got) :: u64) = length got"
  by (simp add: unsigned_of_nat take_bit_nat_eq_self)

lemma http_ReceiveMessage_receiving:
  assumes "receiving n got h" "0 < length bs" "length bs \<le> SECUREC_MEM_MAX_LEN" "length got + length bs \<le> n"
  shows "\<exists>h'. http_ReceiveMessage bs h = (Inr (), h') \<and> receiving n (got @ bs) h' \<and> same_request h h'"
proof -
  obtain rest where r: "body_vec h = Some (got @ rest)" "length (got @ rest) = n + 1"
    using assms(1) by (auto simp: receiving_def)
  have off: "unat (recv_offset h) = length got" using assms(1) offset_small by (auto simp: receiving_def)
  have "memcpy_s_at (got @ rest) (length got) (length bs) bs (length bs) = (0, got @ bs @ drop (length bs) rest)"
    using assms by (simp add: memcpy_s_at_def EOK_def)
  then show ?thesis using assms r off
    by (auto simp: http_ReceiveMessage_def Let_def receiving_def same_request_def)
qed

lemma ReadChunkData_receiving:
  assumes "receiving n got h" "length got + length bs \<le> n"
  shows "\<exists>h'. ReadChunkDataCallback bs h = (Inr (), h') \<and> receiving n (got @ bs) h' \<and> same_request h h'"
  using assms
proof (induction bs arbitrary: got h rule: length_induct)
  case (1 bs)
  show ?case
  proof (cases "bs = []")
    case True
    then show ?thesis using 1 by (subst ReadChunkDataCallback.simps) (simp add: same_request_def)
  next
    case False
    let ?a = "take http_kMessageChunkLength bs" and ?b = "drop http_kMessageChunkLength bs"
    have a: "0 < length ?a" "length ?a \<le> SECUREC_MEM_MAX_LEN" "length got + length ?a \<le> n"
      using 1 False by (auto simp: http_kMessageChunkLength_def SECUREC_MEM_MAX_LEN_def min_def)
    obtain h1 where h1: "http_ReceiveMessage ?a h = (Inr (), h1)" "receiving n (got @ ?a) h1" "same_request h h1"
      using http_ReceiveMessage_receiving [OF 1(2) a] by blast
    have "length ?b < length bs" using False by (simp add: http_kMessageChunkLength_def)
    moreover have "length (got @ ?a) + length ?b \<le> n" using 1 by simp
    ultimately obtain h2 where h2: "ReadChunkDataCallback ?b h1 = (Inr (), h2)" "receiving n ((got @ ?a) @ ?b) h2" "same_request h1 h2"
      using 1(1) h1(2) by blast
    then show ?thesis using False h1
      by (subst ReadChunkDataCallback.simps) (auto simp: same_request_def)
  qed
qed

lemma chunks_receiving:
  assumes "receiving n got h" "length got + length (concat cs) \<le> n"
  shows "\<exists>h'. run_events ok (map ChunkData cs @ es) h = run_events ok es h' \<and> receiving n (got @ concat cs) h' \<and> same_request h h'"
  using assms
proof (induction cs arbitrary: got h)
  case Nil
  then show ?case by (auto simp: same_request_def)
next
  case (Cons c cs)
  obtain h1 where h1: "ReadChunkDataCallback c h = (Inr (), h1)" "receiving n (got @ c) h1" "same_request h h1"
    using ReadChunkData_receiving [of n got h c] Cons.prems by auto
  obtain h2 where "run_events ok (map ChunkData cs @ es) h1 = run_events ok es h2" "receiving n ((got @ c) @ concat cs) h2" "same_request h1 h2"
    using Cons.IH [OF h1(2)] Cons.prems by auto
  then show ?case using h1 by (auto simp: same_request_def)
qed


text \<open>The header callback with one \<open>Content-Length\<close> header prepares the vector.\<close>

lemma scan_headers_none:
  "filter (\<lambda>kv. fst kv = ''Content-Length'') hs = [] \<Longrightarrow> scan_headers hs h = (Inr (), h)"
  by (induction hs h rule: scan_headers.induct) (auto split: if_splits)

lemma unat_succ_small: "n < 2 ^ 63 - 1 \<Longrightarrow> unat ((word_of_nat n :: u64) + 1) = Suc n"
proof -
  assume "n < 2 ^ 63 - 1"
  then have "unat (word_of_nat (Suc n) :: u64) = Suc n" by (simp add: unsigned_of_nat take_bit_nat_eq_self del: of_nat_Suc)
  then show ?thesis by (simp add: add.commute)
qed

lemma scan_headers_length:
  assumes "filter (\<lambda>kv. fst kv = ''Content-Length'') hs = [(''Content-Length'', val)]"
    and "strtouq val = word_of_nat n" "n < 2 ^ 63 - 1"
    and "body_vec h = Some []" "recv_offset h = 0"
  shows "\<exists>h'. scan_headers hs h = (Inr (), h') \<and> receiving n [] h' \<and> same_request h h'"
  using assms
proof (induction hs)
  case (Cons kv hs)
  show ?case
  proof (cases "fst kv = ''Content-Length''")
    case True
    have "\<exists>h'. InitBodySize (set_content_len (word_of_nat n) h) = (Inr (), h') \<and> receiving n [] h' \<and> same_request h h'"
      using Cons.prems unat_succ_small [of n]
      by (auto simp: InitBodySize_def set_content_len_def vector_resize_def receiving_def same_request_def Let_def)
    then show ?thesis using True Cons.prems scan_headers_none by (cases kv) (auto split: prod.splits)
  next
    case False
    then show ?thesis using Cons by (cases kv) auto
  qed
qed simp

lemma add_request_headers_ok:
  "\<forall>k v. evhttp_add_header_ok lib k v \<Longrightarrow> add_request_headers lib hs out = Inr (out @ hs)"
  by (induction lib hs out rule: add_request_headers.induct) auto

definition request_ok :: "evlib \<Rightarrow> outside \<Rightarrow> string \<Rightarrow> bool" where
  "request_ok lib w url \<longleftrightarrow>
     (case evhttp_uri_parse lib (c_str url) of None \<Rightarrow> False | Some uri \<Rightarrow> uri_host uri \<noteq> None)
     \<and> base_set w \<and> request_new w \<and> connected w \<and> made_request w \<and> loopexit_ok w"

lemma http_Get_runs:
  assumes "request_ok lib w url" and "\<forall>k v. evhttp_add_header_ok lib k v"
  obtains h where "body_vec h = Some []" "recv_offset h = 0" "body_capacity h = capacity"
    "http_Get lib w url capacity headers =
       (case run_events True (loop_events w) h of
          (Inl e, h1) \<Rightarrow> (Inl e, body_vec h1)
        | (Inr _, h1) \<Rightarrow>
            (if loop_ret w = 0
             then (case event_request h1 of None \<Rightarrow> Inr Status_INTERNAL | Some req \<Rightarrow> Inr (code_after_loop w req))
             else if loop_ret w = 1 \<or> loop_ret w = -1 then Inr Status_INTERNAL
             else Inl (MsException ''Event base dispatch with unexpected error code!''), body_vec h1))"
proof -
  obtain uri host where uri: "evhttp_uri_parse lib (c_str url) = Some uri" "uri_host uri = Some host"
    using assms(1) by (auto simp: request_ok_def split: option.splits)
  let ?h = "(set_body [] capacity new_http_handler)\<lparr> event_base := True, event_uri := Some uri \<rparr>"
  have init: "InitRequest lib True url (set_body [] capacity new_http_handler) = (Inr (), ?h)"
    using uri by (simp add: InitRequest_def set_http_base_def ParseUrl_def GetHostByUri_def of_uri_def)
  show ?thesis
    using assms uri init
    by (intro that [of ?h])
      (auto simp: set_body_def new_http_handler_def http_Get_def request_ok_def finish_request_def AddHeaders_def GetHostByUri_def of_uri_def
        add_request_headers_ok CreateRequest_def GetRequestPath_def client_Start_def Let_def split: prod.splits sum.splits option.splits)
qed

section \<open>Properties\<close>


definition sample_lib :: evlib where
  "sample_lib = \<lparr> evhttp_uri_parse = (\<lambda>u. Some \<lparr> uri_host = Some ''h'', uri_port = -1, uri_path = None, uri_query = None, uri_fragment = None \<rparr>),
     evhttp_parse_query_str = (\<lambda>_. Some []), evhttp_find_header = map_of, evhttp_add_header_ok = (\<lambda>_ _. True),
     evbuffer_add_ok = (\<lambda>_. True) \<rparr>"

definition sample_request :: "nat \<Rightarrow> evhttp_request" where
  "sample_request n = \<lparr> req_evhttp_uri = None, req_uri = None, req_host = None, input_headers = [], output_headers = [],
     input_buffer = [], output_buffer = [], body_size = n \<rparr>"

definition sample_outside :: "http_event list \<Rightarrow> outside" where
  "sample_outside es = \<lparr> base_set = True, request_new = True, connected = True, made_request = True, loopexit_ok = True,
     loop_events = es, loop_ret = 0, code_after_loop = (\<lambda>_. 200) \<rparr>"

lemma sample_request_ok: "request_ok sample_lib (sample_outside es) url"
  by (simp add: request_ok_def sample_lib_def sample_outside_def)

lemma strtouq_3: "strtouq ''3'' = 3"
  by (simp add: strtouq_def is_space_def is_digit_def dec_value_def)


text \<open>
  Without a \<open>Content-Length\<close> header, as in a chunked response or with a name in other case, the output
  vector gets no room: the first piece of data is written outside the vector when it has storage from an earlier
  use, and an exception leaves the callback when it has none.
\<close>
theorem unsized_response_overflows:
  assumes "request_ok lib w url" and "\<forall>k v. evhttp_add_header_ok lib k v"
    and "loop_events w = HeaderDone hs # ChunkData bs # es" and "bs \<noteq> []"
    and "filter (\<lambda>kv. fst kv = ''Content-Length'') hs = []"
  shows "fst (http_Get lib w url capacity headers) =
    (if capacity = 0 then Inl (MsException ''The memcpy_s error'') else Inl (Undefined ''write outside body_''))"
proof -
  obtain h where h: "body_vec h = Some []" "recv_offset h = 0" "body_capacity h = capacity"
    and run: "http_Get lib w url capacity headers =
       (case run_events True (loop_events w) h of
          (Inl e, h1) \<Rightarrow> (Inl e, body_vec h1)
        | (Inr _, h1) \<Rightarrow>
            (if loop_ret w = 0
             then (case event_request h1 of None \<Rightarrow> Inr Status_INTERNAL | Some req \<Rightarrow> Inr (code_after_loop w req))
             else if loop_ret w = 1 \<or> loop_ret w = -1 then Inr Status_INTERNAL
             else Inl (MsException ''Event base dispatch with unexpected error code!''), body_vec h1))"
    using http_Get_runs [OF assms(1,2), of capacity headers] by blast
  have a: "0 < length (take http_kMessageChunkLength bs)" "length (take http_kMessageChunkLength bs) \<le> SECUREC_MEM_MAX_LEN"
    using assms(4) by (auto simp: http_kMessageChunkLength_def SECUREC_MEM_MAX_LEN_def min_def)
  have "fst (ReadChunkDataCallback bs h) =
      (if capacity = 0 then Inl (MsException ''The memcpy_s error'') else Inl (Undefined ''write outside body_''))"
    using a assms(4) h by (subst ReadChunkDataCallback.simps) (simp add: http_ReceiveMessage_def Let_def)
  then show ?thesis using run assms(3) scan_headers_none [OF assms(5), of h]
    by (auto simp: ReadHeaderDoneCallback_def split: prod.splits sum.splits if_splits)
qed

theorem unsized_response_overflows_witness:
  "fst (http_Get sample_lib (sample_outside (HeaderDone [(''content-length'', ''3'')] # ChunkData [1, 2, 3] # [])) ''http://h/'' 8 []) =
     Inl (Undefined ''write outside body_'')"
  using unsized_response_overflows [of sample_lib "sample_outside (HeaderDone [(''content-length'', ''3'')] # ChunkData [1, 2, 3] # [])"
     "''http://h/''" "[(''content-length'', ''3'')]" "[1, 2, 3]" "[]" 8 "[]"] sample_request_ok
  by (simp add: sample_outside_def) (simp add: sample_lib_def)

lemma add_pairs_ok:
  "\<forall>k v. evhttp_add_header_ok lib k v \<Longrightarrow> resp_headers h = Some hs \<Longrightarrow>
   add_pairs lib ps h = (Inr (), h\<lparr> resp_headers := Some (hs @ map (\<lambda>(k, v). (c_str k, c_str v)) ps) \<rparr>)"
  by (induction lib ps h arbitrary: hs rule: add_pairs.induct) (auto simp: AddRespHeadParam_def)

text \<open>
  \<open>SimpleResponse\<close> sends the headers it is given after those already set, in their order, and the body up to
  its first zero character, but with the code that \<open>SetRespCode\<close> stored and not with its own argument.
\<close>
theorem simple_response_sent:
  assumes "event_request h \<noteq> None" and "resp_headers h = Some hs" and "resp_buf h = Some buf"
    and "\<forall>k v. evhttp_add_header_ok lib k v" and "\<forall>bs. evbuffer_add_ok lib bs"
  shows "fst (SimpleResponse lib code headers str h) =
    Inr (Reply (resp_code h)
      (hs @ concat (map (\<lambda>(key, vals). map (\<lambda>v. (c_str key, c_str v)) vals) headers))
      (buf @ string_bytes (c_str str)))"
  using assms
  by (auto simp: SimpleResponse_def AddRespHeaders_def add_pairs_ok AddRespString_def send_reply_def map_concat split_def comp_def)

theorem simple_response_sent_witness:
  "fst (SimpleResponse sample_lib 404 [(''k'', [''a'', ''b''])] ''xy''
     (new_http_handler\<lparr> event_request := Some (sample_request 0), resp_headers := Some [], resp_buf := Some [] \<rparr>)) =
   Inr (Reply 200 [(''k'', ''a''), (''k'', ''b'')] [0x78, 0x79])"
  using simple_response_sent [of "new_http_handler\<lparr> event_request := Some (sample_request 0), resp_headers := Some [], resp_buf := Some [] \<rparr>"
     "[]" "[]" sample_lib 404 "[(''k'', [''a'', ''b''])]" "''xy''"]
  by (simp add: new_http_handler_def sample_lib_def c_str_def string_bytes_def)

end
