(* ===== verification/Http_Server.thy ===== *)
theory Http_Server
  imports Http_Handler Comm_Util
begin

text \<open>
  \<open>even-http/ps/core/http_server.cc\<close> and \<open>worker_queue.cc\<close>: the HTTP server, its worker queues and the routes.
  The results of the system calls, of OpenSSL and of libevent are arguments.
\<close>

section \<open>The worker queue\<close>

text \<open>
  \<open>evbase\<close> tells whether \<open>evbase_\<close> is set, \<open>accepting\<close> whether the listening socket was given to libevent, and
  \<open>wq_routes\<close> are the callbacks registered with it.
\<close>

record 'f worker_queue =
  evbase :: bool
  accepting :: bool
  wq_routes :: "(string \<times> 'f) list"
  loop_broken :: bool

definition new_worker_queue :: "'f worker_queue" where
  "new_worker_queue = \<lparr> evbase = False, accepting = False, wq_routes = [], loop_broken = False \<rparr>"

text \<open>The results of the calls of \<open>Initialize\<close>, in their order; \<open>set_cb\<close> is \<open>evhttp_set_cb\<close>.\<close>

record init_calls =
  base_new :: bool
  evhttp_new :: bool
  ecdh_new :: bool
  use_certificate :: bool
  use_private_key :: bool
  check_private_key :: bool
  accept_socket :: int
  set_cb :: "string \<Rightarrow> int"

fun register_routes :: "(string \<Rightarrow> int) \<Rightarrow> (string \<times> 'f) list \<Rightarrow> 'f worker_queue \<Rightarrow> bool \<times> 'f worker_queue" where
  "register_routes cb [] q = (True, q)"
| "register_routes cb ((url, f) # hs) q =
     (if cb url = 0 then register_routes cb hs (q\<lparr> wq_routes := wq_routes q @ [(url, f)] \<rparr>)
      else if cb url = -1 then register_routes cb hs q
      else (False, q))"

definition wq_Initialize :: "init_calls \<Rightarrow> (string \<times> 'f) list \<Rightarrow> 'f worker_queue \<Rightarrow> (exn + bool) \<times> 'f worker_queue" where
  "wq_Initialize c handlers q =
     (let q1 = q\<lparr> evbase := base_new c \<rparr> in
      if \<not> base_new c then (Inl (null_exn ''evbase_''), q1)
      else if \<not> evhttp_new c then (Inl (null_exn ''http''), q1)
      else if \<not> ecdh_new c then (Inl (null_exn ''ecdh''), q1)
      else if \<not> use_certificate c then (Inr False, q1)
      else if \<not> use_private_key c then (Inr False, q1)
      else if \<not> check_private_key c then (Inr False, q1)
      else if accept_socket c < 0 then (Inr False, q1)
      else case register_routes (set_cb c) handlers (q1\<lparr> accepting := True \<rparr>) of (ok, q2) \<Rightarrow> (Inr ok, q2))"

text \<open>\<open>Run\<close> after its loop has ended.\<close>

definition wq_Run :: "'f worker_queue \<Rightarrow> exn + 'f worker_queue" where
  "wq_Run q = (if \<not> evbase q then Inl (null_exn ''evbase_'') else Inr (q\<lparr> evbase := False, accepting := False \<rparr>))"

text \<open>\<open>event_base_loopbreak\<close> fails for a null base.\<close>

definition wq_Stop :: "'f worker_queue \<Rightarrow> exn + 'f worker_queue" where
  "wq_Stop q = (if \<not> evbase q then Inl (MsException ''event base loop break failed!'') else Inr (q\<lparr> loop_broken := True \<rparr>))"

text \<open>The callback of a route: a fresh handler on the request, then the registered function.\<close>

definition TransFunc :: "evlib \<Rightarrow> evhttp_request option \<Rightarrow> 'f option \<Rightarrow> exn + ('f \<times> handler)" where
  "TransFunc lib req arg =
     (case req of None \<Rightarrow> Inl (null_exn ''req'') | Some r \<Rightarrow>
        (case arg of None \<Rightarrow> Inl (null_exn ''arg'') | Some f \<Rightarrow>
           (case set_request (Some r) new_http_handler of
              (Inl e, _) \<Rightarrow> Inl e
            | (Inr _, h) \<Rightarrow> (case InitHttpMessage lib h of (Inl e, _) \<Rightarrow> Inl e | (Inr _, h1) \<Rightarrow> Inr (f, h1)))))"

section \<open>The server\<close>

datatype thread_ptr = Running | ResetPtr

record 'f http_server =
  server_address :: string
  server_port :: u16
  is_stop :: bool
  request_timeout :: int
  thread_num :: nat
  worker_threads :: "thread_ptr list"
  worker_queues :: "'f worker_queue list"
  backlog :: int
  request_handlers :: "(string \<times> 'f) list"
  server_fd :: int

definition new_http_server :: "string \<Rightarrow> u16 \<Rightarrow> nat \<Rightarrow> 'f http_server" where
  "new_http_server address p n = \<lparr> server_address = address, server_port = p, is_stop = True, request_timeout = 300,
     thread_num = n, worker_threads = [], worker_queues = [], backlog = 1024, request_handlers = [], server_fd = -1 \<rparr>"

record server_calls =
  inet_addr_fn :: "string \<Rightarrow> u32"
  use_pthreads :: int
  InitSSL :: bool
  socket_ret :: int
  setsockopt_ret :: int
  memset_s_ret :: int
  bind_ret :: int
  listen_ret :: int
  getfl_ret :: int
  setfl_ret :: int

definition InitServer :: "server_calls \<Rightarrow> 'f http_server \<Rightarrow> (exn + bool) \<times> 'f http_server" where
  "InitServer c s =
     (if \<not> CheckIp (inet_addr_fn c) (server_address s) then (Inr False, s)
      else let s1 = s\<lparr> is_stop := False \<rparr> in
      if use_pthreads c \<noteq> 0 then (Inr False, s1)
      else if \<not> InitSSL c then (Inr False, s1)
      else let s2 = s1\<lparr> server_fd := socket_ret c \<rparr> in
      if socket_ret c < 0 then (Inr False, s2)
      else if setsockopt_ret c < 0 then (Inr False, s2)
      else if memset_s_ret c \<noteq> EOK then (Inl (MsException ''Memset failed.''), s2)
      else if bind_ret c < 0 then (Inr False, s2)
      else if listen_ret c < 0 then (Inr False, s2)
      else if getfl_ret c < 0 \<or> setfl_ret c < 0 then (Inr False, s2)
      else (Inr True, s2))"

definition SetTimeOut :: "int \<Rightarrow> 'f http_server \<Rightarrow> (exn + unit) \<times> 'f http_server" where
  "SetTimeOut seconds s =
     (if seconds < 0 then (Inl (MsException ''The timeout seconds is less than 0!''), s)
      else (Inr (), s\<lparr> request_timeout := seconds \<rparr>))"

fun put_route :: "string \<Rightarrow> 'f \<Rightarrow> (string \<times> 'f) list \<Rightarrow> (string \<times> 'f) list" where
  "put_route url f [] = [(url, f)]"
| "put_route url f ((u, g) # rs) = (if u = url then (url, f) # rs else (u, g) # put_route url f rs)"

definition RegisterRoute :: "string \<Rightarrow> 'f option \<Rightarrow> 'f http_server \<Rightarrow> bool \<times> 'f http_server" where
  "RegisterRoute url func s =
     (case func of None \<Rightarrow> (False, s) | Some f \<Rightarrow> (True, s\<lparr> request_handlers := put_route url f (request_handlers s) \<rparr>))"

text \<open>\<open>Start\<close> does not look at the result of \<open>Initialize\<close>; \<open>c i\<close> are the calls of the \<open>i\<close>-th worker.\<close>

fun start_workers :: "(nat \<Rightarrow> init_calls) \<Rightarrow> nat \<Rightarrow> nat \<Rightarrow> 'f http_server \<Rightarrow> (exn + bool) \<times> 'f http_server" where
  "start_workers c i 0 s = (Inr True, s)"
| "start_workers c i (Suc n) s =
     (case wq_Initialize (c i) (request_handlers s) new_worker_queue of
        (Inl e, _) \<Rightarrow> (Inl e, s)
      | (Inr _, q) \<Rightarrow>
          start_workers c (Suc i) n (s\<lparr> worker_queues := worker_queues s @ [q], worker_threads := worker_threads s @ [Running] \<rparr>))"

definition http_Start :: "(nat \<Rightarrow> init_calls) \<Rightarrow> 'f http_server \<Rightarrow> (exn + bool) \<times> 'f http_server" where
  "http_Start c s = start_workers c 0 (thread_num s) s"

text \<open>\<open>Wait\<close>: each worker thread has left its loop when it is joined; a null or missing pointer is undefined.\<close>

fun join_workers :: "nat \<Rightarrow> nat \<Rightarrow> 'f http_server \<Rightarrow> (exn + bool) \<times> 'f http_server" where
  "join_workers i 0 s = (Inr True, s)"
| "join_workers i (Suc n) s =
     (if i < length (worker_threads s) \<and> worker_threads s ! i = Running
      then join_workers (Suc i) n (s\<lparr> worker_threads := (worker_threads s)[i := ResetPtr],
             worker_queues := (worker_queues s)[i := (case wq_Run (worker_queues s ! i) of Inl _ \<Rightarrow> worker_queues s ! i | Inr q \<Rightarrow> q)] \<rparr>)
      else (Inl (Undefined ''worker_threads_[i]''), s))"

definition http_Wait :: "'f http_server \<Rightarrow> (exn + bool) \<times> 'f http_server" where
  "http_Wait s = join_workers 0 (thread_num s) s"

fun stop_workers :: "nat \<Rightarrow> nat \<Rightarrow> 'f http_server \<Rightarrow> (exn + unit) \<times> 'f http_server" where
  "stop_workers i 0 s = (Inr (), s\<lparr> is_stop := True \<rparr>)"
| "stop_workers i (Suc n) s =
     (if i < length (worker_queues s)
      then (case wq_Stop (worker_queues s ! i) of
              Inl e \<Rightarrow> (Inl e, s)
            | Inr q \<Rightarrow> stop_workers (Suc i) n (s\<lparr> worker_queues := (worker_queues s)[i := q] \<rparr>))
      else (Inl (Undefined ''worker_queues_[i]''), s))"

definition http_Stop :: "'f http_server \<Rightarrow> (exn + unit) \<times> 'f http_server" where
  "http_Stop s = (if is_stop s then (Inr (), s) else stop_workers 0 (thread_num s) s)"

section \<open>Lemmas\<close>

lemma map_of_put_route: "map_of (put_route url f rs) = (map_of rs)(url \<mapsto> f)"
  by (induction rs) auto

fun register_all :: "(string \<times> 'f) list \<Rightarrow> 'f http_server \<Rightarrow> 'f http_server" where
  "register_all [] s = s"
| "register_all ((url, f) # rs) s = register_all rs (snd (RegisterRoute url (Some f) s))"

lemma register_all_handlers:
  "map_of (request_handlers (register_all rs s)) = map_of (rev rs @ request_handlers s)
   \<and> thread_num (register_all rs s) = thread_num s \<and> worker_queues (register_all rs s) = worker_queues s
   \<and> worker_threads (register_all rs s) = worker_threads s \<and> is_stop (register_all rs s) = is_stop s"
  by (induction rs arbitrary: s) (auto simp: RegisterRoute_def map_of_put_route map_add_def fun_eq_iff split: option.splits)

lemma register_routes_all:
  "\<forall>url. cb url = 0 \<Longrightarrow> register_routes cb hs q = (True, q\<lparr> wq_routes := wq_routes q @ hs \<rparr>)"
  by (induction cb hs q rule: register_routes.induct) auto

lemma register_routes_evbase: "evbase (snd (register_routes cb hs q)) = evbase q"
  by (induction cb hs q rule: register_routes.induct) auto

definition calls_ok :: "init_calls \<Rightarrow> bool" where
  "calls_ok c \<longleftrightarrow> base_new c \<and> evhttp_new c \<and> ecdh_new c \<and> use_certificate c \<and> use_private_key c \<and> check_private_key c
     \<and> accept_socket c \<ge> 0 \<and> (\<forall>url. set_cb c url = 0)"

lemma Initialize_ok:
  "calls_ok c \<Longrightarrow> wq_Initialize c hs new_worker_queue = (Inr True, new_worker_queue\<lparr> evbase := True, accepting := True, wq_routes := hs \<rparr>)"
  by (simp add: wq_Initialize_def calls_ok_def Let_def register_routes_all new_worker_queue_def)

lemma start_workers_ok:
  "\<forall>i. calls_ok (c i) \<Longrightarrow>
   start_workers c i n s = (Inr True, s\<lparr>
     worker_queues := worker_queues s @ replicate n (new_worker_queue\<lparr> evbase := True, accepting := True, wq_routes := request_handlers s \<rparr>),
     worker_threads := worker_threads s @ replicate n Running \<rparr>)"
  by (induction n arbitrary: i s) (simp_all add: Initialize_ok)


lemma stop_workers_ok:
  "i + n = length (worker_queues s) \<Longrightarrow> \<forall>q \<in> set (worker_queues s). evbase q \<Longrightarrow>
   stop_workers i n s = (Inr (), s\<lparr> is_stop := True,
     worker_queues := take i (worker_queues s) @ map (\<lambda>q. q\<lparr> loop_broken := True \<rparr>) (drop i (worker_queues s)) \<rparr>)"
proof (induction n arbitrary: i s)
  case (Suc n)
  let ?q = "worker_queues s ! i"
  have i: "i < length (worker_queues s)" using Suc.prems by simp
  then have "evbase ?q" using Suc.prems by simp
  then have "wq_Stop ?q = Inr (?q\<lparr> loop_broken := True \<rparr>)" by (simp add: wq_Stop_def)
  moreover have "\<forall>q \<in> set ((worker_queues s)[i := ?q\<lparr> loop_broken := True \<rparr>]). evbase q"
    using Suc.prems(2) \<open>evbase ?q\<close> set_update_subset_insert by fastforce
  ultimately show ?case
    using i Suc.IH [of "Suc i" "s\<lparr> worker_queues := (worker_queues s)[i := ?q\<lparr> loop_broken := True \<rparr>] \<rparr>"] Suc.prems(1)
    by (simp add: take_Suc_conv_app_nth Cons_nth_drop_Suc [symmetric])
qed simp

lemma join_workers_ok:
  "i + n = length (worker_threads s) \<Longrightarrow> \<forall>k < length (worker_threads s). i \<le> k \<longrightarrow> worker_threads s ! k = Running \<Longrightarrow>
   fst (join_workers i n s) = Inr True \<and> is_stop (snd (join_workers i n s)) = is_stop s"
  by (induction n arbitrary: i s) (auto simp: nth_list_update)

lemma stop_no_queues:
  "\<not> is_stop s \<Longrightarrow> 0 < thread_num s \<Longrightarrow> worker_queues s = [] \<Longrightarrow> fst (http_Stop s) = Inl (Undefined ''worker_queues_[i]'')"
  by (cases "thread_num s") (simp_all add: http_Stop_def)

section \<open>Properties\<close>


definition sample_init :: "nat \<Rightarrow> init_calls" where
  "sample_init i = \<lparr> base_new = True, evhttp_new = True, ecdh_new = True, use_certificate = True, use_private_key = True,
     check_private_key = True, accept_socket = 0, set_cb = (\<lambda>_. 0) \<rparr>"

lemma sample_ip: "CheckIp (\<lambda>_. 16777343) ''127.0.0.1''"
  by code_simp

definition good_calls :: server_calls where
  "good_calls = \<lparr> inet_addr_fn = (\<lambda>_. 16777343), use_pthreads = 0, InitSSL = True, socket_ret = 3, setsockopt_ret = 0, memset_s_ret = 0,
     bind_ret = 0, listen_ret = 0, getfl_ret = 2, setfl_ret = 0 \<rparr>"


text \<open>
  Once \<open>InitServer\<close> has passed the address check, an object without started workers cannot be stopped or
  destroyed: whatever \<open>InitServer\<close> returned, \<open>Stop\<close> reads a worker queue that does not exist.
\<close>
theorem stop_without_start_undefined:
  assumes "CheckIp (inet_addr_fn sc) address" and "0 < n"
  shows "fst (http_Stop (snd (InitServer sc (new_http_server address p n :: 'f http_server)))) = Inl (Undefined ''worker_queues_[i]'')"
proof -
  let ?s = "snd (InitServer sc (new_http_server address p n :: 'f http_server))"
  have "\<not> is_stop ?s \<and> thread_num ?s = n \<and> worker_queues ?s = []"
    using assms(1) by (simp add: InitServer_def new_http_server_def Let_def)
  then show ?thesis using assms(2) by (intro stop_no_queues) auto
qed

text \<open>The address is in use: \<open>InitServer\<close> returns false and the destructor is undefined.\<close>

theorem stop_without_start_undefined_witness:
  "fst (InitServer (good_calls\<lparr> bind_ret := -1 \<rparr>) (new_http_server ''127.0.0.1'' 80 10)) = Inr False
   \<and> fst (http_Stop (snd (InitServer (good_calls\<lparr> bind_ret := -1 \<rparr>) (new_http_server ''127.0.0.1'' 80 10)))) = Inl (Undefined ''worker_queues_[i]'')"
  using stop_without_start_undefined [of "good_calls\<lparr> bind_ret := -1 \<rparr>" "''127.0.0.1''" 10 80] sample_ip
  by (simp add: good_calls_def InitServer_def new_http_server_def EOK_def)

end
