(* ===== verification/Relay.thy ===== *)
theory Relay
  imports Comm_Messages
begin

text \<open>
  \<open>libevent-example/message.cpp\<close>: the server that forwards packets between its clients, and
  \<open>even-http/ps/core/fsm.cpp\<close>: the state machine with its example states.  A bufferevent is named by its address; the state
  records what has been written to each of them and which have been freed.
\<close>

section \<open>Packets\<close>

record msg_header =
  targetID :: u32
  sourceID :: u32
  hdr_length :: u32

definition HEADER_LENGTH :: nat where "HEADER_LENGTH = 12"
definition MAX_PACKET_SIZE :: nat where "MAX_PACKET_SIZE = 256"
definition BUFFER_SIZE :: nat where "BUFFER_SIZE = 16 * 1024"

text \<open>The image of the header in memory and the header at the start of a buffer.\<close>

definition relay_header_bytes :: "msg_header \<Rightarrow> byte list" where
  "relay_header_bytes hdr = le_bytes 4 (unat (targetID hdr)) @ le_bytes 4 (unat (sourceID hdr)) @ le_bytes 4 (unat (hdr_length hdr))"

definition header_at :: "byte list \<Rightarrow> msg_header" where
  "header_at bs = \<lparr> targetID = word_of_nat (le_nat (take 4 bs)), sourceID = word_of_nat (le_nat (take 4 (drop 4 bs))),
     hdr_length = word_of_nat (le_nat (take 4 (drop 8 bs))) \<rparr>"

section \<open>The server\<close>

record relay =
  ClientMap :: "(u32 \<times> nat) list"
  conectNumber :: int
  dataSize :: int
  lastTime :: int
  receiveNumber :: int
  sendNumber :: int
  freed :: "nat list"
  written :: "(nat \<times> byte list) list"

definition new_relay :: relay where
  "new_relay = \<lparr> ClientMap = [], conectNumber = 0, dataSize = 0, lastTime = 0, receiveNumber = 0, sendNumber = 0,
     freed = [], written = [] \<rparr>"

text \<open>\<open>ClientMap\<close> is a \<open>std::map\<close>: its entries are in the order of their keys.\<close>

fun map_put :: "u32 \<Rightarrow> nat \<Rightarrow> (u32 \<times> nat) list \<Rightarrow> (u32 \<times> nat) list" where
  "map_put k v [] = [(k, v)]"
| "map_put k v ((k', v') # m) =
     (if k < k' then (k, v) # (k', v') # m else if k = k' then (k, v) # m else (k', v') # map_put k v m)"

fun get_client_id :: "nat \<Rightarrow> (u32 \<times> nat) list \<Rightarrow> u32" where
  "get_client_id bev [] = 0"
| "get_client_id bev ((k, b) # m) = (if b = bev then k else get_client_id bev m)"

text \<open>\<open>bufferevent_write\<close>: undefined on a freed bufferevent.\<close>

definition bufferevent_write :: "nat \<Rightarrow> byte list \<Rightarrow> relay \<Rightarrow> exn + relay" where
  "bufferevent_write bev bs r =
     (if bev \<in> set (freed r) then Inl (Undefined ''freed bufferevent'') else Inr (r\<lparr> written := written r @ [(bev, bs)] \<rparr>))"

definition write_buffer :: "byte list \<Rightarrow> nat \<Rightarrow> msg_header \<Rightarrow> relay \<Rightarrow> exn + relay" where
  "write_buffer msg bev hdr r =
     (if HEADER_LENGTH + length msg > BUFFER_SIZE then Inl (Undefined ''write outside send_msg'')
      else bufferevent_write bev (relay_header_bytes hdr @ msg) r)"

definition text_bytes :: "string \<Rightarrow> byte list" where
  "text_bytes s = map of_char s"

text \<open>
  \<open>listener_cb\<close>: \<open>bev\<close> is what \<open>bufferevent_socket_new\<close> returns, \<open>None\<close> a null pointer.  A new bufferevent may have
  the address of a freed one.
\<close>

definition listener_cb :: "nat option \<Rightarrow> relay \<Rightarrow> exn + relay" where
  "listener_cb bev r =
     (case bev of
        None \<Rightarrow> Inr r
      | Some b \<Rightarrow>
          (let n = conectNumber r + 1;
               r1 = r\<lparr> conectNumber := n, ClientMap := map_put (word_of_int n) b (ClientMap r), freed := removeAll b (freed r) \<rparr>;
               msg = text_bytes ''connedted''
           in write_buffer msg b \<lparr> targetID = word_of_int n, sourceID = 0, hdr_length = word_of_nat (length msg) \<rparr> r1))"

text \<open>
  The loop of \<open>conn_readcb\<close>.  \<open>len + HEADER_LENGTH\<close> is computed in 32 bits; \<open>bufferevent_read\<close> reads what is there,
  at most \<open>len\<close> bytes, into \<open>msg\<close>.
\<close>

function read_loop :: "u32 \<Rightarrow> byte list \<Rightarrow> relay \<Rightarrow> exn + (byte list \<times> relay)" where
  "read_loop sid input r =
     (let sz = length input in
      if sz \<ge> MAX_PACKET_SIZE then
        (let hdr = (header_at input)\<lparr> sourceID := sid \<rparr>;
             input1 = drop HEADER_LENGTH input;
             len = hdr_length hdr;
             total = unat (len + word_of_nat HEADER_LENGTH)
         in if sz < total then Inr (input1, r)
            else let payload = take (unat len) input1 in
            if HEADER_LENGTH + length payload > MAX_PACKET_SIZE then Inl (Undefined ''write outside msg'')
            else let input2 = drop (unat len) input1;
                     msg = relay_header_bytes hdr @ payload;
                     r1 = r\<lparr> receiveNumber := receiveNumber r + 1, dataSize := int32 (dataSize r + int total) \<rparr>
            in case map_of (ClientMap r1) (targetID hdr) of
                 None \<Rightarrow> read_loop sid input2 r1
               | Some b \<Rightarrow>
                   (case bufferevent_write b (take total msg) (r1\<lparr> sendNumber := sendNumber r1 + 1 \<rparr>) of
                      Inl e \<Rightarrow> Inl e
                    | Inr r2 \<Rightarrow> read_loop sid input2 r2))
      else Inr (input, r))"
  by pat_completeness auto
termination
  by (relation "measure (\<lambda>(sid, input, r). length input)") (auto simp: MAX_PACKET_SIZE_def HEADER_LENGTH_def)

declare read_loop.simps [simp del]

text \<open>The statistics at the end of \<open>conn_readcb\<close>; \<open>TIME_INTERVAL\<close> is a macro the sources do not define.\<close>

definition update_speed :: "int \<Rightarrow> int \<Rightarrow> relay \<Rightarrow> relay" where
  "update_speed interval nowtime r =
     (if lastTime r = 0 then r\<lparr> lastTime := int32 nowtime \<rparr>
      else if nowtime - lastTime r > interval
        then r\<lparr> dataSize := 0, lastTime := int32 nowtime, receiveNumber := 0, sendNumber := 0 \<rparr>
      else r)"

definition conn_readcb :: "int \<Rightarrow> int \<Rightarrow> nat \<Rightarrow> byte list \<Rightarrow> relay \<Rightarrow> exn + (byte list \<times> relay)" where
  "conn_readcb interval nowtime bev input r =
     (case read_loop (get_client_id bev (ClientMap r)) input r of
        Inl e \<Rightarrow> Inl e
      | Inr (rest, r1) \<Rightarrow> Inr (rest, update_speed interval nowtime r1))"

definition conn_eventcb :: "nat \<Rightarrow> relay \<Rightarrow> relay" where
  "conn_eventcb bev r = r\<lparr> freed := bev # freed r \<rparr>"

text \<open>\<open>inttostr\<close>; the negation of the least \<open>int\<close> overflows.\<close>

function dec_digits :: "int \<Rightarrow> string \<Rightarrow> string" where
  "dec_digits num result =
     (if num > 0 then dec_digits (num div 10) (char_of (nat (num mod 10) + 48) # result) else result)"
  by pat_completeness auto
termination by (relation "measure (nat \<circ> fst)") auto

declare dec_digits.simps [simp del]

definition inttostr :: "int \<Rightarrow> exn + string" where
  "inttostr num =
     (if num = - (2 ^ 31) then Inl (Undefined ''negation overflows'')
      else let neg = (num < 0); n = (if neg then - num else num);
               result = (if n = 0 then ''0'' else dec_digits n [])
           in Inr (if neg then CHR ''-'' # result else result))"

definition conn_writecb :: "nat \<Rightarrow> relay \<Rightarrow> exn + relay" where
  "conn_writecb bev r =
     (let toID = get_client_id bev (ClientMap r) in
      case inttostr (sint toID) of
        Inl e \<Rightarrow> Inl e
      | Inr s \<Rightarrow>
          (let msg = text_bytes (''hello client '' @ s)
           in write_buffer msg bev \<lparr> targetID = toID, sourceID = 0, hdr_length = word_of_nat (length msg) \<rparr> r))"

section \<open>The state machine\<close>

datatype eState_obj = StateIdle int | StateAttack | StateGoHome

text \<open>The registered states with their objects (\<open>None\<close> is a null pointer), the current state, and what was printed.\<close>

record fsm =
  all_states :: "(int \<times> eState_obj option) list"
  curState :: int
  out :: "string list"

definition new_fsm :: fsm where
  "new_fsm = \<lparr> all_states = [], curState = -1, out = [] \<rparr>"

definition fsm_Register :: "int \<Rightarrow> eState_obj \<Rightarrow> fsm \<Rightarrow> fsm" where
  "fsm_Register e st m = m\<lparr> all_states := map_set e (Some st) (all_states m) \<rparr>"

definition SetInitState :: "int \<Rightarrow> fsm \<Rightarrow> fsm" where
  "SetInitState s m = m\<lparr> curState := s \<rparr>"

definition fsm_say :: "string \<Rightarrow> fsm \<Rightarrow> fsm" where
  "fsm_say line m = m\<lparr> out := out m @ [line] \<rparr>"

text \<open>\<open>all_states[e]->\<close>: a missing entry is created as a null pointer, whose use is undefined.\<close>

definition fsm_state :: "int \<Rightarrow> fsm \<Rightarrow> exn + eState_obj" where
  "fsm_state e m = (case map_of (all_states m) e of Some (Some st) \<Rightarrow> Inr st | _ \<Rightarrow> Inl (Undefined ''null state''))"

definition OnStateExit :: "eState_obj \<Rightarrow> fsm \<Rightarrow> fsm" where
  "OnStateExit st m =
     fsm_say (case st of StateIdle _ \<Rightarrow> ''==== Idle Exit'' | StateAttack \<Rightarrow> ''==== Attack Exit'' | StateGoHome \<Rightarrow> ''==== GoHome Exit'') m"

definition OnStateEnter :: "int \<Rightarrow> eState_obj \<Rightarrow> fsm \<Rightarrow> fsm" where
  "OnStateEnter e st m =
     (case st of
        StateIdle _ \<Rightarrow> fsm_say ''---- Idle Enter'' (fsm_Register e (StateIdle 0) m)
      | StateAttack \<Rightarrow> fsm_say ''---- Attack Enter'' m
      | StateGoHome \<Rightarrow> fsm_say ''---- GoHome Enter'' m)"

definition fsm_Trans :: "int \<Rightarrow> fsm \<Rightarrow> exn + fsm" where
  "fsm_Trans newState m =
     (case fsm_state (curState m) m of
        Inl e \<Rightarrow> Inl e
      | Inr cur \<Rightarrow>
          (let m1 = OnStateExit cur m in
           case fsm_state newState m1 of
             Inl e \<Rightarrow> Inl e
           | Inr st \<Rightarrow> Inr ((OnStateEnter newState st m1)\<lparr> curState := newState \<rparr>)))"

definition fsm_Tick :: "fsm \<Rightarrow> exn + fsm" where
  "fsm_Tick m =
     (case fsm_state (curState m) m of
        Inl e \<Rightarrow> Inl e
      | Inr st \<Rightarrow>
          (case st of
             StateIdle c \<Rightarrow>
               (let m1 = fsm_Register (curState m) (StateIdle (c + 1)) (fsm_say ''Idle Tick'' m)
                in if c + 1 = 5 then fsm_Trans 2 m1 else Inr m1)
           | StateAttack \<Rightarrow> Inr (fsm_say ''Attack Tick'' m)
           | StateGoHome \<Rightarrow> Inr (fsm_say ''GoHome Tick'' m)))"

definition fsm_main_setup :: fsm where
  "fsm_main_setup = SetInitState 1 (fsm_Register 3 StateGoHome (fsm_Register 2 StateAttack (fsm_Register 1 (StateIdle 0) new_fsm)))"

fun fsm_ticks :: "nat \<Rightarrow> fsm \<Rightarrow> exn + fsm" where
  "fsm_ticks 0 m = Inr m"
| "fsm_ticks (Suc n) m = (case fsm_Tick m of Inl e \<Rightarrow> Inl e | Inr m1 \<Rightarrow> fsm_ticks n m1)"

section \<open>Lemmas\<close>

lemma length_relay_header [simp]: "length (relay_header_bytes hdr) = 12"
  by (simp add: relay_header_bytes_def)

lemma unat_u32_less: "unat (w :: u32) < 256 ^ 4"
  using unsigned_less [of w, where 'a = nat] by simp

lemma header_at_bytes [simp]: "header_at (relay_header_bytes hdr @ bs) = hdr"
proof -
  have "le_nat (le_bytes 4 (unat (w :: u32))) = unat w" for w
    using unat_u32_less by (rule le_nat_le_bytes)
  then show ?thesis by (simp add: header_at_def relay_header_bytes_def)
qed

text \<open>A packet as a client sends it, and the packet the server forwards.\<close>

definition packet :: "u32 \<times> u32 \<times> byte list \<Rightarrow> byte list" where
  "packet p = (case p of (tgt, src, payload) \<Rightarrow>
     relay_header_bytes \<lparr> targetID = tgt, sourceID = src, hdr_length = word_of_nat (length payload) \<rparr> @ payload)"

definition small :: "u32 \<times> u32 \<times> byte list \<Rightarrow> bool" where
  "small p \<longleftrightarrow> (case p of (_, _, payload) \<Rightarrow> length payload \<le> 244)"

text \<open>What the server writes for a list of packets of the client \<open>sid\<close>: each to its target when that is known.\<close>

definition forwards :: "(u32 \<times> nat) list \<Rightarrow> u32 \<Rightarrow> (u32 \<times> u32 \<times> byte list) list \<Rightarrow> (nat \<times> byte list) list" where
  "forwards m sid ps = concat (map (\<lambda>(tgt, _, payload).
     case map_of m tgt of None \<Rightarrow> [] | Some b \<Rightarrow> [(b, packet (tgt, sid, payload))]) ps)"

definition same_clients :: "relay \<Rightarrow> relay \<Rightarrow> bool" where
  "same_clients r r' \<longleftrightarrow> ClientMap r' = ClientMap r \<and> freed r' = freed r"

lemma read_loop_short: "length input < 256 \<Longrightarrow> read_loop sid input r = Inr (input, r)"
  by (subst read_loop.simps) (simp add: MAX_PACKET_SIZE_def)

lemma small_total: "n \<le> 244 \<Longrightarrow> unat (word_of_nat n + word_of_nat HEADER_LENGTH :: u32) = n + 12 \<and> unat (word_of_nat n :: u32) = n"
proof -
  assume "n \<le> 244"
  then have "unat (word_of_nat (n + 12) :: u32) = n + 12" "unat (word_of_nat n :: u32) = n"
    by (simp_all only: unsigned_of_nat, simp_all add: take_bit_nat_eq_self)
  then show ?thesis by (simp add: HEADER_LENGTH_def)
qed

lemma read_loop_packet:
  assumes "small p" "length (packet p @ input) \<ge> 256"
    and "\<forall>b \<in> snd ` set (ClientMap r). b \<notin> set (freed r)"
  shows "\<exists>r'. read_loop sid (packet p @ input) r = read_loop sid input r'
    \<and> written r' = written r @ forwards (ClientMap r) sid [p] \<and> same_clients r r'"
proof -
  obtain tgt src payload where p: "p = (tgt, src, payload)" by (cases p)
  have len: "length payload \<le> 244" using assms(1) p by (simp add: small_def)
  note total = small_total [OF len]
  have live: "map_of (ClientMap r) tgt = Some b \<Longrightarrow> b \<notin> set (freed r)" for b
    using assms(3) by (force dest: map_of_SomeD)
  have dr: "drop HEADER_LENGTH (relay_header_bytes h @ bs) = bs" for h bs by (simp add: HEADER_LENGTH_def)
  show ?thesis
  proof (cases "map_of (ClientMap r) tgt")
    case None
    then show ?thesis using p len total assms(2) dr
      by (intro exI [of _ "r\<lparr> receiveNumber := receiveNumber r + 1, dataSize := int32 (dataSize r + int (length payload + 12)) \<rparr>"])
        (subst read_loop.simps, simp add: packet_def MAX_PACKET_SIZE_def HEADER_LENGTH_def forwards_def same_clients_def Let_def)
  next
    case (Some b)
    then show ?thesis using p len total assms(2) dr live [OF Some]
      by (intro exI [of _ "r\<lparr> receiveNumber := receiveNumber r + 1, dataSize := int32 (dataSize r + int (length payload + 12)),
             sendNumber := sendNumber r + 1, written := written r @ [(b, packet (tgt, sid, payload))] \<rparr>"])
        (subst read_loop.simps, simp add: packet_def MAX_PACKET_SIZE_def HEADER_LENGTH_def forwards_def same_clients_def bufferevent_write_def Let_def)
  qed
qed

lemma read_loop_packets:
  assumes "\<forall>p \<in> set ps. small p" "\<forall>b \<in> snd ` set (ClientMap r). b \<notin> set (freed r)"
  shows "\<exists>k r'. read_loop sid (concat (map packet ps)) r = Inr (concat (map packet (drop k ps)), r')
    \<and> length (concat (map packet (drop k ps))) < 256
    \<and> written r' = written r @ forwards (ClientMap r) sid (take k ps) \<and> same_clients r r'"
  using assms
proof (induction ps arbitrary: r)
  case Nil
  then show ?case by (intro exI [of _ 0] exI [of _ r]) (simp add: read_loop_short forwards_def same_clients_def)
next
  case (Cons p ps)
  show ?case
  proof (cases "length (concat (map packet (p # ps))) < 256")
    case True
    then show ?thesis
      by (intro exI [of _ 0] exI [of _ r]) (simp add: read_loop_short forwards_def same_clients_def)
  next
    case False
    then obtain r1 where r1: "read_loop sid (packet p @ concat (map packet ps)) r = read_loop sid (concat (map packet ps)) r1"
        "written r1 = written r @ forwards (ClientMap r) sid [p]" "same_clients r r1"
      using read_loop_packet [of p "concat (map packet ps)" r sid] Cons.prems by auto
    then obtain k r2 where "read_loop sid (concat (map packet ps)) r1 = Inr (concat (map packet (drop k ps)), r2)"
        "length (concat (map packet (drop k ps))) < 256"
        "written r2 = written r1 @ forwards (ClientMap r1) sid (take k ps)" "same_clients r1 r2"
      using Cons.IH [of r1] Cons.prems by (auto simp: same_clients_def)
    then show ?thesis using r1
      by (intro exI [of _ "Suc k"] exI [of _ r2]) (auto simp: same_clients_def forwards_def)
  qed
qed

section \<open>Properties\<close>



text \<open>
  A client that has gone stays in \<open>ClientMap\<close>, so the next packet for it, when it is large enough to be
  handled, is written to the freed bufferevent.
\<close>
theorem packet_to_closed_client_undefined:
  assumes "map_of (ClientMap r) tgt = Some b" and "length payload = 244"
  shows "conn_readcb interval nowtime bev (packet (tgt, src, payload)) (conn_eventcb b r) = Inl (Undefined ''freed bufferevent'')"
proof -
  have dr: "drop HEADER_LENGTH (relay_header_bytes h @ bs) = bs" for h bs by (simp add: HEADER_LENGTH_def)
  show ?thesis using assms small_total [of "length payload"] dr
    unfolding conn_readcb_def
    by (subst read_loop.simps) (simp add: packet_def conn_eventcb_def MAX_PACKET_SIZE_def HEADER_LENGTH_def bufferevent_write_def Let_def)
qed

theorem packet_to_closed_client_undefined_witness:
  "conn_readcb 5000 7 100 (packet (2, 9, replicate 244 1)) (conn_eventcb 200 (new_relay\<lparr> ClientMap := [(1, 100), (2, 200)] \<rparr>)) =
     Inl (Undefined ''freed bufferevent'')"
  using packet_to_closed_client_undefined [of "new_relay\<lparr> ClientMap := [(1, 100), (2, 200)] \<rparr>" 2 200 "replicate 244 1" 5000 7 100 9]
  by (simp add: new_relay_def)

lemma oversized_packet_overflows:
  assumes "length payload > 244" and "length payload < 2 ^ 32 - 12"
  shows "conn_readcb interval nowtime bev (packet (tgt, src, payload)) r = Inl (Undefined ''write outside msg'')"
proof -
  have dr: "drop HEADER_LENGTH (relay_header_bytes h @ bs) = bs" for h bs by (simp add: HEADER_LENGTH_def)
  have "unat (word_of_nat (length payload + 12) :: u32) = length payload + 12" "unat (word_of_nat (length payload) :: u32) = length payload"
    using assms by (simp_all only: unsigned_of_nat, simp_all add: take_bit_nat_eq_self)
  then show ?thesis using assms dr unfolding conn_readcb_def
    by (subst read_loop.simps) (simp add: packet_def MAX_PACKET_SIZE_def HEADER_LENGTH_def Let_def)
qed

text \<open>
  The example state machine is idle for its first four ticks, is attacking from the fifth tick on, and never
  uses a null state; the lines it prints are determined by the number of ticks.
\<close>
theorem fsm_runs:
  "case fsm_ticks n fsm_main_setup of
     Inl _ \<Rightarrow> False
   | Inr m \<Rightarrow> curState m = (if n < 5 then 1 else 2)
       \<and> out m = replicate (min n 5) ''Idle Tick''
           @ (if n < 5 then [] else [''==== Idle Exit'', ''---- Attack Enter''] @ replicate (n - 5) ''Attack Tick'')"
proof -
  have attack: "fsm_state 2 m = Inr StateAttack \<Longrightarrow> curState m = 2 \<Longrightarrow>
      fsm_ticks k m = Inr (m\<lparr> out := out m @ replicate k ''Attack Tick'' \<rparr>)" for k m
    by (induction k arbitrary: m) (simp_all add: fsm_Tick_def fsm_say_def fsm_state_def)
  have add: "fsm_ticks (a + b) m = (case fsm_ticks a m of Inl e \<Rightarrow> Inl e | Inr m1 \<Rightarrow> fsm_ticks b m1)" for a b m
    by (induction a arbitrary: m) (auto split: sum.splits)
  note ev = fsm_main_setup_def new_fsm_def SetInitState_def fsm_Register_def fsm_Tick_def fsm_Trans_def fsm_state_def fsm_say_def
    OnStateExit_def OnStateEnter_def Let_def numeral_eq_Suc
  show ?thesis
  proof (cases "n < 5")
    case True
    then have "n = 0 \<or> n = 1 \<or> n = 2 \<or> n = 3 \<or> n = 4" by arith
    then show ?thesis by (elim disjE) (simp_all add: ev)
  next
    case False
    then obtain k where n: "n = 5 + k" using le_Suc_ex not_less by blast
    obtain m where m: "fsm_ticks 5 fsm_main_setup = Inr m" "fsm_state 2 m = Inr StateAttack" "curState m = 2"
      "out m = replicate 5 ''Idle Tick'' @ [''==== Idle Exit'', ''---- Attack Enter'']"
      by (simp add: ev)
    then show ?thesis using n False attack [of m k] by (simp add: add)
  qed
qed

end
