(* ===== verification/Float_Conversions.thy ===== *)
theory Float_Conversions
  imports Complex_Main Convert_Utils
begin

text \<open>
  The conversions of \<open>src/log/utils/convert_utils_base.h\<close> between integers and floating point.  A value of type
  \<open>float\<close> or \<open>double\<close> is not a number, an infinity or a rational; integers are rounded to the 24 or 53 bits of
  the mantissa, to the nearest with ties to even.  No integer of 64 bits reaches the largest exponent.
\<close>

section \<open>Values and rounding\<close>

datatype cfloat = NaN | Infinite bool | Finite rat

text \<open>The low bits that do not fit into \<open>p\<close> bits, and the nearest number with \<open>p\<close> significant bits.\<close>

function excess :: "nat \<Rightarrow> nat \<Rightarrow> nat" where
  "excess p n = (if n < 2 ^ p then 0 else Suc (excess p (n div 2)))"
  by auto
termination
proof (relation "measure snd")
  fix p n :: nat
  assume "\<not> n < 2 ^ p"
  then have "n \<noteq> 0" by (metis zero_less_numeral zero_less_power)
  then show "((p, n div 2), (p, n)) \<in> measure snd" by simp
qed simp

declare excess.simps [simp del]

definition round_nat :: "nat \<Rightarrow> nat \<Rightarrow> nat" where
  "round_nat p n =
     (let e = excess p n; q = n div 2 ^ e; r = n mod 2 ^ e
      in if 2 * r > 2 ^ e \<or> 2 * r = 2 ^ e \<and> odd q then (q + 1) * 2 ^ e else q * 2 ^ e)"

definition round_int :: "nat \<Rightarrow> int \<Rightarrow> int" where
  "round_int p v = sgn v * int (round_nat p (nat \<bar>v\<bar>))"

section \<open>Conversions\<close>

definition IntToFloat :: "u32 \<Rightarrow> cfloat" where
  "IntToFloat v = Finite (of_int (round_int 24 (sint v)))"

definition SizeToFloat :: "u64 \<Rightarrow> cfloat" where
  "SizeToFloat v = Finite (of_nat (round_nat 24 (unat v)))"

definition LongToDouble :: "u64 \<Rightarrow> cfloat" where
  "LongToDouble v = Finite (of_int (round_int 53 (sint v)))"

definition FloatToDouble :: "cfloat \<Rightarrow> cfloat" where
  "FloatToDouble v = v"

text \<open>
  \<open>static_cast<size_t>\<close> of a value whose integral part does not fit is undefined; so is that of an infinity and
  of not-a-number, which compares false with everything.
\<close>

fun cast_size :: "cfloat \<Rightarrow> exn + u64" where
  "cast_size (Finite r) = (if 0 \<le> \<lfloor>r\<rfloor> \<and> \<lfloor>r\<rfloor> < 2 ^ 64 then Inr (word_of_int \<lfloor>r\<rfloor>) else Inl (Undefined ''static_cast<size_t>''))"
| "cast_size _ = Inl (Undefined ''static_cast<size_t>'')"

fun float_less :: "cfloat \<Rightarrow> cfloat \<Rightarrow> bool" where
  "float_less (Finite a) (Finite b) \<longleftrightarrow> a < b"
| "float_less (Infinite neg) (Finite b) \<longleftrightarrow> neg"
| "float_less (Finite a) (Infinite neg) \<longleftrightarrow> \<not> neg"
| "float_less (Infinite n) (Infinite m) \<longleftrightarrow> n \<and> \<not> m"
| "float_less NaN _ \<longleftrightarrow> False"
| "float_less _ NaN \<longleftrightarrow> False"

definition FloatToSize :: "cfloat \<Rightarrow> exn + u64" where
  "FloatToSize u =
     (if float_less u (Finite 0) then Inl (MsException ''The float value is less than 0'')
      else if float_less (SizeToFloat (- 1)) u then Inl (MsException ''The float value exceeds the maximum value of size_t'')
      else cast_size u)"

section \<open>Lemmas on rounding\<close>

lemma excess_exact: "n < 2 ^ p \<Longrightarrow> excess p n = 0"
  by (simp add: excess.simps)

lemma excess_eq: "2 ^ (p + e) \<le> n \<Longrightarrow> n < 2 ^ (p + e + 1) \<Longrightarrow> excess p n = Suc e"
proof (induction e arbitrary: n)
  case 0
  then show ?case by (simp add: excess.simps [of p n] excess_exact less_mult_imp_div_less mult.commute)
next
  case (Suc e)
  have "(2::nat) ^ p \<le> 2 ^ (p + Suc e)" by (rule power_increasing) simp_all
  then have "2 ^ p \<le> n" using Suc.prems(1) by simp
  moreover have "excess p (n div 2) = Suc e" using Suc.prems by (intro Suc.IH) auto
  ultimately show ?case by (simp add: excess.simps [of p n])
qed

lemma round_nat_exact: "n < 2 ^ p \<Longrightarrow> round_nat p n = n"
  by (simp add: round_nat_def excess_exact)

text \<open>The result is a multiple of the unit in the last place, at most half of which it is away.\<close>

lemma round_nat_near: "2 * \<bar>int (round_nat p n) - int n\<bar> \<le> 2 ^ excess p n"
proof -
  define e where "e = (2::nat) ^ excess p n"
  define k where "k = n div e * e"
  have "0 < e" by (simp add: e_def)
  then have n: "n = k + n mod e" "n mod e < e" by (simp_all add: k_def)
  have "round_nat p n = (if 2 * (n mod e) > e \<or> 2 * (n mod e) = e \<and> odd (n div e) then k + e else k)"
    by (simp add: round_nat_def Let_def e_def k_def)
  then have "2 * \<bar>int (round_nat p n) - int n\<bar> \<le> int e" using n by (auto split: if_splits)
  then show ?thesis by (simp add: e_def)
qed

lemma excess_le: "n < 2 ^ (p + e) \<Longrightarrow> excess p n \<le> e"
proof (induction e arbitrary: n)
  case (Suc e)
  then have "n div 2 < 2 ^ (p + e)" by auto
  then show ?case using Suc.IH by (simp add: excess.simps [of p n])
qed (simp add: excess_exact)

lemma excess_quotient: "n div 2 ^ excess p n < 2 ^ p"
proof (induction p n rule: excess.induct)
  case (1 p n)
  then show ?case by (cases "n < 2 ^ p") (simp_all add: excess.simps [of p n] div_mult2_eq)
qed

lemma round_form: "\<exists>m \<le> 2 ^ p. round_nat p n = m * 2 ^ excess p n"
proof -
  let ?q = "n div 2 ^ excess p n"
  have "round_nat p n = (?q + 1) * 2 ^ excess p n \<or> round_nat p n = ?q * 2 ^ excess p n" by (simp add: round_nat_def Let_def)
  then show ?thesis using excess_quotient [of n p] by (metis Suc_eq_plus1 Suc_leI less_imp_le)
qed

text \<open>A number with at most \<open>p\<close> significant bits is kept.\<close>

lemma round_scaled: "m \<le> 2 ^ p \<Longrightarrow> 0 < p \<Longrightarrow> round_nat p (m * 2 ^ k) = m * 2 ^ k"
proof -
  have exact: "round_nat p (l * 2 ^ j) = l * 2 ^ j" if "l < 2 ^ p" for l j
  proof -
    have "l * 2 ^ j < 2 ^ (p + j)" using that by (simp add: power_add)
    then have "(2::nat) ^ excess p (l * 2 ^ j) dvd l * 2 ^ j" using excess_le dvd_mult le_imp_power_dvd by blast
    then show ?thesis by (auto simp: round_nat_def Let_def)
  qed
  assume "m \<le> 2 ^ p" "0 < p"
  moreover from this(2) have "(1::nat) < 2 ^ p" by (rule one_less_power [rotated]) simp
  ultimately show ?thesis using exact [of m k] exact [of 1 "p + k"] by (cases "m = 2 ^ p") (simp_all add: power_add)
qed

lemma max_size_float: "SizeToFloat (- 1) = Finite (2 ^ 64)"
proof -
  have "unat (- 1 :: u64) = 2 ^ 64 - 1" by (simp add: unsigned_minus_1_eq_mask mask_eq_exp_minus_1)
  moreover have "excess 24 (2 ^ 64 - 1) = 40" using excess_eq [of 24 39 "2 ^ 64 - 1"] by simp
  then have "round_nat 24 (2 ^ 64 - 1) = 2 ^ 64" by (simp add: round_nat_def)
  ultimately show ?thesis by (simp add: SizeToFloat_def)
qed

text \<open>Which integers round up to the next power of two.\<close>

lemma round_below: "n < 2 ^ (p + e) \<Longrightarrow> 0 < p \<Longrightarrow> round_nat p n < 2 ^ (p + Suc e)"
proof -
  assume n: "n < 2 ^ (p + e)"
  have "(2::int) ^ excess p n \<le> 2 ^ e" using excess_le [OF n] by (rule power_increasing) simp
  with round_nat_near [of p n] have "2 * \<bar>int (round_nat p n) - int n\<bar> \<le> 2 ^ e" by (rule order_trans)
  moreover have "(2::int) ^ e \<le> 2 ^ (p + e)" by (rule power_increasing) simp_all
  moreover have "int n < 2 ^ (p + e)" using n by (metis of_nat_less_iff of_nat_numeral of_nat_power)
  moreover have "(0::int) < 2 ^ e" by simp
  moreover have "r < 2 * m" if "2 * \<bar>r - k\<bar> \<le> l" "l \<le> m" "k < m" "0 < l" for r k l m :: int
    using that by (cases "r \<le> k") simp_all
  ultimately have "int (round_nat p n) < 2 * 2 ^ (p + e)" by blast
  then show ?thesis by (metis add_Suc_right of_nat_less_iff of_nat_numeral of_nat_power power_Suc)
qed

lemma round_top:
  assumes "n < 2 ^ (p + Suc e)" "0 < p"
  shows "round_nat p n = 2 ^ (p + Suc e) \<longleftrightarrow> 2 ^ (p + Suc e) - 2 ^ e \<le> n"
proof (cases "n < 2 ^ (p + e)")
  case True
  have "(2::nat) ^ e \<le> 2 ^ (p + e)" by (rule power_increasing) simp_all
  then have "n < 2 ^ (p + Suc e) - 2 ^ e" using True by (simp only: add_Suc_right power_Suc)
  then show ?thesis using round_below [OF True assms(2)] by simp
next
  case False
  then have ex: "excess p n = Suc e" using excess_eq [of p e n] assms(1) by simp
  define k where "k = (2::nat) ^ e"
  let ?q = "n div (2 * k)" and ?r = "n mod (2 * k)"
  have k: "0 < k" by (simp add: k_def)
  have n: "n = ?q * (2 * k) + ?r" "?r < 2 * k" using k by (simp_all only: div_mult_mod_eq) simp
  have "n < 2 ^ p * (2 * k)" using assms(1) by (simp add: k_def power_add mult.commute mult.left_commute)
  then have q: "?q < 2 ^ p" by (rule less_mult_imp_div_less)
  have top: "q = 2 ^ p - 1 \<and> k \<le> r \<longleftrightarrow> 2 ^ p * (2 * k) - k \<le> q * (2 * k) + r" if qr: "q < 2 ^ p" "r < 2 * k" for q r
  proof (cases "q = 2 ^ p - 1")
    case True
    then have "q * (2 * k) + 2 * k = 2 ^ p * (2 * k)" by (metis Suc_pred' add.commute mult_Suc zero_less_numeral zero_less_power Suc_eq_plus1 diff_Suc_1)
    then show ?thesis using True by linarith
  next
    case False
    then have "(q + 2) * (2 * k) \<le> 2 ^ p * (2 * k)" using qr(1) by (intro mult_le_mono1) simp
    then have "q * (2 * k) + 4 * k \<le> 2 ^ p * (2 * k)" by (simp add: distrib_right)
    then show ?thesis using False qr(2) k by linarith
  qed
  have odd: "odd (2 ^ p - 1 :: nat)" using assms(2) by simp
  let ?up = "if 2 * ?r > 2 * k \<or> 2 * ?r = 2 * k \<and> odd ?q then 1 else 0"
  have "round_nat p n = (?q + ?up) * (2 * k)" by (simp add: round_nat_def ex Let_def k_def)
  moreover have "(2::nat) ^ (p + Suc e) = 2 ^ p * (2 * k)" by (simp add: k_def power_add)
  ultimately have "round_nat p n = 2 ^ (p + Suc e) \<longleftrightarrow> ?q + ?up = 2 ^ p" using k by (simp only: mult_cancel2) simp
  also have "\<dots> \<longleftrightarrow> ?q = 2 ^ p - 1 \<and> k \<le> ?r" using q odd by auto
  also have "\<dots> \<longleftrightarrow> 2 ^ p * (2 * k) - k \<le> n" using top [OF q n(2)] n(1) by simp
  finally show ?thesis by (simp add: k_def power_add mult.commute mult.left_commute)
qed

lemma FloatToSize_cases:
  "FloatToSize u =
     (case u of
        NaN \<Rightarrow> Inl (Undefined ''static_cast<size_t>'')
      | Infinite neg \<Rightarrow> Inl (MsException (if neg then ''The float value is less than 0'' else ''The float value exceeds the maximum value of size_t''))
      | Finite r \<Rightarrow>
          if r < 0 then Inl (MsException ''The float value is less than 0'')
          else if 2 ^ 64 < r then Inl (MsException ''The float value exceeds the maximum value of size_t'')
          else if r = 2 ^ 64 then Inl (Undefined ''static_cast<size_t>'')
          else Inr (word_of_int \<lfloor>r\<rfloor>))"
proof (cases u)
  case (Finite r)
  have "\<lfloor>r\<rfloor> < 2 ^ 64 \<longleftrightarrow> r < 2 ^ 64" using floor_less_iff [of r "2 ^ 64"] by simp
  then show ?thesis using Finite by (auto simp: FloatToSize_def max_size_float)
qed (auto simp: FloatToSize_def max_size_float)

section \<open>Properties\<close>

text \<open>
  C27: the gap in the range check of \<open>FloatToSize\<close>.  The largest \<open>size_t\<close> is rounded up to \<open>2 ^ 64\<close> before the
  comparison, so exactly two values pass both checks and make the cast undefined: \<open>2 ^ 64\<close> itself and
  not-a-number.  Every other value is either refused or truncated to an integer that fits.
\<close>
theorem FloatToSize_gap:
  "FloatToSize u =
     (case u of
        NaN \<Rightarrow> Inl (Undefined ''static_cast<size_t>'')
      | Infinite neg \<Rightarrow> Inl (MsException (if neg then ''The float value is less than 0'' else ''The float value exceeds the maximum value of size_t''))
      | Finite r \<Rightarrow>
          if r < 0 then Inl (MsException ''The float value is less than 0'')
          else if 2 ^ 64 < r then Inl (MsException ''The float value exceeds the maximum value of size_t'')
          else if r = 2 ^ 64 then Inl (Undefined ''static_cast<size_t>'')
          else Inr (word_of_int \<lfloor>r\<rfloor>))"
  by (rule FloatToSize_cases)

text \<open>
  Converting a \<open>size_t\<close> to \<open>float\<close> and back.  Values below \<open>2 ^ 24\<close> come back unchanged, every value that
  comes back is off by at most half a unit in the last place, and for the largest \<open>2 ^ 39\<close> values the way back is
  undefined.
\<close>
theorem SizeToFloat_and_back:
  "(unat v < 2 ^ 24 \<longrightarrow> FloatToSize (SizeToFloat v) = Inr v)
   \<and> (FloatToSize (SizeToFloat v) = Inl (Undefined ''static_cast<size_t>'') \<longleftrightarrow> 2 ^ 64 - 2 ^ 39 \<le> unat v)
   \<and> (\<forall>w. FloatToSize (SizeToFloat v) = Inr w \<longrightarrow> 2 * \<bar>int (unat w) - int (unat v)\<bar> \<le> 2 ^ excess 24 (unat v))"
proof -
  let ?r = "round_nat 24 (unat v)"
  have v: "unat v < 2 ^ 64" using unat_word_less [of v] by simp
  have ret: "FloatToSize (SizeToFloat v) = (if 2 ^ 64 < ?r then Inl (MsException ''The float value exceeds the maximum value of size_t'')
      else if ?r = 2 ^ 64 then Inl (Undefined ''static_cast<size_t>'') else Inr (word_of_nat ?r))"
  proof -
    have "(of_nat ?r :: rat) = 2 ^ 64 \<longleftrightarrow> ?r = 2 ^ 64" "(2 :: rat) ^ 64 < of_nat ?r \<longleftrightarrow> 2 ^ 64 < ?r"
      using of_nat_eq_iff [of ?r "2 ^ 64", where 'a = rat] of_nat_less_iff [of "2 ^ 64" ?r, where 'a = rat] by simp_all
    then show ?thesis by (simp add: FloatToSize_cases SizeToFloat_def)
  qed
  have "?r = unat v" if "unat v < 2 ^ 24" using that by (rule round_nat_exact)
  moreover have "uint (word_of_nat ?r :: u64) = int ?r" if "?r < 2 ^ 64"
    using that by (simp add: unsigned_of_nat take_bit_nat_eq_self)
  ultimately show ?thesis using ret round_top [of "unat v" 24 39] round_nat_near [of 24 "unat v"] v by auto
qed

theorem SizeToFloat_and_back_witness:
  "FloatToSize (SizeToFloat 7) = Inr 7 \<and> FloatToSize (SizeToFloat (- 1)) = Inl (Undefined ''static_cast<size_t>'')"
  using SizeToFloat_and_back [of 7] SizeToFloat_and_back [of "- 1"] by (simp add: unsigned_minus_1_eq_mask mask_eq_exp_minus_1)

end
