(* ===== verification/File_Configuration.thy ===== *)
theory File_Configuration
  imports Prelude
begin

text \<open>
  \<open>even-http/ps/core/file_configuration.cc\<close>: a configuration kept as a JSON object in memory and in a file.
  What the code uses of \<open>nlohmann::json\<close> is the record \<open>json_lib\<close>; \<open>json_ok\<close> are the laws of the library that the
  properties rest on.  A file system maps paths to contents.
\<close>

section \<open>The JSON library\<close>

text \<open>
  \<open>j_parse\<close> is \<open>operator>>\<close> (\<open>None\<close> when it throws), \<open>j_at_dump\<close> is \<open>at(key).dump()\<close>, \<open>j_put\<close> is the assignment of a
  string to \<open>js[key]\<close>, which throws unless the value is null or an object, and \<open>j_null\<close> is the initial value.
\<close>

record 'j json_lib =
  j_parse :: "string \<Rightarrow> 'j option"
  j_contains :: "'j \<Rightarrow> string \<Rightarrow> bool"
  j_at_dump :: "'j \<Rightarrow> string \<Rightarrow> string"
  j_put :: "'j \<Rightarrow> string \<Rightarrow> string \<Rightarrow> 'j option"
  j_dump :: "'j \<Rightarrow> string"
  j_null :: 'j

text \<open>
  What the library documents: a value reads back from its text, there is no value in an empty text, and an
  assignment changes one key, whose text is the string in quotes.
\<close>

definition json_ok :: "(string \<Rightarrow> string) \<Rightarrow> 'j json_lib \<Rightarrow> bool" where
  "json_ok quoted lib \<longleftrightarrow> (\<forall>j. j_parse lib (j_dump lib j) = Some j) \<and> j_parse lib [] = None
     \<and> (\<forall>j k v j'. j_put lib j k v = Some j' \<longrightarrow>
          (\<forall>k'. j_contains lib j' k' = (k' = k \<or> j_contains lib j k')
             \<and> j_at_dump lib j' k' = (if k' = k then quoted v else j_at_dump lib j k')))"

section \<open>The configuration\<close>

type_synonym files = "string \<rightharpoonup> string"

record 'j file_configuration =
  file_path :: string
  js :: 'j

definition new_file_configuration :: "'j json_lib \<Rightarrow> string \<Rightarrow> 'j file_configuration" where
  "new_file_configuration lib path = \<lparr> file_path = path, js = j_null lib \<rparr>"

definition IsFileExists :: "files \<Rightarrow> string \<Rightarrow> bool" where
  "IsFileExists fs file \<longleftrightarrow> fs file \<noteq> None"

definition config_Initialize :: "'j json_lib \<Rightarrow> files \<Rightarrow> 'j file_configuration \<Rightarrow> bool \<times> 'j file_configuration" where
  "config_Initialize lib fs c =
     (if \<not> IsFileExists fs (file_path c) then (False, c)
      else case j_parse lib (the (fs (file_path c))) of
        None \<Rightarrow> (False, c)
      | Some j \<Rightarrow> (True, c\<lparr> js := j \<rparr>))"

definition config_Get :: "'j json_lib \<Rightarrow> string \<Rightarrow> string \<Rightarrow> 'j file_configuration \<Rightarrow> string" where
  "config_Get lib key defaultvalue c =
     (if \<not> j_contains lib (js c) key then defaultvalue else j_at_dump lib (js c) key)"

text \<open>
  Opening the output stream truncates the file; when it cannot be opened the writes have no effect.  The exception
  of the assignment is not caught.
\<close>

definition config_Put :: "'j json_lib \<Rightarrow> bool \<Rightarrow> string \<Rightarrow> string \<Rightarrow> files \<Rightarrow> 'j file_configuration
    \<Rightarrow> (exn + unit) \<times> files \<times> 'j file_configuration" where
  "config_Put lib writable key val fs c =
     (let fs1 = (if writable then fs(file_path c \<mapsto> []) else fs) in
      case j_put lib (js c) key val of
        None \<Rightarrow> (Inl (MsException ''nlohmann::json::type_error''), fs1, c)
      | Some j \<Rightarrow> (Inr (), if writable then fs1(file_path c \<mapsto> j_dump lib j) else fs1, c\<lparr> js := j \<rparr>))"

section \<open>A concrete library\<close>

text \<open>Objects whose values are strings, and one value that is not an object.\<close>

datatype mini_json = Fields "(string \<times> string) list" | NotObject

fun enc_string :: "string \<Rightarrow> string" where
  "enc_string [] = '';''"
| "enc_string (c # s) = CHR ''.'' # c # enc_string s"

fun dec_string :: "string \<Rightarrow> (string \<times> string) option" where
  "dec_string (a # r) =
     (if a = CHR '';'' then Some ([], r)
      else case r of [] \<Rightarrow> None | c # r' \<Rightarrow> (case dec_string r' of None \<Rightarrow> None | Some (s, q) \<Rightarrow> Some (c # s, q)))"
| "dec_string [] = None"

lemma dec_enc: "dec_string (enc_string s @ r) = Some (s, r)"
  by (induction s) auto

lemma dec_shorter: "dec_string r = Some (s, q) \<Longrightarrow> length q < length r"
  by (induction r arbitrary: s q rule: dec_string.induct) (fastforce split: if_splits list.splits option.splits prod.splits)+

fun enc_fields :: "(string \<times> string) list \<Rightarrow> string" where
  "enc_fields [] = []"
| "enc_fields ((k, v) # m) = enc_string k @ enc_string v @ enc_fields m"

function dec_fields :: "string \<Rightarrow> (string \<times> string) list option" where
  "dec_fields r =
     (if r = [] then Some []
      else case dec_string r of
        None \<Rightarrow> None
      | Some (k, r1) \<Rightarrow>
          (case dec_string r1 of
             None \<Rightarrow> None
           | Some (v, r2) \<Rightarrow> (case dec_fields r2 of None \<Rightarrow> None | Some m \<Rightarrow> Some ((k, v) # m))))"
  by auto
termination
  by (relation "measure length") (auto dest!: dec_shorter)

declare dec_fields.simps [simp del]

lemma enc_string_ne [simp]: "enc_string s \<noteq> []"
  by (cases s) auto

lemma dec_enc_fields: "dec_fields (enc_fields m) = Some m"
  by (induction m rule: enc_fields.induct) (simp_all add: dec_fields.simps dec_enc)

definition mini_lib :: "mini_json json_lib" where
  "mini_lib = \<lparr>
     j_parse = (\<lambda>s. case s of [] \<Rightarrow> None | c # r \<Rightarrow> if c = CHR ''['' then Some NotObject else map_option Fields (dec_fields r)),
     j_contains = (\<lambda>j k. case j of Fields m \<Rightarrow> map_of m k \<noteq> None | NotObject \<Rightarrow> False),
     j_at_dump = (\<lambda>j k. case j of Fields m \<Rightarrow> (case map_of m k of None \<Rightarrow> [] | Some v \<Rightarrow> CHR 34 # v @ [CHR 34]) | NotObject \<Rightarrow> []),
     j_put = (\<lambda>j k v. case j of Fields m \<Rightarrow> Some (Fields ((k, v) # m)) | NotObject \<Rightarrow> None),
     j_dump = (\<lambda>j. case j of Fields m \<Rightarrow> CHR ''{'' # enc_fields m | NotObject \<Rightarrow> ''[]''),
     j_null = Fields [] \<rparr>"

lemma mini_lib_ok: "json_ok (\<lambda>s. CHR 34 # s @ [CHR 34]) mini_lib"
  by (auto simp: json_ok_def mini_lib_def dec_enc_fields split: mini_json.splits option.splits if_splits)

section \<open>Properties\<close>

text \<open>
  C35: what is put is persistent.  After a successful \<open>Put\<close> into a file that can be written, another configuration
  on the same path initialises and gives for every key what the first one gives: the new text, in quotes, for the
  key that was put, and for the others what they had.
\<close>
theorem put_is_persistent:
  assumes "json_ok quoted lib" and "config_Put lib True key val fs c = (Inr (), fs', c')" and "file_path d = file_path c"
  shows "\<exists>d'. config_Initialize lib fs' d = (True, d')
    \<and> (\<forall>k dflt. config_Get lib k dflt d' = (if k = key then quoted val else config_Get lib k dflt c))
    \<and> (\<forall>k dflt. config_Get lib k dflt c' = config_Get lib k dflt d')"
proof -
  obtain j where j: "j_put lib (js c) key val = Some j" "fs' = fs(file_path c \<mapsto> j_dump lib j)" "c' = c\<lparr> js := j \<rparr>"
    using assms(2) by (auto simp: config_Put_def Let_def split: option.splits)
  have "config_Initialize lib fs' d = (True, d\<lparr> js := j \<rparr>)"
    using assms(1,3) j(2) by (simp add: config_Initialize_def IsFileExists_def json_ok_def)
  moreover have "config_Get lib k dflt (d\<lparr> js := j \<rparr>) = (if k = key then quoted val else config_Get lib k dflt c)" for k dflt
    using assms(1) j(1) unfolding json_ok_def by (simp add: config_Get_def)
  moreover have "config_Get lib k dflt c' = config_Get lib k dflt (d\<lparr> js := j \<rparr>)" for k dflt
    by (simp add: config_Get_def j(3))
  ultimately show ?thesis by blast
qed

theorem put_is_persistent_witness:
  "\<exists>d'. config_Initialize mini_lib [''f'' \<mapsto> j_dump mini_lib (Fields [(''ip'', ''::1'')])]
      (new_file_configuration mini_lib ''f'') = (True, d')
    \<and> config_Get mini_lib ''ip'' [] d' = CHR 34 # ''::1'' @ [CHR 34]"
proof -
  let ?c = "new_file_configuration mini_lib ''f''"
  have "config_Put mini_lib True ''ip'' ''::1'' Map.empty ?c
      = (Inr (), [''f'' \<mapsto> j_dump mini_lib (Fields [(''ip'', ''::1'')])], ?c\<lparr> js := Fields [(''ip'', ''::1'')] \<rparr>)"
    by (simp add: config_Put_def new_file_configuration_def mini_lib_def)
  from put_is_persistent [OF mini_lib_ok this refl] show ?thesis by auto
qed

text \<open>
  A \<open>Put\<close> that fails destroys the file.  When the stored value is not an object, the exception leaves a file
  that was opened for writing empty, and no configuration on that path initialises any more.
\<close>
theorem failed_put_destroys_file:
  assumes "json_ok quoted lib" and "j_put lib (js c) key val = None" and "file_path d = file_path c"
  shows "\<exists>e fs'. config_Put lib True key val fs c = (Inl e, fs', c) \<and> fst (config_Initialize lib fs' d) = False"
  using assms by (simp add: config_Put_def config_Initialize_def IsFileExists_def json_ok_def)

theorem failed_put_destroys_file_witness:
  "\<exists>e fs'. config_Put mini_lib True ''k'' ''v'' [''f'' \<mapsto> ''[]''] \<lparr> file_path = ''f'', js = NotObject \<rparr>
      = (Inl e, fs', \<lparr> file_path = ''f'', js = NotObject \<rparr>) \<and> fst (config_Initialize mini_lib fs' (new_file_configuration mini_lib ''f'')) = False"
  using failed_put_destroys_file [OF mini_lib_ok, of "\<lparr> file_path = ''f'', js = NotObject \<rparr>" "''k''" "''v''"
      "new_file_configuration mini_lib ''f''" "[''f'' \<mapsto> ''[]'']"]
  by (simp add: mini_lib_def new_file_configuration_def)

end
