(* ===== verification/Rot13_Server.thy ===== *)
theory Rot13_Server
  imports Prelude "HOL-Library.Sublist"
begin

text \<open>
  \<open>libevent-example/example/server3.cpp\<close> and \<open>server2.cpp\<close>: two servers that answer each line with its ROT13
  image, one with \<open>select\<close> over non-blocking sockets, one with a process for each connection.  The results of
  \<open>accept\<close>, \<open>recv\<close>, \<open>send\<close> and \<open>select\<close> are arguments.
\<close>

section \<open>Characters\<close>

definition in_chars :: "nat \<Rightarrow> nat \<Rightarrow> byte \<Rightarrow> bool" where
  "in_chars lo hi c \<longleftrightarrow> lo \<le> unat c \<and> unat c \<le> hi"

definition rot13_char :: "byte \<Rightarrow> byte" where
  "rot13_char c =
     (if in_chars 97 109 c \<or> in_chars 65 77 c then c + 13
      else if in_chars 110 122 c \<or> in_chars 78 90 c then c - 13
      else c)"

definition newline :: byte where "newline = 10"

section \<open>The server with \<open>select\<close>\<close>

definition MAX_LINE :: nat where "MAX_LINE = 16384"
definition FD_SETSIZE :: nat where "FD_SETSIZE = 1024"

text \<open>\<open>buffer\<close> is the whole array; its bytes from \<open>buffer_used\<close> on are left over or uninitialised.\<close>

record fd_state =
  buffer :: "byte list"
  buffer_used :: nat
  writing :: bool
  n_written :: nat
  write_upto :: nat

text \<open>\<open>garbage\<close> is what \<open>malloc\<close> leaves in the array.\<close>

definition alloc_fd_state :: "byte list \<Rightarrow> fd_state" where
  "alloc_fd_state garbage = \<lparr> buffer = garbage, buffer_used = 0, writing = False, n_written = 0, write_upto = 0 \<rparr>"

definition read_char :: "byte \<Rightarrow> fd_state \<Rightarrow> fd_state" where
  "read_char c st =
     (let st1 = (if buffer_used st < MAX_LINE
                 then st\<lparr> buffer := (buffer st)[buffer_used st := rot13_char c], buffer_used := buffer_used st + 1 \<rparr> else st)
      in if c = newline then st1\<lparr> writing := True, write_upto := buffer_used st1 \<rparr> else st1)"

text \<open>The results of \<open>recv\<close>: some pieces of data, then the end of the stream, \<open>EAGAIN\<close> or another error.\<close>

datatype recv_end = RecvEof | RecvAgain | RecvError

fun do_read :: "byte list list \<Rightarrow> recv_end \<Rightarrow> fd_state \<Rightarrow> int \<times> fd_state" where
  "do_read [] fin st = (case fin of RecvEof \<Rightarrow> 1 | RecvAgain \<Rightarrow> 0 | RecvError \<Rightarrow> - 1, st)"
| "do_read (buf # bufs) fin st = do_read bufs fin (fold read_char buf st)"

text \<open>
  \<open>do_write\<close>: each \<open>send\<close> takes at most \<open>k\<close> bytes of what it is given, or fails; when the list is used up the
  socket would block.  The results are the return value, what was sent and the state; \<open>send\<close> returning 0 is the
  failed assertion.
\<close>

datatype send_result = Sent nat | SendAgain | SendError

definition finish_write :: "fd_state \<Rightarrow> fd_state" where
  "finish_write st =
     (let st1 = (if n_written st = buffer_used st then st\<lparr> n_written := 0, write_upto := 0, buffer_used := 0 \<rparr> else st)
      in st1\<lparr> writing := False \<rparr>)"

fun do_write :: "send_result list \<Rightarrow> fd_state \<Rightarrow> exn + (int \<times> byte list \<times> fd_state)" where
  "do_write rs st =
     (if n_written st < write_upto st then
        (case rs of
           [] \<Rightarrow> Inr (0, [], st)
         | SendAgain # _ \<Rightarrow> Inr (0, [], st)
         | SendError # _ \<Rightarrow> Inr (- 1, [], st)
         | Sent k # rs' \<Rightarrow>
             (let k' = min k (write_upto st - n_written st) in
              if k' = 0 then Inl (MsException ''assert (result != 0)'')
              else case do_write rs' (st\<lparr> n_written := n_written st + k' \<rparr>) of
                Inl e \<Rightarrow> Inl e
              | Inr (r, sent, st') \<Rightarrow> Inr (r, take k' (drop (n_written st) (buffer st)) @ sent, st')))
      else Inr (0, [], finish_write st))"

declare do_write.simps [simp del]

text \<open>The accepting branch of the loop; \<open>close\<close> of a descriptor that is too large has no effect on the table.\<close>

definition accept_fd :: "int \<Rightarrow> byte list option \<Rightarrow> fd_state option list \<Rightarrow> exn + fd_state option list" where
  "accept_fd fd allocated sts =
     (if fd < 0 then Inr sts
      else if fd > int FD_SETSIZE then Inr sts
      else if nat fd \<ge> length sts then Inl (Undefined ''state[fd]'')
      else case allocated of
        None \<Rightarrow> Inl (MsException ''assert (state[fd])'')
      | Some garbage \<Rightarrow> Inr (sts[nat fd := Some (alloc_fd_state garbage)]))"

text \<open>What \<open>select\<close> and the calls on one descriptor report; \<open>None\<close> when the descriptor is not ready.\<close>

record fd_input =
  readable :: "(byte list list \<times> recv_end) option"
  writable :: "send_result list option"

definition serve_fd :: "fd_input \<Rightarrow> fd_state \<Rightarrow> exn + (byte list \<times> fd_state option)" where
  "serve_fd inp st =
     (let wants_write = writing st;
          (r, st1) = (case readable inp of None \<Rightarrow> (0, st) | Some (bufs, fin) \<Rightarrow> do_read bufs fin st)
      in if r = 0 \<and> wants_write then
           (case writable inp of
              None \<Rightarrow> Inr ([], Some st1)
            | Some rs \<Rightarrow>
                (case do_write rs st1 of
                   Inl e \<Rightarrow> Inl e
                 | Inr (r', sent, st2) \<Rightarrow> Inr (sent, if r' \<noteq> 0 then None else Some st2)))
         else Inr ([], if r \<noteq> 0 then None else Some st1))"

fun serve_all :: "(nat \<Rightarrow> fd_input) \<Rightarrow> nat \<Rightarrow> fd_state option list \<Rightarrow> exn + (byte list \<times> fd_state option) list" where
  "serve_all inp i [] = Inr []"
| "serve_all inp i (s # sts) =
     (case (case s of None \<Rightarrow> Inr ([], None) | Some st \<Rightarrow> serve_fd (inp i) st) of
        Inl e \<Rightarrow> Inl e
      | Inr x \<Rightarrow> (case serve_all inp (Suc i) sts of Inl e \<Rightarrow> Inl e | Inr xs \<Rightarrow> Inr (x # xs)))"

text \<open>
  One turn of the loop: the descriptors to serve are those of the table before the \<open>accept\<close>; \<open>acc\<close> is present
  when the listener is ready.
\<close>

definition run_turn :: "(int \<times> byte list option) option \<Rightarrow> (nat \<Rightarrow> fd_input) \<Rightarrow> fd_state option list
    \<Rightarrow> exn + (byte list list \<times> fd_state option list)" where
  "run_turn acc inp sts =
     (case (case acc of None \<Rightarrow> Inr sts | Some (fd, allocated) \<Rightarrow> accept_fd fd allocated sts) of
        Inl e \<Rightarrow> Inl e
      | Inr sts1 \<Rightarrow>
          (case serve_all inp 0 sts of
             Inl e \<Rightarrow> Inl e
           | Inr xs \<Rightarrow> Inr (map fst xs, map2 (\<lambda>old (x, new). if old = None then new else snd x) sts (zip xs sts1))))"

section \<open>The server with processes\<close>

text \<open>\<open>child\<close>: the bytes that \<open>recv\<close> returns before the end or an error, and the calls of \<open>send\<close>.\<close>

fun child :: "byte list \<Rightarrow> byte list \<Rightarrow> byte list list" where
  "child [] outbuf = []"
| "child (ch # input) outbuf =
     (let outbuf1 = (if length outbuf < MAX_LINE + 1 then outbuf @ [rot13_char ch] else outbuf)
      in if ch = newline then outbuf1 # child input [] else child input outbuf1)"

section \<open>Bounds of the buffer\<close>

definition fd_inv :: "fd_state \<Rightarrow> bool" where
  "fd_inv st \<longleftrightarrow> length (buffer st) = MAX_LINE \<and> n_written st \<le> write_upto st \<and> write_upto st \<le> buffer_used st
     \<and> buffer_used st \<le> MAX_LINE \<and> (\<not> writing st \<longrightarrow> n_written st = write_upto st)"

lemma fd_inv_alloc: "length garbage = MAX_LINE \<Longrightarrow> fd_inv (alloc_fd_state garbage)"
  by (simp add: fd_inv_def alloc_fd_state_def)

lemma fd_inv_read_char: "fd_inv st \<Longrightarrow> fd_inv (read_char c st)"
  by (auto simp: fd_inv_def read_char_def Let_def)

lemma fd_inv_read_chars: "fd_inv st \<Longrightarrow> fd_inv (fold read_char cs st)"
  by (induction cs arbitrary: st) (auto simp: fd_inv_read_char)

lemma fd_inv_do_read: "fd_inv st \<Longrightarrow> fd_inv (snd (do_read bufs fin st))"
  by (induction bufs fin st rule: do_read.induct) (auto simp: fd_inv_read_chars)

lemma fd_inv_finish: "fd_inv st \<Longrightarrow> n_written st = write_upto st \<Longrightarrow> fd_inv (finish_write st)"
  by (auto simp: fd_inv_def finish_write_def Let_def)

lemma do_write_done: "\<not> n_written st < write_upto st \<Longrightarrow> do_write rs st = Inr (0, [], finish_write st)"
  by (simp add: do_write.simps)

lemma do_write_blocked:
  "n_written st < write_upto st \<Longrightarrow> do_write [] st = Inr (0, [], st)"
  "n_written st < write_upto st \<Longrightarrow> do_write (SendAgain # rs) st = Inr (0, [], st)"
  "n_written st < write_upto st \<Longrightarrow> do_write (SendError # rs) st = Inr (- 1, [], st)"
  by (simp_all add: do_write.simps)

text \<open>The rule by which facts about \<open>do_write\<close> are proved: they hold at its ends and are kept by one \<open>send\<close>.\<close>

lemma do_write_rule:
  assumes "do_write rs st = Inr (r, sent, st')" and "P st out"
    and "\<And>st out k. P st out \<Longrightarrow> n_written st + k \<le> write_upto st \<Longrightarrow>
        P (st\<lparr> n_written := n_written st + k \<rparr>) (out @ take k (drop (n_written st) (buffer st)))"
    and "\<And>st out. P st out \<Longrightarrow> \<not> n_written st < write_upto st \<Longrightarrow> P (finish_write st) out"
  shows "P st' (out @ sent)"
  using assms(1,2)
proof (induction rs arbitrary: st sent out)
  case Nil
  then show ?case using assms(4) by (cases "n_written st < write_upto st") (auto simp: do_write_done do_write_blocked)
next
  case (Cons a rs)
  show ?case
  proof (cases "n_written st < write_upto st")
    case False
    then show ?thesis using Cons.prems assms(4) by (auto simp: do_write_done)
  next
    case True
    show ?thesis
    proof (cases a)
      case (Sent k)
      let ?k = "min k (write_upto st - n_written st)"
      let ?st = "st\<lparr> n_written := n_written st + ?k \<rparr>" and ?piece = "take ?k (drop (n_written st) (buffer st))"
      obtain sent' where rec: "do_write rs ?st = Inr (r, sent', st')" "sent = ?piece @ sent'"
        using Cons.prems(1) True Sent
        by (subst (asm) do_write.simps) (auto simp: Let_def split: if_splits sum.splits prod.splits)
      have "P ?st (out @ ?piece)" using assms(3) [OF Cons.prems(2), of ?k] True by simp
      then show ?thesis using Cons.IH [OF rec(1), of "out @ ?piece"] rec(2) by simp
    qed (use True Cons.prems in \<open>auto simp: do_write_blocked\<close>)
  qed
qed

lemma fd_inv_sent: "fd_inv st \<Longrightarrow> n_written st + k \<le> write_upto st \<Longrightarrow> fd_inv (st\<lparr> n_written := n_written st + k \<rparr>)"
  by (auto simp: fd_inv_def)

lemma fd_inv_do_write:
  assumes "do_write rs st = Inr (r, sent, st')" "fd_inv st"
  shows "fd_inv st'"
proof (rule do_write_rule [where P = "\<lambda>st _. fd_inv st" and out = "[]", OF assms])
  show "fd_inv (finish_write st)" if "fd_inv st" "\<not> n_written st < write_upto st" for st
    using that fd_inv_finish [of st] by (simp add: fd_inv_def)
qed (rule fd_inv_sent)

text \<open>An open connection after one turn has been read from and, possibly, written to.\<close>

lemma serve_fd_open:
  assumes "serve_fd inp st = Inr (sent, Some st')"
  obtains r st1 where "(case readable inp of None \<Rightarrow> (0, st) | Some (bufs, fin) \<Rightarrow> do_read bufs fin st) = (r, st1)"
    and "sent = [] \<and> st' = st1 \<or> (\<exists>rs. do_write rs st1 = Inr (0, sent, st'))"
proof -
  obtain r st1 where st1: "(case readable inp of None \<Rightarrow> (0, st) | Some (bufs, fin) \<Rightarrow> do_read bufs fin st) = (r, st1)" by fastforce
  moreover have "sent = [] \<and> st' = st1 \<or> (\<exists>rs. do_write rs st1 = Inr (0, sent, st'))"
    using assms st1 by (auto simp: serve_fd_def split: option.splits sum.splits prod.splits if_splits)
  ultimately show ?thesis using that by blast
qed

lemma fd_inv_serve:
  assumes "serve_fd inp st = Inr (sent, Some st')" "fd_inv st"
  shows "fd_inv st'"
proof (rule serve_fd_open [OF assms(1)])
  fix r st1
  assume st1: "(case readable inp of None \<Rightarrow> (0, st) | Some (bufs, fin) \<Rightarrow> do_read bufs fin st) = (r, st1)"
    and out: "sent = [] \<and> st' = st1 \<or> (\<exists>rs. do_write rs st1 = Inr (0, sent, st'))"
  have "fd_inv st1" using st1 assms(2) fd_inv_do_read by (auto split: option.splits) (metis snd_conv)
  then show ?thesis using out fd_inv_do_write by blast
qed

section \<open>What is answered\<close>

text \<open>The complete lines of the input.\<close>

definition complete :: "byte list \<Rightarrow> byte list" where
  "complete xs = rev (dropWhile (\<lambda>c. c \<noteq> newline) (rev xs))"

lemma complete_Nil [simp]: "complete [] = []"
  by (simp add: complete_def)

lemma complete_snoc [simp]: "complete (xs @ [c]) = (if c = newline then xs @ [c] else complete xs)"
  by (simp add: complete_def)

lemma complete_prefix: "prefix (complete xs) xs"
  by (induction xs rule: rev_induct) auto

lemma take_complete: "take (length (complete xs)) xs = complete xs"
  by (metis append_eq_conv_conj complete_prefix prefix_def)

text \<open>
  The state after the input \<open>xs\<close> of which \<open>out\<close> has been sent, when no byte was dropped: the buffer holds the
  images of the bytes from position \<open>b\<close> on.
\<close>

definition echoing :: "byte list \<Rightarrow> fd_state \<Rightarrow> byte list \<Rightarrow> bool" where
  "echoing xs st out \<longleftrightarrow> fd_inv st \<and> (\<exists>b. b + buffer_used st = length xs \<and> take (buffer_used st) (buffer st) = map rot13_char (drop b xs)
     \<and> out = map rot13_char (take (b + n_written st) xs) \<and> b + write_upto st = length (complete xs))"

lemma echoing_read_char:
  assumes "echoing xs st out" "length xs < MAX_LINE"
  shows "echoing (xs @ [c]) (read_char c st) out"
proof -
  obtain b where b: "b + buffer_used st = length xs" "take (buffer_used st) (buffer st) = map rot13_char (drop b xs)"
      "out = map rot13_char (take (b + n_written st) xs)" "b + write_upto st = length (complete xs)" and inv: "fd_inv st"
    using assms(1) by (auto simp: echoing_def)
  have room: "buffer_used st < MAX_LINE" "buffer_used st < length (buffer st)" "b \<le> length xs" "b + n_written st \<le> length xs"
    using b(1) assms(2) inv by (auto simp: fd_inv_def)
  have "take (Suc (buffer_used st)) ((buffer st)[buffer_used st := rot13_char c]) = map rot13_char (drop b (xs @ [c]))"
    using room b(2) by (simp add: take_Suc_conv_app_nth)
  then show ?thesis using fd_inv_read_char [OF inv, of c] b room
    by (auto simp: echoing_def read_char_def Let_def intro!: exI [of _ b])
qed

lemma echoing_read_chars:
  "echoing xs st out \<Longrightarrow> length (xs @ cs) \<le> MAX_LINE \<Longrightarrow> echoing (xs @ cs) (fold read_char cs st) out"
proof (induction cs arbitrary: xs st)
  case (Cons c cs)
  then show ?case using echoing_read_char [of xs st out c] Cons.IH [of "xs @ [c]"] by simp
qed simp

lemma echoing_do_read:
  "echoing xs st out \<Longrightarrow> length (xs @ concat bufs) \<le> MAX_LINE \<Longrightarrow> echoing (xs @ concat bufs) (snd (do_read bufs fin st)) out"
proof (induction bufs fin st arbitrary: xs rule: do_read.induct)
  case (2 buf bufs fin st)
  then show ?case using echoing_read_chars [of xs st out buf] "2.IH" [of "xs @ buf"] by simp
qed simp

lemma echoing_do_write:
  assumes "do_write rs st = Inr (r, sent, st')" "echoing xs st out"
  shows "echoing xs st' (out @ sent)"
  using assms
proof (rule do_write_rule [where P = "echoing xs"])
  fix st out k
  assume e: "echoing xs st out" and k: "n_written st + k \<le> write_upto st"
  obtain b where b: "b + buffer_used st = length xs" "take (buffer_used st) (buffer st) = map rot13_char (drop b xs)"
      "out = map rot13_char (take (b + n_written st) xs)" "b + write_upto st = length (complete xs)" and inv: "fd_inv st"
    using e by (auto simp: echoing_def)
  have upto: "n_written st + k \<le> buffer_used st" using k inv by (simp add: fd_inv_def)
  have "take k (drop (n_written st) (buffer st)) = take k (drop (n_written st) (take (buffer_used st) (buffer st)))"
    using upto by (simp add: drop_take min_def)
  moreover have pieces: "take (b + (n_written st + k)) xs = take (b + n_written st) xs @ take k (drop (b + n_written st) xs)"
    by (metis add.assoc take_add)
  ultimately have "out @ take k (drop (n_written st) (buffer st)) = map rot13_char (take (b + (n_written st + k)) xs)"
    using b pieces by (simp add: drop_map take_map add.commute)
  then show "echoing xs (st\<lparr> n_written := n_written st + k \<rparr>) (out @ take k (drop (n_written st) (buffer st)))"
    using b fd_inv_sent [OF inv k] by (auto simp: echoing_def intro!: exI [of _ b])
next
  fix st out
  assume e: "echoing xs st out" and d: "\<not> n_written st < write_upto st"
  have inv: "fd_inv st" "n_written st = write_upto st" using e d by (auto simp: echoing_def fd_inv_def)
  show "echoing xs (finish_write st) out"
    using e inv fd_inv_finish [OF inv]
    by (auto simp: echoing_def finish_write_def Let_def intro!: exI [of _ "length xs"])
qed

text \<open>The events of one connection, until it is closed.\<close>

fun session :: "fd_input list \<Rightarrow> fd_state \<Rightarrow> exn + (byte list \<times> fd_state option)" where
  "session [] st = Inr ([], Some st)"
| "session (i # is) st =
     (case serve_fd i st of
        Inl e \<Rightarrow> Inl e
      | Inr (sent, None) \<Rightarrow> Inr (sent, None)
      | Inr (sent, Some st') \<Rightarrow>
          (case session is st' of Inl e \<Rightarrow> Inl e | Inr (sent', r) \<Rightarrow> Inr (sent @ sent', r)))"

definition received :: "fd_input list \<Rightarrow> byte list" where
  "received is = concat (map (\<lambda>i. case readable i of None \<Rightarrow> [] | Some (bufs, _) \<Rightarrow> concat bufs) is)"


lemma echoing_serve:
  assumes "serve_fd inp st = Inr (sent, Some st')" "echoing xs st out" "length (xs @ received [inp]) \<le> MAX_LINE"
  shows "echoing (xs @ received [inp]) st' (out @ sent)"
proof (rule serve_fd_open [OF assms(1)])
  fix r st1
  assume st1: "(case readable inp of None \<Rightarrow> (0, st) | Some (bufs, fin) \<Rightarrow> do_read bufs fin st) = (r, st1)"
    and out: "sent = [] \<and> st' = st1 \<or> (\<exists>rs. do_write rs st1 = Inr (0, sent, st'))"
  have "echoing (xs @ received [inp]) st1 out"
  proof (cases "readable inp")
    case None
    then show ?thesis using st1 assms(2) by (simp add: received_def)
  next
    case (Some bf)
    then show ?thesis using st1 assms(2,3) echoing_do_read [of xs st out "fst bf" "snd bf"]
      by (cases bf) (simp add: received_def)
  qed
  then show ?thesis using out echoing_do_write by fastforce
qed

lemma echoing_session:
  "session is st = Inr (sent, Some st') \<Longrightarrow> echoing xs st out \<Longrightarrow> length (xs @ received is) \<le> MAX_LINE \<Longrightarrow>
   echoing (xs @ received is) st' (out @ sent)"
proof (induction "is" arbitrary: st xs out sent)
  case Nil
  then show ?case by (simp add: received_def)
next
  case (Cons i "is")
  then obtain sent1 st1 sent2 where step: "serve_fd i st = Inr (sent1, Some st1)" "session is st1 = Inr (sent2, Some st')"
      "sent = sent1 @ sent2"
    by (auto split: sum.splits option.splits prod.splits)
  have rcv: "received (i # is) = received [i] @ received is" by (simp add: received_def)
  then have "echoing (xs @ received [i]) st1 (out @ sent1)" using echoing_serve [OF step(1)] Cons.prems by simp
  then show ?case using Cons.IH [OF step(2), of "xs @ received [i]" "out @ sent1"] step(3) Cons.prems(3) rcv by simp
qed

lemma fd_inv_session: "session is st = Inr (sent, Some st') \<Longrightarrow> fd_inv st \<Longrightarrow> fd_inv st'"
proof (induction "is" arbitrary: st sent)
  case (Cons i "is")
  then show ?case using fd_inv_serve by (auto split: sum.splits option.splits prod.splits)
qed simp

lemma complete_none: "newline \<notin> set xs \<Longrightarrow> complete xs = []"
  by (auto simp: complete_def dropWhile_eq_Nil_conv)

lemma complete_Cons: "complete (c # xs) = (if newline \<in> set (c # xs) then c # complete xs else [])"
  by (auto simp: complete_def dropWhile_append)

lemma child_lines:
  "length (outbuf @ input) \<le> MAX_LINE + 1 \<Longrightarrow>
   concat (child input outbuf) = (if newline \<in> set input then outbuf else []) @ map rot13_char (complete input)"
proof (induction input outbuf rule: child.induct)
  case (1 outbuf)
  then show ?case by (simp add: complete_none)
next
  case (2 ch input outbuf)
  let ?o = "outbuf @ [rot13_char ch]"
  have room: "length outbuf < Suc MAX_LINE" using "2.prems" by simp
  show ?case
  proof (cases "ch = newline")
    case True
    have "concat (child input []) = map rot13_char (complete input)" using "2.IH"(1) [OF refl] "2.prems" room True by simp
    then show ?thesis using True room by (simp add: complete_Cons)
  next
    case False
    have "concat (child input ?o) = (if newline \<in> set input then ?o else []) @ map rot13_char (complete input)"
      using "2.IH"(2) [OF refl] "2.prems" room False by simp
    then show ?thesis using False room by (auto simp: complete_Cons complete_none Let_def simp del: concat_eq_Nil_conv)
  qed
qed

text \<open>A connection that sends \<open>hi\<close> and a line feed, and is answered in two pieces.\<close>

definition greeting :: "fd_input list" where
  "greeting = [\<lparr> readable = Some ([[104, 105], [10]], RecvAgain), writable = None \<rparr>,
               \<lparr> readable = None, writable = Some [Sent 2, Sent 5] \<rparr>]"

lemma greeting_session:
  "\<exists>st. session greeting (alloc_fd_state (0 # 0 # 0 # rest)) = Inr ([117, 118, 10], Some st) \<and> \<not> writing st"
proof -
  let ?s = "\<lambda>k. \<lparr> buffer = 117 # 118 # 10 # rest, buffer_used = 3, writing = True, n_written = k, write_upto = 3 \<rparr>"
  have "rot13_char 104 = 117" "rot13_char 105 = 118" "rot13_char 10 = 10" by (simp_all add: rot13_char_def in_chars_def)
  then have "serve_fd (greeting ! 0) (alloc_fd_state (0 # 0 # 0 # rest)) = Inr ([], Some (?s 0))"
    by (simp add: greeting_def alloc_fd_state_def serve_fd_def read_char_def newline_def MAX_LINE_def Let_def)
  moreover have "do_write [] (?s 3) = Inr (0, [], finish_write (?s 3))" by (simp add: do_write.simps)
  then have "do_write [Sent 5] (?s 2) = Inr (0, [10], finish_write (?s 3))" by (subst do_write.simps) simp
  then have "do_write [Sent 2, Sent 5] (?s 0) = Inr (0, [117, 118, 10], finish_write (?s 3))"
    by (subst do_write.simps) (simp add: numeral_2_eq_2)
  then have "serve_fd (greeting ! 1) (?s 0) = Inr ([117, 118, 10], Some (finish_write (?s 3)))"
    by (simp add: serve_fd_def greeting_def)
  ultimately show ?thesis by (simp add: greeting_def finish_write_def)
qed

lemma greeting_received: "received greeting = [104, 105, 10]"
  by (simp add: received_def greeting_def)

lemma array_length: "length (0 # 0 # 0 # replicate 16381 (0::byte)) = MAX_LINE"
  by (simp add: MAX_LINE_def)

section \<open>Properties\<close>

text \<open>
  C14: all indices into the line buffer are in range.  Whatever the sockets report, in a connection that is
  still open the written position is at most the end of the last complete line, which is at most the number of
  buffered bytes, which is at most \<open>MAX_LINE\<close>.
\<close>
theorem buffer_bounds:
  assumes "length garbage = MAX_LINE" and "session is (alloc_fd_state garbage) = Inr (sent, Some st)"
  shows "length (buffer st) = MAX_LINE \<and> n_written st \<le> write_upto st \<and> write_upto st \<le> buffer_used st \<and> buffer_used st \<le> MAX_LINE"
  using fd_inv_session [OF assms(2) fd_inv_alloc [OF assms(1)]] by (simp add: fd_inv_def)

theorem buffer_bounds_witness:
  "\<exists>st. session greeting (alloc_fd_state (0 # 0 # 0 # replicate 16381 0)) = Inr ([117, 118, 10], Some st) \<and> buffer_used st \<le> MAX_LINE"
  using greeting_session [of "replicate 16381 0"] buffer_bounds [OF array_length] by blast

text \<open>
  C15: both servers answer the complete lines.  In a connection with at most \<open>MAX_LINE\<close> bytes of input, what the
  server with \<open>select\<close> has sent is a prefix of the images of the complete lines; when it is not writing it has
  sent all of them, which is what the server with processes sends for the same input.
\<close>
theorem servers_agree:
  assumes "length garbage = MAX_LINE" and "session is (alloc_fd_state garbage) = Inr (sent, Some st)"
    and "length (received is) \<le> MAX_LINE"
  shows "prefix sent (map rot13_char (complete (received is)))
    \<and> (\<not> writing st \<longrightarrow> sent = concat (child (received is) []))"
proof -
  have "echoing [] (alloc_fd_state garbage) []" using fd_inv_alloc [OF assms(1)] by (simp add: echoing_def alloc_fd_state_def)
  then have e: "echoing (received is) st sent" using echoing_session [OF assms(2)] assms(3) by fastforce
  then obtain b where b: "sent = map rot13_char (take (b + n_written st) (received is))" "b + write_upto st = length (complete (received is))"
      and inv: "fd_inv st" by (auto simp: echoing_def)
  have "b + n_written st \<le> length (complete (received is))" using b(2) inv by (simp add: fd_inv_def)
  then have "prefix (take (b + n_written st) (received is)) (complete (received is))"
    using take_complete [of "received is"] by (metis min.absorb1 take_is_prefix take_take)
  then have "prefix sent (map rot13_char (complete (received is)))" using b(1) map_mono_prefix by blast
  moreover have "concat (child (received is) []) = map rot13_char (complete (received is))"
    using child_lines [of "[]" "received is"] assms(3) by simp
  moreover have "\<not> writing st \<longrightarrow> sent = map rot13_char (complete (received is))"
    using b inv take_complete [of "received is"] by (simp add: fd_inv_def)
  ultimately show ?thesis by simp
qed

theorem servers_agree_witness:
  "concat (child [104, 105, 10] []) = [117, 118, 10]"
proof -
  obtain st where "session greeting (alloc_fd_state (0 # 0 # 0 # replicate 16381 0)) = Inr ([117, 118, 10], Some st)" "\<not> writing st"
    using greeting_session by blast
  then show ?thesis using servers_agree [OF array_length, of greeting] greeting_received by (simp add: MAX_LINE_def)
qed

text \<open>
  The table of connections is accessed in range except for one descriptor.  With a table of
  \<open>FD_SETSIZE\<close> entries, the accepting branch indexes outside of it exactly when \<open>accept\<close> returns \<open>FD_SETSIZE\<close>:
  the guard rejects only larger descriptors.
\<close>
theorem accept_off_by_one:
  "(\<exists>s. accept_fd fd allocated (replicate FD_SETSIZE entry) = Inl (Undefined s)) \<longleftrightarrow> fd = int FD_SETSIZE"
  by (auto simp: accept_fd_def split: option.splits)

text \<open>
  An answer that is due when the client ends its stream is never sent.  Whatever was read together with the
  end of the stream, nothing is written to the connection any more and its state is freed.
\<close>
theorem answer_lost_at_eof:
  "serve_fd \<lparr> readable = Some (bufs, RecvEof), writable = w \<rparr> st = Inr ([], None)"
proof -
  have "fst (do_read bufs RecvEof st) = 1" by (induction bufs RecvEof st rule: do_read.induct) auto
  then show ?thesis by (cases "do_read bufs RecvEof st") (simp add: serve_fd_def)
qed

text \<open>\<open>rot13_char\<close> undoes itself.\<close>

lemma rot13_char_involution: "rot13_char (rot13_char c) = c"
proof -
  have "unat c + 13 < 256 \<Longrightarrow> unat (c + 13) = unat c + 13" by (simp add: unat_word_ariths)
  moreover have "13 \<le> unat c \<Longrightarrow> unat (c - 13) = unat c - 13" by (subst unat_sub) (auto simp: word_le_nat_alt)
  ultimately show ?thesis by (auto simp: rot13_char_def in_chars_def)
qed

end
