(* ===== verification/Event_Examples.thy ===== *)
theory Event_Examples
  imports Prelude "HOL-Library.Sublist"
begin

text \<open>
  The callbacks of the small libevent programs under \<open>libevent-example/\<close> and the session of
  \<open>asio/async_tcp_echo_server.cpp\<close>.  What a read returns is an argument, at most as much as it asks for; an array
  is as long as it is declared, and a write behind its end is undefined.
\<close>

definition c_text :: "byte list \<Rightarrow> byte list" where
  "c_text data = takeWhile (\<lambda>b. b \<noteq> 0) data"

definition ascii :: "string \<Rightarrow> byte list" where
  "ascii s = map (\<lambda>c. of_char c) s"

section \<open>server1.cpp and client1.cpp\<close>

text \<open>
  \<open>socket_read_cb\<close> of the server: \<open>None\<close> stands for a result of \<open>read\<close> that is not positive.  The result is what is
  written back, or \<open>None\<close> when the connection is closed.
\<close>

definition reply_prefix :: "byte list" where "reply_prefix = ascii ''I have recvieced the msg: ''"

definition s1_socket_read_cb :: "byte list option \<Rightarrow> exn + byte list option" where
  "s1_socket_read_cb got =
     (case got of
        None \<Rightarrow> Inr None
      | Some data \<Rightarrow>
          (let msg = c_text (take (4096 - 1) data) in
           if length reply_prefix + length msg + 1 > 4096 then Inl (Undefined ''strcat(reply_msg)'')
           else Inr (Some (reply_prefix @ msg))))"

text \<open>The client: a line of the terminal goes to the server, and what the server sends is printed.\<close>

definition c1_cmd_msg_cb :: "byte list option \<Rightarrow> exn + byte list" where
  "c1_cmd_msg_cb got = (case got of None \<Rightarrow> Inl (MsException ''read fail'') | Some data \<Rightarrow> Inr (take 1024 data))"

definition c1_socket_read_cb :: "byte list option \<Rightarrow> exn + byte list" where
  "c1_socket_read_cb got =
     (case got of
        None \<Rightarrow> Inl (MsException ''read fail'')
      | Some data \<Rightarrow>
          (let msg = take (1024 - 1) data in
           if length msg \<ge> 1024 then Inl (Undefined ''msg[len]'') else Inr (c_text msg)))"

section \<open>server3.cpp and client3.cpp\<close>

text \<open>
  \<open>bufferevent_read\<close> takes from the input buffer.  The results are what is printed, what is written, and what is
  left in the buffer.
\<close>

definition s3_reply :: "byte list" where "s3_reply = ascii ''I has read your data''"

definition s3_socket_read_cb :: "byte list \<Rightarrow> exn + (byte list \<times> byte list \<times> byte list)" where
  "s3_socket_read_cb input =
     (let msg = take (4096 - 1) input in
      if length msg \<ge> 4096 then Inl (Undefined ''msg[len]'') else Inr (c_text msg, s3_reply, drop (4096 - 1) input))"

definition c3_cmd_msg_cb :: "byte list option \<Rightarrow> exn + byte list" where
  "c3_cmd_msg_cb got = (case got of None \<Rightarrow> Inl (MsException ''read fail'') | Some data \<Rightarrow> Inr (take 1024 data))"

definition c3_server_msg_cb :: "byte list \<Rightarrow> exn + (byte list \<times> byte list)" where
  "c3_server_msg_cb input =
     (let msg = take 1024 input in
      if length msg \<ge> 1024 then Inl (Undefined ''msg[len]'') else Inr (c_text msg, drop 1024 input))"

text \<open>Whether the two event callbacks free the connection; the flags are those of libevent.\<close>

definition BEV_EVENT_EOF :: u16 where "BEV_EVENT_EOF = 0x10"
definition BEV_EVENT_ERROR :: u16 where "BEV_EVENT_ERROR = 0x20"
definition BEV_EVENT_CONNECTED :: u16 where "BEV_EVENT_CONNECTED = 0x80"

definition flag_set :: "u16 \<Rightarrow> u16 \<Rightarrow> bool" where
  "flag_set events flag \<longleftrightarrow> Bit_Operations.and events flag \<noteq> 0"

definition s3_socket_event_cb :: "u16 \<Rightarrow> bool" where
  "s3_socket_event_cb events = True"

definition c3_event_cb :: "u16 \<Rightarrow> bool" where
  "c3_event_cb event =
     (if flag_set event BEV_EVENT_EOF then True
      else if flag_set event BEV_EVENT_ERROR then True
      else \<not> flag_set event BEV_EVENT_CONNECTED)"

section \<open>server4.cpp and client4.cpp\<close>

text \<open>
  The client writes one block and sends back whatever it receives; so does the server.  The buffers of the two
  ends are the input and output buffers of their \<open>bufferevent\<close>s.
\<close>

record echo_loop =
  c_output :: "byte list"
  s_input :: "byte list"
  s_output :: "byte list"
  c_input :: "byte list"
  total_bytes_read :: nat
  total_messages_read :: nat

definition block :: "nat \<Rightarrow> byte list" where
  "block block_size = map (\<lambda>i. of_nat (i mod 128)) [0..<block_size]"

definition start_session :: "nat \<Rightarrow> echo_loop" where
  "start_session block_size = \<lparr> c_output = block block_size, s_input = [], s_output = [], c_input = [],
     total_bytes_read = 0, total_messages_read = 0 \<rparr>"

definition echo_read_cb :: "echo_loop \<Rightarrow> echo_loop" where
  "echo_read_cb l = l\<lparr> s_output := s_output l @ s_input l, s_input := [] \<rparr>"

definition echo_event_cb :: "u16 \<Rightarrow> byte list \<Rightarrow> bool \<times> nat" where
  "echo_event_cb events output =
     (flag_set events (Bit_Operations.or BEV_EVENT_EOF BEV_EVENT_ERROR), length output)"

definition readcb :: "echo_loop \<Rightarrow> echo_loop" where
  "readcb l = l\<lparr> total_messages_read := total_messages_read l + 1, total_bytes_read := total_bytes_read l + length (c_input l),
     c_output := c_output l @ c_input l, c_input := [] \<rparr>"

text \<open>The callbacks, and the network that takes the first \<open>n\<close> bytes of an output buffer to the other end.\<close>

inductive echo_step :: "echo_loop \<Rightarrow> echo_loop \<Rightarrow> bool" where
  at_server: "echo_step l (echo_read_cb l)"
| at_client: "echo_step l (readcb l)"
| to_server: "echo_step l (l\<lparr> s_input := s_input l @ take n (c_output l), c_output := drop n (c_output l) \<rparr>)"
| to_client: "echo_step l (l\<lparr> c_input := c_input l @ take n (s_output l), s_output := drop n (s_output l) \<rparr>)"

section \<open>example/server1.cpp and the asio session\<close>

text \<open>
  The loops of \<open>main\<close>: each \<open>send\<close> takes at least one byte of what is left or fails; \<open>recv\<close> returns pieces and then
  the end of the stream or an error (\<open>False\<close>).
\<close>

fun send_query :: "nat list \<Rightarrow> byte list \<Rightarrow> byte list \<times> bool" where
  "send_query rs [] = ([], True)"
| "send_query [] (c # cp) = ([], False)"
| "send_query (r # rs) (c # cp) =
     (if r = 0 then ([], False)
      else case send_query rs (drop r (c # cp)) of (sent, ok) \<Rightarrow> (take r (c # cp) @ sent, ok))"

fun get_answer :: "byte list list \<Rightarrow> bool \<Rightarrow> byte list \<times> int" where
  "get_answer [] fin = ([], if fin then 0 else 1)"
| "get_answer (buf # bufs) fin = (case get_answer bufs fin of (out, code) \<Rightarrow> (take 1024 buf @ out, code))"

text \<open>The asio session alternates between \<open>async_read_some\<close> and \<open>async_write\<close> until one of them fails.\<close>

definition max_length :: nat where "max_length = 10240000"

fun session_run :: "(byte list option \<times> bool) list \<Rightarrow> byte list" where
  "session_run [] = []"
| "session_run ((got, wrote) # es) =
     (case got of
        None \<Rightarrow> []
      | Some data \<Rightarrow> if wrote then take max_length data @ session_run es else [])"

section \<open>Lemmas\<close>

definition in_flight :: "echo_loop \<Rightarrow> byte list" where
  "in_flight l = c_input l @ s_output l @ s_input l @ c_output l"

lemma take_drop_append: "take n xs @ drop n xs @ ys = xs @ ys"
  by (metis append.assoc append_take_drop_id)

lemma echo_step_rotates:
  "echo_step l l' \<Longrightarrow> in_flight l = rotate (total_bytes_read l) b \<Longrightarrow> in_flight l' = rotate (total_bytes_read l') b"
proof (induction rule: echo_step.induct)
  case (at_client l)
  have "in_flight (readcb l) = rotate (length (c_input l)) (in_flight l)"
    by (simp add: in_flight_def readcb_def rotate_append)
  then show ?case using at_client by (simp add: readcb_def rotate_rotate add.commute)
qed (simp_all add: in_flight_def echo_read_cb_def take_drop_append)

lemma c_text_length: "length (c_text xs) \<le> length xs"
  by (simp add: c_text_def length_takeWhile_le)

lemma reply_prefix_length: "length reply_prefix = 26"
  by (simp add: reply_prefix_def ascii_def)

section \<open>Properties\<close>


text \<open>
  The client of \<open>client3.cpp\<close> writes one byte behind its array exactly when at least 1024 bytes have arrived:
  with the replies of \<open>server3.cpp\<close>, when 52 of them are waiting.
\<close>
theorem client3_off_by_one:
  "((\<exists>s. c3_server_msg_cb input = Inl (Undefined s)) \<longleftrightarrow> 1024 \<le> length input)
   \<and> ((\<exists>s. c3_server_msg_cb (concat (replicate k s3_reply)) = Inl (Undefined s)) \<longleftrightarrow> 52 \<le> k)"
proof -
  have iff: "(\<exists>s. c3_server_msg_cb xs = Inl (Undefined s)) \<longleftrightarrow> 1024 \<le> length xs" for xs
    by (simp add: c3_server_msg_cb_def Let_def)
  have "length (concat (replicate k s3_reply)) = 20 * k"
    by (simp add: length_concat sum_list_replicate s3_reply_def ascii_def)
  then show ?thesis using iff by auto
qed


text \<open>The whole block goes to the server, and two of its three bytes come back.\<close>

definition two_back :: echo_loop where
  "two_back = \<lparr> c_output = [0, 1], s_input = [], s_output = [2], c_input = [], total_bytes_read = 2, total_messages_read = 1 \<rparr>"

lemma two_back_run: "echo_step\<^sup>*\<^sup>* (start_session 3) two_back"
proof -
  let ?l = "\<lambda>a b c d. \<lparr> c_output = a, s_input = b, s_output = c, c_input = d, total_bytes_read = 0, total_messages_read = 0 \<rparr>"
  have start: "start_session 3 = ?l [0, 1, 2] [] [] []" by (simp add: start_session_def block_def upt_rec)
  have "echo_step (?l [0, 1, 2] [] [] []) (?l [] [0, 1, 2] [] [])" using to_server [of "?l [0, 1, 2] [] [] []" 3] by simp
  moreover have "echo_step (?l [] [0, 1, 2] [] []) (?l [] [] [0, 1, 2] [])"
    using at_server [of "?l [] [0, 1, 2] [] []"] by (simp add: echo_read_cb_def)
  moreover have "echo_step (?l [] [] [0, 1, 2] []) (?l [] [] [2] [0, 1])"
    using to_client [of "?l [] [] [0, 1, 2] []" 2] by (simp add: numeral_2_eq_2)
  moreover have "echo_step (?l [] [] [2] [0, 1]) two_back"
    using at_client [of "?l [] [] [2] [0, 1]"] by (simp add: readcb_def two_back_def numeral_2_eq_2)
  ultimately show ?thesis unfolding start by (meson rtranclp.rtrancl_into_rtrancl rtranclp.rtrancl_refl)
qed


text \<open>
  The query of \<open>example/server1.cpp\<close>: what is sent is a prefix of it, and all of it when the loop ends normally.
\<close>

lemma send_query_prefix: "prefix (fst (send_query rs q)) q \<and> (snd (send_query rs q) \<longrightarrow> fst (send_query rs q) = q)"
proof (induction rs q rule: send_query.induct)
  case (3 r rs c cp)
  show ?case
  proof (cases "r = 0")
    case False
    obtain sent ok where rec: "send_query rs (drop r (c # cp)) = (sent, ok)" by fastforce
    then have "prefix sent (drop r (c # cp))" "ok \<longrightarrow> sent = drop r (c # cp)" using 3 [OF False] by auto
    then show ?thesis using False rec by (simp add: prefix_def) (metis append.assoc append_take_drop_id)
  qed simp
qed simp_all

text \<open>The asio session sends a prefix of what it has read.\<close>

lemma session_echoes:
  "\<forall>(got, wrote) \<in> set es. case got of Some data \<Rightarrow> length data \<le> max_length | None \<Rightarrow> True \<Longrightarrow>
   prefix (session_run es) (concat (map (\<lambda>(got, wrote). case got of Some data \<Rightarrow> data | None \<Rightarrow> []) es))"
  by (induction es rule: session_run.induct) (auto split: option.splits)

end
