(* ===== verification/Zmq_Helpers.thy ===== *)
theory Zmq_Helpers
  imports Float_Conversions
begin

text \<open>
  \<open>zeromq/zhelpers.hpp\<close>: the helper functions of the ZeroMQ examples.  The parts that \<open>recv\<close> returns, the values of
  \<open>random\<close>, the version of the library and the system clock are arguments; what is printed is a string.
\<close>

section \<open>Numbers in text\<close>

definition radix_char :: "bool \<Rightarrow> nat \<Rightarrow> char" where
  "radix_char upper d = char_of (if d < 10 then 48 + d else (if upper then 55 else 87) + d)"

function number_text :: "nat \<Rightarrow> bool \<Rightarrow> nat \<Rightarrow> string" where
  "number_text base upper n =
     (if n < base \<or> base < 2 then [radix_char upper n] else number_text base upper (n div base) @ [radix_char upper (n mod base)])"
  by auto
termination
  by (relation "measure (\<lambda>(base, upper, n). n)") auto

declare number_text.simps [simp del]

text \<open>\<open>setw\<close> with the fill character 0.\<close>

definition padded :: "nat \<Rightarrow> string \<Rightarrow> string" where
  "padded w s = replicate (w - length s) (CHR ''0'') @ s"

section \<open>Random numbers and identities\<close>

text \<open>
  \<open>within(num)\<close> for a result \<open>r\<close> of \<open>random\<close>: \<open>num\<close> and \<open>r\<close> are rounded to \<open>float\<close>, and so is their product; the
  division by \<open>RAND_MAX + 1.0\<close>, a power of two, is exact.
\<close>

definition rand_limit :: nat where "rand_limit = 2 ^ 31"

definition random_within :: "nat \<Rightarrow> nat \<Rightarrow> nat" where
  "random_within num r = round_nat 24 (round_nat 24 num * round_nat 24 r) div rand_limit"

definition s_set_id :: "nat \<Rightarrow> nat \<Rightarrow> string" where
  "s_set_id r1 r2 = padded 4 (number_text 16 True (random_within 0x10000 r1)) @ ''-'' @ padded 4 (number_text 16 True (random_within 0x10000 r2))"

section \<open>Messages\<close>

definition s_recv :: "byte list \<Rightarrow> byte list" where
  "s_recv message = message"

definition s_send :: "byte list \<Rightarrow> byte list" where
  "s_send string = string"

text \<open>
  The lines that \<open>s_dump\<close> prints for the parts of a message.  \<open>hexa\<close> tells whether the stream has been switched to
  hexadecimal, which is never undone; a byte of a binary part is a signed \<open>char\<close> that is extended to 32 bits.
\<close>

definition is_text :: "byte list \<Rightarrow> bool" where
  "is_text data \<longleftrightarrow> list_all (\<lambda>b. \<not> (unat b < 32 \<or> unat b > 127)) data"

definition char_value :: "byte \<Rightarrow> int" where
  "char_value b = (if unat b < 128 then int (unat b) else int (unat b) - 256)"

definition hex_byte :: "byte \<Rightarrow> string" where
  "hex_byte b = padded 2 (number_text 16 False (nat (char_value b mod 2 ^ 32)))"

definition dump_line :: "bool \<Rightarrow> byte list \<Rightarrow> string" where
  "dump_line hexa data =
     ''['' @ padded 3 (number_text (if hexa then 16 else 10) False (length data)) @ '']''
     @ (if is_text data then map (char_of \<circ> unat) data else concat (map hex_byte data))"

fun s_dump :: "bool \<Rightarrow> byte list list \<Rightarrow> string list" where
  "s_dump hexa [] = []"
| "s_dump hexa (part # parts) = dump_line hexa part # s_dump (hexa \<or> \<not> is_text part) parts"

section \<open>Version and time\<close>

text \<open>\<open>s_version_assert\<close> ends the process when the result is false.\<close>

definition s_version_assert :: "int \<times> int \<Rightarrow> int \<Rightarrow> int \<Rightarrow> bool" where
  "s_version_assert version want_major want_minor =
     (case version of (major, minor) \<Rightarrow> \<not> (major < want_major \<or> major = want_major \<and> minor < want_minor))"

definition s_clock :: "int \<Rightarrow> int \<Rightarrow> int" where
  "s_clock tv_sec tv_usec = tv_sec * 1000 + tv_usec sdiv 1000"

text \<open>The seconds and nanoseconds that \<open>s_sleep\<close> passes to \<open>nanosleep\<close>; division truncates towards zero.\<close>

definition s_sleep :: "int \<Rightarrow> int \<times> int" where
  "s_sleep msecs = (msecs sdiv 1000, (msecs smod 1000) * 1000000)"

section \<open>Lemmas\<close>

lemma number_text_length: "2 \<le> base \<Longrightarrow> 0 < k \<Longrightarrow> length (number_text base upper n) \<le> k \<longleftrightarrow> n < base ^ k"
proof (induction base upper n arbitrary: k rule: number_text.induct)
  case (1 base upper n)
  show ?case
  proof (cases "n < base")
    case True
    moreover have "base ^ 1 \<le> base ^ k" using 1 by (intro power_increasing) auto
    ultimately show ?thesis using 1 by (simp add: number_text.simps [of base upper n])
  next
    case False
    then have len: "length (number_text base upper n) = length (number_text base upper (n div base)) + 1"
      using 1 by (simp add: number_text.simps [of base upper n])
    show ?thesis
    proof (cases "k = 1")
      case True
      have "number_text base upper (n div base) \<noteq> []" by (simp add: number_text.simps [of base upper "n div base"])
      then show ?thesis using False len True by simp
    next
      case k: False
      then obtain j where j: "k = Suc j" "0 < j" using 1 by (cases k) auto
      have "length (number_text base upper (n div base)) \<le> j \<longleftrightarrow> n div base < base ^ j"
        using 1 False j by (intro "1.IH") auto
      moreover have "n div base < base ^ j \<longleftrightarrow> n < base ^ k"
        using 1 by (simp add: j div_less_iff_less_mult mult.commute)
      ultimately show ?thesis using len j by simp
    qed
  qed
qed

lemma within_16_bits:
  assumes "r < rand_limit"
  shows "random_within 0x10000 r = 2 ^ 16 * round_nat 24 r div rand_limit" "round_nat 24 r \<le> rand_limit"
proof -
  obtain m where m: "m \<le> 2 ^ 24" "round_nat 24 r = m * 2 ^ excess 24 r" using round_form by blast
  have "round_nat 24 (0x10000 :: nat) = 0x10000" using round_scaled [of 1 24 16] by simp
  moreover have "round_nat 24 (m * 2 ^ (excess 24 r + 16)) = m * 2 ^ (excess 24 r + 16)" using m(1) by (intro round_scaled) simp_all
  ultimately show "random_within 0x10000 r = 2 ^ 16 * round_nat 24 r div rand_limit"
    by (simp add: random_within_def m(2) power_add ac_simps)
  have "excess 24 r \<le> 7" using excess_le [of r 24 7] assms by (simp add: rand_limit_def)
  then have "m * 2 ^ excess 24 r \<le> 2 ^ 24 * 2 ^ 7" using m(1) by (intro mult_le_mono power_increasing) simp_all
  then show "round_nat 24 r \<le> rand_limit" by (simp add: m(2) rand_limit_def)
qed

lemma within_values:
  assumes "r < rand_limit"
  shows "if rand_limit - 64 \<le> r then random_within 0x10000 r = 0x10000 else random_within 0x10000 r < 0x10000"
proof -
  have "round_nat 24 r = rand_limit \<longleftrightarrow> rand_limit - 64 \<le> r" using round_top [of r 24 6] assms by (simp add: rand_limit_def)
  then show ?thesis using within_16_bits [OF assms]
    by (auto simp: rand_limit_def div_less_iff_less_mult)
qed

lemma hex_width:
  assumes "x < 256"
  shows "length (padded 2 (number_text 16 False (nat ((if x < 128 then int x else int x - 256) mod 2 ^ 32)))) = (if x < 128 then 2 else 8)"
proof (cases "x < 128")
  case True
  then have "length (number_text 16 False x) \<le> 2" using number_text_length [of 16 2 False x] by simp
  moreover have "nat (int x mod 2 ^ 32) = x" using True by simp
  ultimately show ?thesis using True by (simp add: padded_def)
next
  case False
  let ?n = "x + (2 ^ 32 - 256)"
  have "(int x - 256) mod 2 ^ 32 = (int x - 256 + 2 ^ 32) mod 2 ^ 32" by (rule mod_add_self2 [symmetric])
  also have "\<dots> = int ?n" using assms by (subst mod_pos_pos_trivial) simp_all
  finally have "nat ((int x - 256) mod 2 ^ 32) = ?n" by simp
  moreover have "length (number_text 16 False ?n) = 8"
    using assms False number_text_length [of 16 7 False ?n] number_text_length [of 16 8 False ?n] by simp
  ultimately show ?thesis using False by (simp only: if_False) (simp add: padded_def)
qed

section \<open>Properties\<close>

text \<open>
  C36: \<open>within\<close> leaves its range.  For the 64 largest results of \<open>random\<close> the rounding to \<open>float\<close> makes
  \<open>within(0x10000)\<close> return \<open>0x10000\<close>, one more than the comment allows; for all others the result is in range.
\<close>
theorem within_range_except_top:
  assumes "r < rand_limit"
  shows "if rand_limit - 64 \<le> r then random_within 0x10000 r = 0x10000 else random_within 0x10000 r < 0x10000"
  using assms by (rule within_values)

theorem within_range_except_top_witness: "random_within 0x10000 (rand_limit - 1) = 0x10000 \<and> random_within 0x10000 5 < 0x10000"
  using within_range_except_top [of "rand_limit - 1"] within_range_except_top [of 5] by (simp add: rand_limit_def)

text \<open>
  An identity has nine characters, four digits on each side of the dash, except when one of the two numbers
  is out of range.
\<close>
theorem identity_length:
  assumes "r1 < rand_limit" and "r2 < rand_limit"
  shows "length (s_set_id r1 r2) = 9 \<longleftrightarrow> r1 < rand_limit - 64 \<and> r2 < rand_limit - 64"
proof -
  have len: "length (padded 4 (number_text 16 True (random_within 0x10000 r))) = (if rand_limit - 64 \<le> r then 5 else 4)"
    if r: "r < rand_limit" for r
  proof -
    have "length (number_text 16 True (random_within 0x10000 r)) \<le> 4 \<longleftrightarrow> random_within 0x10000 r < 16 ^ 4"
      "length (number_text 16 True (random_within 0x10000 r)) \<le> 5 \<longleftrightarrow> random_within 0x10000 r < 16 ^ 5"
      by (rule number_text_length; simp)+
    moreover have "if rand_limit - 64 \<le> r then random_within 0x10000 r = 0x10000 else random_within 0x10000 r < 0x10000"
      using r by (rule within_values)
    ultimately show ?thesis by (auto simp: padded_def split: if_splits)
  qed
  show ?thesis using len [OF assms(1)] len [OF assms(2)] by (auto simp: s_set_id_def)
qed

theorem identity_length_witness: "length (s_set_id 0 7) = 9 \<and> length (s_set_id 0 (rand_limit - 1)) \<noteq> 9"
  using identity_length [of 0 7] identity_length [of 0 "rand_limit - 1"] by (simp add: rand_limit_def)

text \<open>
  What \<open>s_dump\<close> prints for binary parts.  A byte from 128 on takes eight digits because its sign is extended,
  the others two, and every part after a binary one has its size in hexadecimal.
\<close>
theorem dump_after_binary:
  "(length (hex_byte b) = (if unat b < 128 then 2 else 8))
   \<and> (i < length parts \<longrightarrow> s_dump hexa parts ! i = dump_line (hexa \<or> (\<exists>j < i. \<not> is_text (parts ! j))) (parts ! i))"
proof (intro conjI impI)
  show "length (hex_byte b) = (if unat b < 128 then 2 else 8)"
    using hex_width [of "unat b"] unat_word_less [of b] by (simp only: hex_byte_def char_value_def) simp
next
  show "s_dump hexa parts ! i = dump_line (hexa \<or> (\<exists>j < i. \<not> is_text (parts ! j))) (parts ! i)" if "i < length parts"
    using that
  proof (induction parts arbitrary: hexa i)
    case (Cons part parts)
    then show ?case by (cases i) (simp_all add: Ex_less_Suc2 disj_commute disj_left_commute)
  qed simp
qed

theorem dump_after_binary_witness: "s_dump False [[200], [65]] ! 1 = dump_line True [65] \<and> length (hex_byte 200) = 8"
  using dump_after_binary [of 200 1 "[[200], [65]]" False] by (auto simp: is_text_def)

text \<open>
  The time that \<open>s_sleep\<close> asks for.  Seconds and nanoseconds add up to the milliseconds and there are less than
  \<open>10\<^sup>9\<close> nanoseconds; they are negative, which \<open>nanosleep\<close> refuses, exactly for a negative argument that is not a
  multiple of a second.
\<close>
theorem s_sleep_normalised:
  "fst (s_sleep msecs) * 10 ^ 9 + snd (s_sleep msecs) = msecs * 10 ^ 6 \<and> \<bar>snd (s_sleep msecs)\<bar> < 10 ^ 9
   \<and> (snd (s_sleep msecs) < 0) = (msecs < 0 \<and> msecs mod 1000 \<noteq> 0)"
proof -
  let ?q = "msecs sdiv 1000" and ?r = "msecs smod 1000"
  have "?q * 1000 + ?r = msecs" by (rule sdiv_mult_smod_eq)
  moreover have "\<bar>?r\<bar> < 1000" by (auto simp: signed_modulo_int_def abs_mult sgn_if)
  moreover have "?r < 0 \<longleftrightarrow> msecs < 0 \<and> msecs mod 1000 \<noteq> 0"
  proof (cases "msecs < 0")
    case True
    then have "?r = - (- msecs mod 1000)" by (simp add: signed_modulo_int_def)
    moreover have "0 \<le> - msecs mod 1000" by simp
    moreover have "- msecs mod 1000 = 0 \<longleftrightarrow> msecs mod 1000 = 0" by (simp only: mod_eq_0_iff_dvd dvd_minus_iff)
    ultimately show ?thesis using True by linarith
  qed (auto simp: signed_modulo_int_def sgn_if)
  ultimately show ?thesis unfolding s_sleep_def fst_conv snd_conv by (simp add: abs_mult mult_less_0_iff)
qed

text \<open>\<open>s_version_assert\<close> compares versions lexicographically.\<close>

lemma s_version_assert_total:
  "s_version_assert (a, b) c d \<or> s_version_assert (c, d) a b"
  "s_version_assert (a, b) c d \<Longrightarrow> s_version_assert (c, d) e f \<Longrightarrow> s_version_assert (a, b) e f"
  by (auto simp: s_version_assert_def)

end
