(* ===== verification/Seastar_Demo.thy ===== *)
theory Seastar_Demo
  imports Prelude
begin

text \<open>
  \<open>seastar/tcp_sctp_server_demo.cpp\<close> and \<open>seastar/tcp_sctp_client_demo.cpp\<close>: a server that answers pings and
  sends or receives a fixed amount of data, and the client that measures it.  A chain of futures is a task: one
  step of it runs from one suspension to the next.  The two ends of a connection are interleaved freely.
\<close>

section \<open>Streams\<close>

text \<open>
  One direction of a connection: the bytes written and not yet read, how many were written in all, and whether
  the writer has closed it.  A flushed write is there to read.
\<close>

record stream =
  unread :: string
  total :: nat
  closed :: bool

definition open_stream :: stream where "open_stream = \<lparr> unread = [], total = 0, closed = False \<rparr>"

definition write_stream :: "string \<Rightarrow> stream \<Rightarrow> stream" where
  "write_stream s st = st\<lparr> unread := unread st @ s, total := total st + length s \<rparr>"

definition close_stream :: "stream \<Rightarrow> stream" where
  "close_stream st = st\<lparr> closed := True \<rparr>"

text \<open>
  \<open>read_exactly\<close> waits (\<open>None\<close>) until there are \<open>n\<close> bytes or the stream has ended, when it returns what is
  left; the last result is the flag \<open>eof\<close>, which only such a short read sets.
\<close>

definition read_exactly :: "nat \<Rightarrow> stream \<Rightarrow> (string \<times> stream \<times> bool) option" where
  "read_exactly n st =
     (if n \<le> length (unread st) then Some (take n (unread st), st\<lparr> unread := drop n (unread st) \<rparr>, False)
      else if closed st then Some (unread st, st\<lparr> unread := [] \<rparr>, True)
      else None)"

section \<open>The server's connection\<close>

definition str_ping :: string where "str_ping = ''ping''"
definition str_txtx :: string where "str_txtx = ''txtx''"
definition str_rxrx :: string where "str_rxrx = ''rxrx''"
definition str_pong :: string where "str_pong = ''pong''"
definition str_unknow :: string where "str_unknow = ''unknow cmd''"
definition tx_msg_total_size :: nat where "tx_msg_total_size = 100 * 1024 * 1024"
definition srv_tx_msg_size :: nat where "srv_tx_msg_size = 4 * 1024"
definition srv_tx_msg_nr :: nat where "srv_tx_msg_nr = tx_msg_total_size div srv_tx_msg_size"
definition srv_rx_msg_size :: nat where "srv_rx_msg_size = 4 * 1024"
definition srv_str_txbuf :: string where "srv_str_txbuf = replicate srv_tx_msg_size CHR ''X''"

text \<open>
  The function that runs next.  A finished task has deleted its connection, which ends what it sends.
\<close>

datatype srv_task = SrvRead | SrvDoWrite nat | SrvDoRead | SrvDone

record srv_conn =
  task :: srv_task
  eof :: bool

definition srv_finish :: "srv_conn \<Rightarrow> stream \<Rightarrow> stream \<Rightarrow> (srv_conn \<times> stream \<times> stream) option" where
  "srv_finish c inp out = Some (c\<lparr> task := SrvDone \<rparr>, inp, close_stream out)"

definition srv_read :: "srv_conn \<Rightarrow> stream \<Rightarrow> stream \<Rightarrow> (srv_conn \<times> stream \<times> stream) option" where
  "srv_read c inp out =
     (if eof c then srv_finish c inp out
      else case read_exactly 4 inp of
        None \<Rightarrow> None
      | Some (cmd, inp', e) \<Rightarrow>
          (let c' = c\<lparr> eof := e \<rparr> in
           if cmd = [] then srv_finish c' inp' out
           else if cmd = str_ping then Some (c'\<lparr> task := SrvRead \<rparr>, inp', write_stream str_pong out)
           else if cmd = str_txtx then Some (c'\<lparr> task := SrvDoWrite srv_tx_msg_nr \<rparr>, inp', out)
           else if cmd = str_rxrx then Some (c'\<lparr> task := SrvDoRead \<rparr>, inp', out)
           else srv_finish c' inp' (write_stream str_unknow out)))"

fun srv_do_write :: "nat \<Rightarrow> srv_conn \<Rightarrow> stream \<Rightarrow> stream \<Rightarrow> (srv_conn \<times> stream \<times> stream) option" where
  "srv_do_write 0 c inp out = srv_finish c inp out"
| "srv_do_write (Suc end') c inp out = Some (c\<lparr> task := SrvDoWrite end' \<rparr>, inp, write_stream srv_str_txbuf out)"

definition srv_do_read :: "srv_conn \<Rightarrow> stream \<Rightarrow> stream \<Rightarrow> (srv_conn \<times> stream \<times> stream) option" where
  "srv_do_read c inp out =
     (case read_exactly srv_rx_msg_size inp of
        None \<Rightarrow> None
      | Some (buf, inp', e) \<Rightarrow>
          (if buf = [] then srv_finish (c\<lparr> eof := e \<rparr>) inp' out else Some (c\<lparr> eof := e \<rparr>, inp', out)))"

definition srv_step :: "srv_conn \<Rightarrow> stream \<Rightarrow> stream \<Rightarrow> (srv_conn \<times> stream \<times> stream) option" where
  "srv_step c inp out =
     (case task c of
        SrvRead \<Rightarrow> srv_read c inp out
      | SrvDoWrite end' \<Rightarrow> srv_do_write end' c inp out
      | SrvDoRead \<Rightarrow> srv_do_read c inp out
      | SrvDone \<Rightarrow> None)"

section \<open>The client's connection\<close>

definition cli_rx_msg_size :: nat where "cli_rx_msg_size = 100"
definition cli_tx_msg_size :: nat where "cli_tx_msg_size = 100"
definition cli_tx_msg_nr :: nat where "cli_tx_msg_nr = tx_msg_total_size div cli_tx_msg_size"
definition cli_str_txbuf :: string where "cli_str_txbuf = replicate cli_tx_msg_size CHR ''X''"

text \<open>\<open>Ping\<close>, \<open>Rxrx\<close> and \<open>Txtx\<close> are the starts of the functions, the others what they wait for.\<close>

datatype cli_task = Ping nat | AwaitPong nat | Rxrx | CliDoWrite nat | Txtx | CliDoRead | CliDone

record cli_conn =
  cli_task :: cli_task
  bytes_read :: nat
  bytes_write :: nat
  illegal :: "nat list"

definition cli_finish :: "cli_conn \<Rightarrow> stream \<Rightarrow> stream \<Rightarrow> (cli_conn \<times> stream \<times> stream) option" where
  "cli_finish c inp out = Some (c\<lparr> cli_task := CliDone \<rparr>, inp, close_stream out)"

definition cli_await_pong :: "nat \<Rightarrow> cli_conn \<Rightarrow> stream \<Rightarrow> stream \<Rightarrow> (cli_conn \<times> stream \<times> stream) option" where
  "cli_await_pong rounds c inp out =
     (case read_exactly 4 inp of
        None \<Rightarrow> None
      | Some (buf, inp', e) \<Rightarrow>
          (if length buf \<noteq> 4 then cli_finish (c\<lparr> illegal := illegal c @ [length buf] \<rparr>) inp' out
           else if buf \<noteq> str_pong then cli_finish (c\<lparr> illegal := illegal c @ [length buf] \<rparr>) inp' out
           else if rounds > 0 then Some (c\<lparr> cli_task := Ping (rounds - 1) \<rparr>, inp', out)
           else cli_finish c inp' out))"

definition ping :: "nat \<Rightarrow> cli_conn \<Rightarrow> stream \<Rightarrow> stream \<Rightarrow> (cli_conn \<times> stream \<times> stream) option" where
  "ping rounds c inp out = Some (c\<lparr> cli_task := AwaitPong rounds \<rparr>, inp, write_stream ''ping'' out)"

fun cli_do_write :: "nat \<Rightarrow> cli_conn \<Rightarrow> stream \<Rightarrow> stream \<Rightarrow> (cli_conn \<times> stream \<times> stream) option" where
  "cli_do_write 0 c inp out = cli_finish c inp out"
| "cli_do_write (Suc end') c inp out =
     Some (c\<lparr> cli_task := CliDoWrite end', bytes_write := bytes_write c + cli_tx_msg_size \<rparr>, inp, write_stream cli_str_txbuf out)"

definition rxrx :: "cli_conn \<Rightarrow> stream \<Rightarrow> stream \<Rightarrow> (cli_conn \<times> stream \<times> stream) option" where
  "rxrx c inp out = Some (c\<lparr> cli_task := CliDoWrite cli_tx_msg_nr \<rparr>, inp, write_stream ''rxrx'' out)"

definition cli_do_read :: "cli_conn \<Rightarrow> stream \<Rightarrow> stream \<Rightarrow> (cli_conn \<times> stream \<times> stream) option" where
  "cli_do_read c inp out =
     (case read_exactly cli_rx_msg_size inp of
        None \<Rightarrow> None
      | Some (buf, inp', e) \<Rightarrow>
          (let c' = c\<lparr> bytes_read := bytes_read c + length buf \<rparr>
           in if buf = [] then cli_finish c' inp' out else Some (c', inp', out)))"

definition txtx :: "cli_conn \<Rightarrow> stream \<Rightarrow> stream \<Rightarrow> (cli_conn \<times> stream \<times> stream) option" where
  "txtx c inp out = Some (c\<lparr> cli_task := CliDoRead \<rparr>, inp, write_stream ''txtx'' out)"

definition cli_step :: "cli_conn \<Rightarrow> stream \<Rightarrow> stream \<Rightarrow> (cli_conn \<times> stream \<times> stream) option" where
  "cli_step c inp out =
     (case cli_task c of
        Ping rounds \<Rightarrow> ping rounds c inp out
      | AwaitPong rounds \<Rightarrow> cli_await_pong rounds c inp out
      | Rxrx \<Rightarrow> rxrx c inp out
      | CliDoWrite end' \<Rightarrow> cli_do_write end' c inp out
      | Txtx \<Rightarrow> txtx c inp out
      | CliDoRead \<Rightarrow> cli_do_read c inp out
      | CliDone \<Rightarrow> None)"

section \<open>The connection as a whole\<close>

record link =
  server :: srv_conn
  client :: cli_conn
  to_server :: stream
  to_client :: stream

definition connected :: "cli_task \<Rightarrow> link" where
  "connected t = \<lparr> server = \<lparr> task = SrvRead, eof = False \<rparr>,
     client = \<lparr> cli_task = t, bytes_read = 0, bytes_write = 0, illegal = [] \<rparr>,
     to_server = open_stream, to_client = open_stream \<rparr>"

inductive link_step :: "link \<Rightarrow> link \<Rightarrow> bool" where
  by_server: "srv_step (server l) (to_server l) (to_client l) = Some (s, inp, out) \<Longrightarrow>
     link_step l (l\<lparr> server := s, to_server := inp, to_client := out \<rparr>)"
| by_client: "cli_step (client l) (to_client l) (to_server l) = Some (c, inp, out) \<Longrightarrow>
     link_step l (l\<lparr> client := c, to_client := inp, to_server := out \<rparr>)"

section \<open>Termination\<close>

text \<open>
  Every step lowers a weight: a byte to the server counts 3, a byte to the client 1, and a task as much as it can
  still write.
\<close>

fun srv_weight :: "srv_task \<Rightarrow> nat" where
  "srv_weight SrvRead = Suc (srv_tx_msg_nr * Suc srv_tx_msg_size) + 11"
| "srv_weight (SrvDoWrite n) = Suc (n * Suc srv_tx_msg_size)"
| "srv_weight SrvDoRead = 1"
| "srv_weight SrvDone = 0"

fun cli_weight :: "cli_task \<Rightarrow> nat" where
  "cli_weight (Ping t) = 14 * t + 14"
| "cli_weight (AwaitPong t) = 14 * t + 1"
| "cli_weight Rxrx = Suc (cli_tx_msg_nr * Suc (3 * cli_tx_msg_size)) + 13"
| "cli_weight (CliDoWrite n) = Suc (n * Suc (3 * cli_tx_msg_size))"
| "cli_weight Txtx = 14"
| "cli_weight CliDoRead = 1"
| "cli_weight CliDone = 0"

definition weight :: "link \<Rightarrow> nat" where
  "weight l = srv_weight (task (server l)) + cli_weight (cli_task (client l))
     + 3 * length (unread (to_server l)) + length (unread (to_client l))"

lemmas stream_defs = write_stream_def close_stream_def open_stream_def
lemmas cmd_defs = str_ping_def str_pong_def str_txtx_def str_rxrx_def str_unknow_def

lemma read_exactly_weight:
  "read_exactly n st = Some (buf, st', e) \<Longrightarrow> length (unread st) = length buf + length (unread st') \<and> total st' = total st
     \<and> closed st' = closed st \<and> length buf \<le> n"
  by (auto simp: read_exactly_def split: if_splits)

lemma srv_step_weight:
  assumes "srv_step c inp out = Some (c', inp', out')"
  shows "srv_weight (task c') + 3 * length (unread inp') + length (unread out')
     < srv_weight (task c) + 3 * length (unread inp) + length (unread out)"
proof (cases "task c")
  case SrvRead
  then have step: "srv_read c inp out = Some (c', inp', out')" using assms by (simp add: srv_step_def)
  show ?thesis
  proof (cases "eof c")
    case True
    then show ?thesis using step SrvRead by (auto simp: srv_read_def srv_finish_def stream_defs)
  next
    case False
    then obtain cmd i e where r: "read_exactly 4 inp = Some (cmd, i, e)"
      using step by (auto simp: srv_read_def split: option.splits)
    show ?thesis using step False r SrvRead read_exactly_weight [OF r]
      by (auto simp: srv_read_def srv_finish_def stream_defs cmd_defs Let_def split: if_splits)
  qed
next
  case (SrvDoWrite n)
  then show ?thesis using assms
    by (cases n) (auto simp: srv_step_def srv_finish_def stream_defs srv_str_txbuf_def)
next
  case SrvDoRead
  then obtain buf i e where r: "read_exactly srv_rx_msg_size inp = Some (buf, i, e)"
    using assms by (auto simp: srv_step_def srv_do_read_def split: option.splits)
  show ?thesis using assms SrvDoRead r read_exactly_weight [OF r]
    by (auto simp: srv_step_def srv_do_read_def srv_finish_def stream_defs split: if_splits)
next
  case SrvDone
  then show ?thesis using assms by (simp add: srv_step_def)
qed

lemma cli_step_weight:
  assumes "cli_step c inp out = Some (c', inp', out')"
  shows "cli_weight (cli_task c') + length (unread inp') + 3 * length (unread out')
     < cli_weight (cli_task c) + length (unread inp) + 3 * length (unread out)"
proof (cases "cli_task c")
  case (AwaitPong t)
  then obtain buf i e where r: "read_exactly 4 inp = Some (buf, i, e)"
    using assms by (auto simp: cli_step_def cli_await_pong_def split: option.splits)
  show ?thesis using assms AwaitPong r read_exactly_weight [OF r]
    by (auto simp: cli_step_def cli_await_pong_def cli_finish_def stream_defs split: if_splits)
next
  case (CliDoWrite n)
  then show ?thesis using assms
    by (cases n) (auto simp: cli_step_def cli_finish_def stream_defs cli_str_txbuf_def)
next
  case CliDoRead
  then obtain buf i e where r: "read_exactly cli_rx_msg_size inp = Some (buf, i, e)"
    using assms by (auto simp: cli_step_def cli_do_read_def split: option.splits)
  show ?thesis using assms CliDoRead r read_exactly_weight [OF r]
    by (auto simp: cli_step_def cli_do_read_def cli_finish_def stream_defs Let_def split: if_splits)
qed (use assms in \<open>auto simp: cli_step_def ping_def rxrx_def txtx_def stream_defs\<close>)

lemma link_step_weight: "link_step l l' \<Longrightarrow> weight l' < weight l"
proof (induction rule: link_step.induct)
  case (by_server l s inp out)
  then show ?case using srv_step_weight [OF by_server] by (simp add: weight_def)
next
  case (by_client l c inp out)
  then show ?case using cli_step_weight [OF by_client] by (simp add: weight_def)
qed

section \<open>The tests\<close>

text \<open>A step of a connection is a step of one of its ends; a connection that cannot step has two ends that cannot.\<close>

lemma link_step_cases:
  assumes "link_step l l'"
  obtains s inp out where "srv_step (server l) (to_server l) (to_client l) = Some (s, inp, out)"
      "l' = l\<lparr> server := s, to_server := inp, to_client := out \<rparr>"
  | c inp out where "cli_step (client l) (to_client l) (to_server l) = Some (c, inp, out)"
      "l' = l\<lparr> client := c, to_client := inp, to_server := out \<rparr>"
  using assms by (cases rule: link_step.cases) blast+

definition stuck :: "link \<Rightarrow> bool" where
  "stuck l \<longleftrightarrow> srv_step (server l) (to_server l) (to_client l) = None \<and> cli_step (client l) (to_client l) (to_server l) = None"

lemma stuck_iff: "stuck l \<longleftrightarrow> (\<nexists>l'. link_step l l')"
  unfolding stuck_def by (metis link_step.simps not_None_eq prod_cases3)

lemma invariant_run:
  assumes "link_step\<^sup>*\<^sup>* l l'" "P l" "\<And>a b. P a \<Longrightarrow> link_step a b \<Longrightarrow> P b"
  shows "P l'"
  using assms by (induction rule: rtranclp_induct) blast+

lemmas server_defs = srv_step_def srv_read_def srv_do_read_def srv_finish_def
lemmas client_defs = cli_step_def ping_def cli_await_pong_def rxrx_def txtx_def cli_do_read_def cli_finish_def
lemmas size_defs = tx_msg_total_size_def srv_tx_msg_size_def srv_tx_msg_nr_def srv_rx_msg_size_def srv_str_txbuf_def
  cli_rx_msg_size_def cli_tx_msg_size_def cli_tx_msg_nr_def cli_str_txbuf_def

abbreviation reading :: srv_conn where "reading \<equiv> \<lparr> task = SrvRead, eof = False \<rparr>"
abbreviation ended :: srv_conn where "ended \<equiv> \<lparr> task = SrvDone, eof = True \<rparr>"
abbreviation strm :: "string \<Rightarrow> nat \<Rightarrow> bool \<Rightarrow> stream" where "strm u t c \<equiv> \<lparr> unread = u, total = t, closed = c \<rparr>"

lemma srv_read_waits: "srv_read c i out = None \<longleftrightarrow> \<not> eof c \<and> read_exactly 4 i = None"
  by (auto simp: srv_read_def srv_finish_def Let_def split: option.splits)

lemma srv_do_read_waits: "srv_do_read c i out = None \<longleftrightarrow> read_exactly srv_rx_msg_size i = None"
  by (auto simp: srv_do_read_def srv_finish_def split: option.splits)

lemma read_exactly_waits: "read_exactly n st = None \<longleftrightarrow> length (unread st) < n \<and> \<not> closed st"
  by (auto simp: read_exactly_def)

lemmas waits = srv_read_waits srv_do_read_waits read_exactly_waits

text \<open>\<open>ping n\<close>: at most one ping or pong is under way.\<close>

fun ping_phase :: "nat \<Rightarrow> cli_task \<Rightarrow> srv_conn \<Rightarrow> stream \<Rightarrow> stream \<Rightarrow> bool" where
  "ping_phase n (Ping t) s i out \<longleftrightarrow> t \<le> n \<and> s = reading \<and> i = strm [] (4 * (n - t)) False \<and> out = strm [] (4 * (n - t)) False"
| "ping_phase n (AwaitPong t) s i out \<longleftrightarrow> t \<le> n \<and> s = reading \<and>
     (i = strm str_ping (4 * (n - t) + 4) False \<and> out = strm [] (4 * (n - t)) False \<or>
      i = strm [] (4 * (n - t) + 4) False \<and> out = strm str_pong (4 * (n - t) + 4) False)"
| "ping_phase n CliDone s i out \<longleftrightarrow> i = strm [] (4 * n + 4) True \<and>
     (s = reading \<and> out = strm [] (4 * n + 4) False \<or> s = ended \<and> out = strm [] (4 * n + 4) True)"
| "ping_phase n _ s i out \<longleftrightarrow> False"

definition ping_inv :: "nat \<Rightarrow> link \<Rightarrow> bool" where
  "ping_inv n l \<longleftrightarrow> illegal (client l) = [] \<and> ping_phase n (cli_task (client l)) (server l) (to_server l) (to_client l)"

lemma ping_inv_server:
  "ping_phase n t s i out \<Longrightarrow> srv_step s i out = Some (s', i', out') \<Longrightarrow> ping_phase n t s' i' out'"
  by (cases t) (auto simp: server_defs read_exactly_def stream_defs cmd_defs)

lemma ping_inv_client:
  assumes "ping_phase n (cli_task c) s i out" "illegal c = []" "cli_step c out i = Some (c', out', i')"
  shows "ping_phase n (cli_task c') s i' out' \<and> illegal c' = []"
  using assms by (cases "cli_task c") (auto simp: client_defs read_exactly_def stream_defs cmd_defs split: if_splits)

lemma ping_inv_step: "ping_inv n l \<Longrightarrow> link_step l l' \<Longrightarrow> ping_inv n l'"
  by (erule link_step_cases) (auto simp: ping_inv_def dest: ping_inv_server ping_inv_client)

lemma ping_inv_stuck:
  assumes "ping_inv n l" "stuck l"
  shows "cli_task (client l) = CliDone \<and> task (server l) = SrvDone \<and> illegal (client l) = []
    \<and> to_server l = strm [] (4 * n + 4) True \<and> to_client l = strm [] (4 * n + 4) True"
  using assms by (cases "cli_task (client l)")
    (auto simp: ping_inv_def stuck_def server_defs client_defs read_exactly_def cmd_defs split: if_splits)

text \<open>\<open>rxrx\<close>: what the client has written is what the server has read and what is under way.\<close>

fun rxrx_phase :: "cli_conn \<Rightarrow> srv_conn \<Rightarrow> stream \<Rightarrow> stream \<Rightarrow> bool" where
  "rxrx_phase c s i out \<longleftrightarrow> illegal c = [] \<and> total i = bytes_write c + (if cli_task c = Rxrx then 0 else 4) \<and> unread out = [] \<and> total out = 0 \<and>
     (case cli_task c of
        Rxrx \<Rightarrow> bytes_write c = 0 \<and> s = reading \<and> i = open_stream \<and> out = open_stream
      | CliDoWrite n \<Rightarrow> bytes_write c + n * cli_tx_msg_size = tx_msg_total_size \<and> \<not> closed i \<and>
          (s = reading \<and> 4 \<le> length (unread i) \<and> take 4 (unread i) = str_rxrx \<or> s = \<lparr> task = SrvDoRead, eof = False \<rparr>)
      | CliDone \<Rightarrow> bytes_write c = tx_msg_total_size \<and> closed i \<and>
          (s = reading \<and> 4 \<le> length (unread i) \<and> take 4 (unread i) = str_rxrx \<or> task s = SrvDoRead \<or> task s = SrvDone \<and> unread i = [])
      | _ \<Rightarrow> False)"

declare rxrx_phase.simps [simp del]

lemma rxrx_server:
  assumes "rxrx_phase c s i out" "srv_step s i out = Some (s', i', out')"
  shows "rxrx_phase c s' i' out'"
  using assms by (cases "cli_task c")
    (auto simp: rxrx_phase.simps server_defs read_exactly_def stream_defs cmd_defs srv_rx_msg_size_def split: if_splits)

lemma rxrx_client:
  assumes "rxrx_phase c s i out" "cli_step c out i = Some (c', out', i')"
  shows "rxrx_phase c' s i' out'"
proof (cases "cli_task c")
  case Rxrx
  then show ?thesis using assms
    by (auto simp: rxrx_phase.simps client_defs stream_defs cmd_defs size_defs)
next
  case (CliDoWrite n)
  then show ?thesis using assms
    by (cases n) (auto simp: rxrx_phase.simps client_defs stream_defs cli_str_txbuf_def)
qed (use assms in \<open>auto simp: rxrx_phase.simps cli_step_def\<close>)

lemma rxrx_stuck:
  assumes "rxrx_phase (client l) (server l) (to_server l) (to_client l)" "stuck l"
  shows "cli_task (client l) = CliDone \<and> task (server l) = SrvDone \<and> illegal (client l) = [] \<and> bytes_write (client l) = tx_msg_total_size
    \<and> unread (to_server l) = [] \<and> total (to_server l) = tx_msg_total_size + 4"
proof (cases "cli_task (client l)")
  case (CliDoWrite n)
  then show ?thesis using assms by (cases n) (auto simp: stuck_def client_defs)
next
  case CliDone
  then show ?thesis using assms
    by (auto simp: rxrx_phase.simps stuck_def srv_step_def waits split: srv_task.splits)
qed (use assms in \<open>auto simp: rxrx_phase.simps stuck_def client_defs\<close>)

text \<open>\<open>txtx\<close>: what the client has read, what is under way and what the server will write make the whole.\<close>

fun txtx_phase :: "cli_conn \<Rightarrow> srv_conn \<Rightarrow> stream \<Rightarrow> stream \<Rightarrow> bool" where
  "txtx_phase c s i out \<longleftrightarrow> illegal c = [] \<and>
     (case cli_task c of
        Txtx \<Rightarrow> bytes_read c = 0 \<and> s = reading \<and> i = open_stream \<and> out = open_stream
      | CliDoRead \<Rightarrow> \<not> closed i \<and>
          (s = reading \<and> unread i = str_txtx \<and> out = open_stream \<and> bytes_read c = 0
           \<or> (\<exists>n. task s = SrvDoWrite n \<and> \<not> closed out \<and> bytes_read c + length (unread out) + n * srv_tx_msg_size = tx_msg_total_size)
           \<or> task s = SrvDone \<and> closed out \<and> bytes_read c + length (unread out) = tx_msg_total_size)
      | CliDone \<Rightarrow> task s = SrvDone \<and> bytes_read c = tx_msg_total_size \<and> unread out = []
      | _ \<Rightarrow> False)"

declare txtx_phase.simps [simp del]

lemma txtx_server:
  assumes "txtx_phase c s i out" "srv_step s i out = Some (s', i', out')"
  shows "txtx_phase c s' i' out'"
proof (cases "cli_task c")
  case Txtx
  then show ?thesis using assms
    by (auto simp: txtx_phase.simps server_defs read_exactly_def stream_defs)
next
  case CliDoRead
  have sizes: "srv_tx_msg_nr * srv_tx_msg_size = tx_msg_total_size" by (simp add: size_defs)
  consider "task s = SrvRead" | n where "task s = SrvDoWrite n" | "task s = SrvDone"
    using assms(1) CliDoRead by (auto simp: txtx_phase.simps)
  then show ?thesis
  proof cases
    case 1
    then show ?thesis using assms CliDoRead sizes
      by (auto simp: txtx_phase.simps server_defs read_exactly_def stream_defs cmd_defs)
  next
    case (2 n)
    then show ?thesis using assms CliDoRead
      by (cases n) (auto simp: txtx_phase.simps server_defs stream_defs srv_str_txbuf_def)
  next
    case 3
    then show ?thesis using assms by (simp add: srv_step_def)
  qed
qed (use assms in \<open>auto simp: txtx_phase.simps srv_step_def\<close>)

lemma txtx_client:
  assumes "txtx_phase c s i out" "cli_step c out i = Some (c', out', i')"
  shows "txtx_phase c' s i' out'"
proof (cases "cli_task c")
  case Txtx
  then show ?thesis using assms
    by (auto simp: txtx_phase.simps client_defs stream_defs cmd_defs)
next
  case CliDoRead
  then show ?thesis using assms
    by (auto simp: txtx_phase.simps client_defs read_exactly_def stream_defs Let_def cli_rx_msg_size_def split: if_splits)
qed (use assms in \<open>auto simp: txtx_phase.simps cli_step_def\<close>)

lemma txtx_stuck:
  assumes "txtx_phase (client l) (server l) (to_server l) (to_client l)" "stuck l"
  shows "cli_task (client l) = CliDone \<and> task (server l) = SrvDone \<and> illegal (client l) = [] \<and> bytes_read (client l) = tx_msg_total_size"
proof (cases "cli_task (client l)")
  case CliDoRead
  consider "task (server l) = SrvRead" | n where "task (server l) = SrvDoWrite n" | "task (server l) = SrvDone"
    using assms(1) CliDoRead by (auto simp: txtx_phase.simps)
  then show ?thesis
  proof cases
    case 1
    then show ?thesis using assms CliDoRead
      by (auto simp: txtx_phase.simps stuck_def server_defs read_exactly_def cmd_defs)
  next
    case (2 n)
    then show ?thesis using assms by (cases n) (auto simp: stuck_def server_defs)
  next
    case 3
    then show ?thesis using assms CliDoRead
      by (auto simp: txtx_phase.simps stuck_def client_defs read_exactly_def Let_def split: if_splits)
  qed
qed (use assms in \<open>auto simp: txtx_phase.simps stuck_def client_defs\<close>)

lemma phase_run:
  assumes "link_step\<^sup>*\<^sup>* l l'" "Q (client l) (server l) (to_server l) (to_client l)"
    and srv: "\<And>c s i out s' i' out'. Q c s i out \<Longrightarrow> srv_step s i out = Some (s', i', out') \<Longrightarrow> Q c s' i' out'"
    and cli: "\<And>c s i out c' i' out'. Q c s i out \<Longrightarrow> cli_step c out i = Some (c', out', i') \<Longrightarrow> Q c' s i' out'"
  shows "Q (client l') (server l') (to_server l') (to_client l')"
  using assms(1,2)
proof (rule invariant_run)
  fix a b
  assume q: "Q (client a) (server a) (to_server a) (to_client a)" and "link_step a b"
  from this(2) show "Q (client b) (server b) (to_server b) (to_client b)"
    by (cases rule: link_step_cases) (use srv [OF q] cli [OF q] in auto)
qed

section \<open>Reports\<close>

text \<open>
  The client object of one core: \<open>_num_reported\<close> and \<open>_processed_bytes\<close> have no initial value of their own; the
  instances of \<open>distributed\<close> are value-initialised, which the model takes for granted in \<open>start\<close>.
\<close>

definition pings_per_connection :: "32 word" where "pings_per_connection = 10000"
definition time_point_max :: int where "time_point_max = 2 ^ 63 - 1"
definition time_point_min :: int where "time_point_min = - (2 ^ 63)"

record bench_client =
  total_pings :: "32 word"
  concurrent_connections :: "32 word"
  earliest_started :: int
  latest_finished :: int
  processed_bytes :: "64 word"
  num_reported :: "32 word"

definition new_bench_client :: bench_client where
  "new_bench_client = \<lparr> total_pings = 0, concurrent_connections = 0, earliest_started = time_point_max,
     latest_finished = time_point_min, processed_bytes = 0, num_reported = 0 \<rparr>"

definition bench_start :: "32 word \<Rightarrow> 32 word \<Rightarrow> bench_client \<Rightarrow> bench_client" where
  "bench_start ncon smp_count c =
     c\<lparr> concurrent_connections := ncon * smp_count, total_pings := pings_per_connection * (ncon * smp_count) \<rparr>"

text \<open>What a report prints: the connections, the pings or bytes, and the elapsed time.\<close>

datatype report = PingReport "32 word" "32 word" int | RxtxReport "32 word" "64 word" int

definition note_times :: "int \<Rightarrow> int \<Rightarrow> bench_client \<Rightarrow> bench_client" where
  "note_times started finished c =
     (let c1 = (if earliest_started c > started then c\<lparr> earliest_started := started \<rparr> else c)
      in if latest_finished c1 < finished then c1\<lparr> latest_finished := finished \<rparr> else c1)"

definition ping_report :: "int \<Rightarrow> int \<Rightarrow> bench_client \<Rightarrow> bench_client \<times> report list" where
  "ping_report started finished c =
     (let c1 = note_times started finished c;
          c2 = c1\<lparr> num_reported := num_reported c1 + 1 \<rparr>
      in (c2, if num_reported c2 = concurrent_connections c2
              then [PingReport (concurrent_connections c2) (total_pings c2) (latest_finished c2 - earliest_started c2)] else []))"

definition rxtx_report :: "int \<Rightarrow> int \<Rightarrow> 64 word \<Rightarrow> bench_client \<Rightarrow> bench_client \<times> report list" where
  "rxtx_report started finished bytes c =
     (let c1 = note_times started finished c;
          c2 = c1\<lparr> processed_bytes := processed_bytes c1 + bytes \<rparr>;
          c3 = c2\<lparr> num_reported := num_reported c2 + 1 \<rparr>
      in (c3, if num_reported c3 = concurrent_connections c3
              then [RxtxReport (concurrent_connections c3) (processed_bytes c3 div 1024 div 1024) (latest_finished c3 - earliest_started c3)] else []))"

text \<open>The reports of all the connections, in the order in which they arrive.\<close>

fun rxtx_reports :: "(int \<times> int \<times> 64 word) list \<Rightarrow> bench_client \<Rightarrow> bench_client \<times> report list" where
  "rxtx_reports [] c = (c, [])"
| "rxtx_reports ((started, finished, bytes) # rs) c =
     (let (c1, out) = rxtx_report started finished bytes c; (c2, outs) = rxtx_reports rs c1 in (c2, out @ outs))"

lemma note_times_eq:
  "note_times s f c = c\<lparr> earliest_started := min s (earliest_started c), latest_finished := max f (latest_finished c) \<rparr>"
  by (cases c) (simp add: note_times_def Let_def min_def max_def)

lemma rxtx_reports_fold:
  "fst (rxtx_reports rs c) = c\<lparr> earliest_started := fold min (map fst rs) (earliest_started c),
     latest_finished := fold max (map (fst \<circ> snd) rs) (latest_finished c),
     processed_bytes := processed_bytes c + sum_list (map (snd \<circ> snd) rs),
     num_reported := num_reported c + of_nat (length rs) \<rparr>"
proof (induction rs arbitrary: c)
  case (Cons r rs)
  obtain s f b where r: "r = (s, f, b)" by (cases r)
  show ?case using Cons.IH [of "fst (rxtx_report s f b c)"]
    by (simp add: r rxtx_report_def note_times_eq Let_def split_beta add.assoc)
qed simp

lemma rxtx_reports_state:
  "fst (rxtx_reports rs c) = c\<lparr> earliest_started := Min (set (earliest_started c # map fst rs)),
     latest_finished := Max (set (latest_finished c # map (fst \<circ> snd) rs)),
     processed_bytes := processed_bytes c + sum_list (map (snd \<circ> snd) rs),
     num_reported := num_reported c + of_nat (length rs) \<rparr>"
  unfolding rxtx_reports_fold Min.set_eq_fold Max.set_eq_fold ..

lemma Min_insert_above: "finite A \<Longrightarrow> A \<noteq> {} \<Longrightarrow> \<forall>x \<in> A. x \<le> m \<Longrightarrow> Min (insert m A) = Min (A :: int set)"
  by (simp add: min.absorb2)

lemma Max_insert_below: "finite A \<Longrightarrow> A \<noteq> {} \<Longrightarrow> \<forall>x \<in> A. m \<le> x \<Longrightarrow> Max (insert m A) = Max (A :: int set)"
  by (simp add: max.absorb2)

lemma rxtx_reports_silent:
  "unat (num_reported c) + length rs < unat (concurrent_connections c) \<Longrightarrow> snd (rxtx_reports rs c) = []"
proof (induction rs arbitrary: c)
  case (Cons r rs)
  obtain s f b where [simp]: "r = (s, f, b)" by (cases r)
  let ?c = "fst (rxtx_report s f b c)"
  have fields: "num_reported ?c = num_reported c + 1" "concurrent_connections ?c = concurrent_connections c"
    by (simp_all add: rxtx_report_def note_times_def Let_def)
  have "unat (num_reported c) + 1 < 2 ^ 32" using Cons.prems unsigned_less [of "concurrent_connections c", where 'a = nat] by simp
  then have num: "unat (num_reported c + 1) = unat (num_reported c) + 1" by (simp add: unat_word_ariths)
  then have "num_reported c + 1 \<noteq> concurrent_connections c" using Cons.prems by force
  then have "snd (rxtx_report s f b c) = []" using fields by (simp add: rxtx_report_def note_times_def Let_def)
  moreover have "snd (rxtx_reports rs ?c) = []" using Cons.IH [of ?c] Cons.prems fields num by simp
  ultimately show ?case by (simp add: split_beta Let_def)
qed simp

lemma rxtx_reports_snoc:
  "rxtx_reports (rs @ [(s, f, b)]) c =
     (let (c1, out) = rxtx_reports rs c; (c2, outs) = rxtx_report s f b c1 in (c2, out @ outs))"
  by (induction rs arbitrary: c) (auto simp: Let_def split_beta)

definition summary :: "bench_client \<Rightarrow> report" where
  "summary c = RxtxReport (concurrent_connections c) (processed_bytes c div 1024 div 1024) (latest_finished c - earliest_started c)"

lemma rxtx_report_prints:
  "snd (rxtx_report s f b c) = (let c' = fst (rxtx_report s f b c) in if num_reported c' = concurrent_connections c' then [summary c'] else [])"
  by (simp add: rxtx_report_def summary_def Let_def)

section \<open>Properties\<close>

definition outcome :: "cli_task \<Rightarrow> link \<Rightarrow> bool" where
  "outcome t l \<longleftrightarrow> cli_task (client l) = CliDone \<and> task (server l) = SrvDone \<and> illegal (client l) = [] \<and>
     (case t of
        Ping n \<Rightarrow> total (to_server l) = 4 * (n + 1) \<and> total (to_client l) = 4 * (n + 1)
      | Rxrx \<Rightarrow> bytes_write (client l) = tx_msg_total_size \<and> total (to_server l) = 4 + tx_msg_total_size \<and> unread (to_server l) = []
      | Txtx \<Rightarrow> bytes_read (client l) = tx_msg_total_size
      | _ \<Rightarrow> True)"

lemma weight_run: "(link_step ^^ k) l l' \<Longrightarrow> k + weight l' \<le> weight l"
proof (induction k arbitrary: l')
  case (Suc k)
  then obtain m where "(link_step ^^ k) l m" "link_step m l'" by auto
  then show ?case using Suc.IH [of m] link_step_weight [of m l'] by simp
qed simp

lemma outcome_stuck:
  assumes "link_step\<^sup>*\<^sup>* (connected t) l" "stuck l" "t = Ping n \<or> t = Rxrx \<or> t = Txtx"
  shows "outcome t l"
  using assms(3)
proof (elim disjE)
  assume t: "t = Ping n"
  have "ping_inv n (connected t)" by (simp add: t connected_def ping_inv_def open_stream_def)
  then show ?thesis using invariant_run [OF assms(1), of "ping_inv n"] ping_inv_step ping_inv_stuck [OF _ assms(2)]
    by (auto simp: t outcome_def)
next
  assume t: "t = Rxrx"
  have "rxrx_phase (client l) (server l) (to_server l) (to_client l)"
    by (rule phase_run [OF assms(1) _ rxrx_server rxrx_client]) (simp_all add: t connected_def rxrx_phase.simps open_stream_def)
  then show ?thesis using rxrx_stuck [OF _ assms(2)] by (simp add: t outcome_def)
next
  assume t: "t = Txtx"
  have "txtx_phase (client l) (server l) (to_server l) (to_client l)"
    by (rule phase_run [OF assms(1) _ txtx_server txtx_client]) (simp_all add: t connected_def txtx_phase.simps)
  then show ?thesis using txtx_stuck [OF _ assms(2)] by (simp add: t outcome_def)
qed


text \<open>A whole run of one ping.\<close>

definition after_ping :: link where
  "after_ping = \<lparr> server = ended, client = \<lparr> cli_task = CliDone, bytes_read = 0, bytes_write = 0, illegal = [] \<rparr>,
     to_server = strm [] 4 True, to_client = strm [] 4 True \<rparr>"

lemma ping_run: "(link_step ^^ 4) (connected (Ping 0)) after_ping"
proof -
  have four: "Suc (Suc (Suc (Suc 0))) = 4" by simp
  let ?c = "\<lambda>t. \<lparr> cli_task = t, bytes_read = 0, bytes_write = 0, illegal = [] \<rparr>"
  let ?l = "\<lambda>s t i out. \<lparr> server = s, client = ?c t, to_server = i, to_client = out \<rparr>"
  have s1: "link_step (connected (Ping 0)) (?l reading (AwaitPong 0) (strm ''ping'' 4 False) (strm [] 0 False))"
    using by_client [of "connected (Ping 0)"] by (simp add: connected_def client_defs stream_defs four)
  have s2: "link_step (?l reading (AwaitPong 0) (strm ''ping'' 4 False) (strm [] 0 False))
      (?l reading (AwaitPong 0) (strm [] 4 False) (strm ''pong'' 4 False))"
    using by_server [of "?l reading (AwaitPong 0) (strm ''ping'' 4 False) (strm [] 0 False)"]
    by (simp add: server_defs read_exactly_def stream_defs cmd_defs four)
  have s3: "link_step (?l reading (AwaitPong 0) (strm [] 4 False) (strm ''pong'' 4 False))
      (?l reading CliDone (strm [] 4 True) (strm [] 4 False))"
    using by_client [of "?l reading (AwaitPong 0) (strm [] 4 False) (strm ''pong'' 4 False)"]
    by (simp add: client_defs read_exactly_def stream_defs cmd_defs)
  have s4: "link_step (?l reading CliDone (strm [] 4 True) (strm [] 4 False)) after_ping"
    using by_server [of "?l reading CliDone (strm [] 4 True) (strm [] 4 False)"]
    by (simp add: after_ping_def server_defs read_exactly_def stream_defs cmd_defs)
  note run = relpowp_Suc_I [where P = link_step]
  have "(link_step ^^ 0) (connected (Ping 0)) (connected (Ping 0))" by simp
  from run [OF run [OF run [OF run [OF this s1] s2] s3] s4] show ?thesis by (simp only: four)
qed


text \<open>
  The result is printed once, when the last connection reports.  Whatever the order of the reports, with as
  many of them as connections only the last prints, and it prints the time from the earliest start to the latest
  end and all of the bytes.
\<close>
theorem last_report_prints:
  assumes "length rs + 1 = unat (ncon * smp_count)"
    and "\<forall>(s, f, b) \<in> set (rs @ [r]). s \<le> time_point_max \<and> time_point_min \<le> f"
  shows "snd (rxtx_reports rs (bench_start ncon smp_count new_bench_client)) = []
    \<and> snd (rxtx_reports (rs @ [r]) (bench_start ncon smp_count new_bench_client)) =
        [RxtxReport (ncon * smp_count) (sum_list (map (snd \<circ> snd) (rs @ [r])) div 1024 div 1024)
           (Max (set (map (fst \<circ> snd) (rs @ [r]))) - Min (set (map fst (rs @ [r]))))]"
proof -
  let ?c = "bench_start ncon smp_count new_bench_client"
  have c: "num_reported ?c = 0" "concurrent_connections ?c = ncon * smp_count" "processed_bytes ?c = 0"
      "earliest_started ?c = time_point_max" "latest_finished ?c = time_point_min"
    by (simp_all add: bench_start_def new_bench_client_def)
  have silent: "snd (rxtx_reports rs ?c) = []" using rxtx_reports_silent [of ?c rs] c assms(1) by simp
  obtain s f b where r: "r = (s, f, b)" by (cases r)
  have num: "of_nat (length rs) + 1 = ncon * smp_count" using arg_cong [OF assms(1), of "of_nat :: nat \<Rightarrow> 32 word"] by (simp add: add.commute)
  have "Min (insert time_point_max (set (map fst (rs @ [r])))) = Min (set (map fst (rs @ [r])))"
    "Max (insert time_point_min (set (map (fst \<circ> snd) (rs @ [r])))) = Max (set (map (fst \<circ> snd) (rs @ [r])))"
    using assms(2) by (intro Min_insert_above Max_insert_below; force)+
  then have final: "fst (rxtx_reports (rs @ [r]) ?c) = ?c\<lparr> earliest_started := Min (set (map fst (rs @ [r]))),
      latest_finished := Max (set (map (fst \<circ> snd) (rs @ [r]))), processed_bytes := sum_list (map (snd \<circ> snd) (rs @ [r])),
      num_reported := ncon * smp_count \<rparr>"
    using rxtx_reports_state [of "rs @ [r]" ?c] c num by (simp add: add.commute)
  have all: "num_reported (fst (rxtx_reports (rs @ [r]) ?c)) = concurrent_connections (fst (rxtx_reports (rs @ [r]) ?c))"
    using final c by simp
  have "fst (rxtx_reports (rs @ [r]) ?c) = fst (rxtx_report s f b (fst (rxtx_reports rs ?c)))"
    "snd (rxtx_reports (rs @ [r]) ?c) = snd (rxtx_report s f b (fst (rxtx_reports rs ?c)))"
    using silent by (simp_all add: r rxtx_reports_snoc split_beta)
  then have "snd (rxtx_reports (rs @ [r]) ?c) = [summary (fst (rxtx_reports (rs @ [r]) ?c))]"
    using all rxtx_report_prints [of s f b "fst (rxtx_reports rs ?c)"] by (simp only: Let_def if_True refl)
  then show ?thesis using final silent c by (simp add: summary_def)
qed

theorem last_report_prints_witness:
  "snd (rxtx_reports [(5, 9, 1048576), (3, 7, 2097152)] (bench_start 2 1 new_bench_client)) = [RxtxReport 2 3 6]"
  using last_report_prints [of "[(5, 9, 1048576)]" 2 1 "(3, 7, 2097152)"] by (simp add: time_point_max_def time_point_min_def)

end
