(* ===== verification/Greeter.thy ===== *)
theory Greeter
  imports Prelude
begin

text \<open>
  \<open>grpc/src/greeter_async_server.cc\<close> and \<open>grpc/src/greeter_async_client2.cc\<close>: the asynchronous server, a state
  machine for each call, and the asynchronous client, whose thread prints the replies while the main thread sends
  the requests.  The gRPC runtime is a set of steps of its own: it hands a call to an instance that asked for
  one, reports each operation once through the completion queue in any order, and completes a call with the reply
  or, for the calls in \<open>faulty\<close>, with a status that is not \<open>OK\<close>.
\<close>

section \<open>State\<close>

datatype CallStatus = CREATE | PROCESS | FINISH

text \<open>\<open>ctx_\<close> and \<open>request_\<close> are filled in by the runtime: the call and the name that came with it.\<close>

record CallData =
  status :: CallStatus
  request :: "(nat \<times> string) option"

text \<open>The client's call: \<open>Ready\<close> when its reply and status have been set; \<open>None\<close> is a status that is not \<open>OK\<close>.\<close>

datatype AsyncClientCall = Waiting | Ready "string option"

text \<open>
  The objects live at addresses, which serve as tags.  \<open>requested\<close> are the tags given to \<open>RequestSayHello\<close>,
  \<open>finishing\<close> those given to \<open>Finish\<close>, \<open>events\<close> those in the server's completion queue.  The client's object of
  the \<open>i\<close>-th call has the address \<open>i\<close>.
\<close>

record greeter =
  started :: nat
  calls :: "nat \<rightharpoonup> AsyncClientCall"
  wire :: "(nat \<times> string) list"
  heap :: "nat \<rightharpoonup> CallData"
  next_tag :: nat
  requested :: "nat list"
  finishing :: "nat list"
  events :: "nat list"
  responses :: "(nat \<times> string) list"
  printed :: "(nat \<times> string) list"

section \<open>The server\<close>

definition Proceed_create :: "nat \<Rightarrow> greeter \<Rightarrow> greeter" where
  "Proceed_create tag g = g\<lparr> heap := (heap g)(tag \<mapsto> \<lparr> status = PROCESS, request = None \<rparr>), requested := requested g @ [tag] \<rparr>"

text \<open>The constructor calls \<open>Proceed\<close> in the state \<open>CREATE\<close>.\<close>

definition new_CallData :: "greeter \<Rightarrow> greeter" where
  "new_CallData g =
     (let tag = next_tag g
      in Proceed_create tag (g\<lparr> next_tag := tag + 1, heap := (heap g)(tag \<mapsto> \<lparr> status = CREATE, request = None \<rparr>) \<rparr>))"

definition Proceed :: "nat \<Rightarrow> greeter \<Rightarrow> exn + greeter" where
  "Proceed tag g =
     (case heap g tag of
        None \<Rightarrow> Inl (Undefined ''CallData used after delete'')
      | Some d \<Rightarrow>
          (case status d of
             CREATE \<Rightarrow> Inr (Proceed_create tag g)
           | PROCESS \<Rightarrow>
               (let g1 = new_CallData g in
                case request d of
                  None \<Rightarrow> Inl (Undefined ''Finish without a call'')
                | Some (rpc, name) \<Rightarrow>
                    Inr (g1\<lparr> heap := (heap g1)(tag \<mapsto> d\<lparr> status := FINISH \<rparr>), finishing := finishing g1 @ [tag],
                             responses := responses g1 @ [(rpc, ''Hello '' @ name)] \<rparr>))
           | FINISH \<Rightarrow> Inr (g\<lparr> heap := (heap g)(tag := None) \<rparr>)))"

text \<open>One turn of \<open>HandleRpcs\<close>, with what \<open>Next\<close> returns.\<close>

definition HandleRpcs_turn :: "(nat \<times> bool) option \<Rightarrow> greeter \<Rightarrow> exn + greeter" where
  "HandleRpcs_turn ev g =
     (case ev of
        None \<Rightarrow> Inl (MsException ''GPR_ASSERT(cq_->Next(&tag, &ok))'')
      | Some (tag, ok) \<Rightarrow> if ok then Proceed tag g else Inl (MsException ''GPR_ASSERT(ok)''))"

section \<open>The client\<close>

definition SayHello :: "string \<Rightarrow> greeter \<Rightarrow> greeter" where
  "SayHello user g = g\<lparr> started := started g + 1, calls := (calls g)(started g \<mapsto> Waiting), wire := wire g @ [(started g, user)] \<rparr>"

text \<open>One turn of \<open>AsyncCompleteRpc\<close>.\<close>

definition AsyncCompleteRpc_turn :: "nat \<Rightarrow> bool \<Rightarrow> greeter \<Rightarrow> exn + greeter" where
  "AsyncCompleteRpc_turn tag ok g =
     (case calls g tag of
        None \<Rightarrow> Inl (Undefined ''AsyncClientCall used after delete'')
      | Some Waiting \<Rightarrow> Inl (Undefined ''reply read before completion'')
      | Some (Ready reply) \<Rightarrow>
          (if \<not> ok then Inl (MsException ''GPR_ASSERT(ok)'')
           else Inr (g\<lparr> printed := printed g @ [(tag, case reply of Some message \<Rightarrow> ''Greeter received: '' @ message | None \<Rightarrow> ''RPC failed'')],
                        calls := (calls g)(tag := None) \<rparr>)))"

definition greeter_init :: greeter where
  "greeter_init = new_CallData \<lparr> started = 0, calls = Map.empty, wire = [], heap = Map.empty, next_tag = 0,
     requested = [], finishing = [], events = [], responses = [], printed = [] \<rparr>"

section \<open>Steps\<close>

text \<open>
  \<open>us\<close> are the users that \<open>main\<close> greets.  The first and the last step are the client's two threads, \<open>proceed\<close> is
  the server's thread, the others are the runtime.
\<close>

inductive greeter_step :: "string list \<Rightarrow> nat set \<Rightarrow> greeter \<Rightarrow> greeter \<Rightarrow> bool" for us faulty where
  say: "started g < length us \<Longrightarrow> greeter_step us faulty g (SayHello (us ! started g) g)"
| accept: "wire g = xs @ r # ys \<Longrightarrow> requested g = t # ts \<Longrightarrow> heap g t = Some d \<Longrightarrow>
    greeter_step us faulty g (g\<lparr> wire := xs @ ys, requested := ts, heap := (heap g)(t \<mapsto> d\<lparr> request := Some r \<rparr>), events := events g @ [t] \<rparr>)"
| proceed: "events g = xs @ t # ys \<Longrightarrow> HandleRpcs_turn (Some (t, True)) (g\<lparr> events := xs @ ys \<rparr>) = Inr g' \<Longrightarrow> greeter_step us faulty g g'"
| written: "finishing g = xs @ t # ys \<Longrightarrow> greeter_step us faulty g (g\<lparr> finishing := xs @ ys, events := events g @ [t] \<rparr>)"
| replied: "(i, m) \<in> set (responses g) \<Longrightarrow> i \<notin> faulty \<Longrightarrow> calls g i = Some Waiting \<Longrightarrow>
    greeter_step us faulty g (g\<lparr> calls := (calls g)(i \<mapsto> Ready (Some m)) \<rparr>)"
| failed: "i \<in> faulty \<Longrightarrow> calls g i = Some Waiting \<Longrightarrow> greeter_step us faulty g (g\<lparr> calls := (calls g)(i \<mapsto> Ready None) \<rparr>)"
| complete: "calls g i = Some (Ready x) \<Longrightarrow> AsyncCompleteRpc_turn i True g = Inr g' \<Longrightarrow> greeter_step us faulty g g'"

section \<open>The server's invariant\<close>

definition tags :: "greeter \<Rightarrow> nat list" where
  "tags g = requested g @ finishing g @ events g"

definition in_process :: "greeter \<Rightarrow> nat \<Rightarrow> (nat \<times> string) option \<Rightarrow> bool" where
  "in_process g t r \<longleftrightarrow> heap g t = Some \<lparr> status = PROCESS, request = r \<rparr>"

definition in_finish :: "greeter \<Rightarrow> nat \<Rightarrow> bool" where
  "in_finish g t \<longleftrightarrow> (\<exists>r. heap g t = Some \<lparr> status = FINISH, request = r \<rparr>)"

text \<open>
  Every object is known to the runtime under exactly one operation, and exactly one of them is in the state
  \<open>PROCESS\<close>: it waits for a call or has just been given one.
\<close>

definition server_inv :: "greeter \<Rightarrow> bool" where
  "server_inv g \<longleftrightarrow> distinct (tags g) \<and> set (tags g) = dom (heap g) \<and> (\<forall>t \<in> dom (heap g). t < next_tag g)
     \<and> (\<exists>t. (requested g = [t] \<and> in_process g t None \<or> requested g = [] \<and> t \<in> set (events g) \<and> (\<exists>r. in_process g t (Some r)))
          \<and> (\<forall>u \<in> dom (heap g) - {t}. in_finish g u))"

lemma server_inv_frame:
  "server_inv g \<Longrightarrow> heap g' = heap g \<Longrightarrow> next_tag g' = next_tag g \<Longrightarrow> requested g' = requested g \<Longrightarrow>
   finishing g' = finishing g \<Longrightarrow> events g' = events g \<Longrightarrow> server_inv g'"
  by (simp add: server_inv_def tags_def in_process_def in_finish_def)

lemma server_inv_accept:
  assumes "server_inv g" "requested g = t # ts" "heap g t = Some d"
  shows "server_inv (g\<lparr> wire := w, requested := ts, heap := (heap g)(t \<mapsto> d\<lparr> request := Some r \<rparr>), events := events g @ [t] \<rparr>)"
proof -
  have "ts = []" "d = \<lparr> status = PROCESS, request = None \<rparr>" "\<forall>u \<in> dom (heap g) - {t}. in_finish g u"
    using assms by (auto simp: server_inv_def in_process_def)
  then show ?thesis using assms unfolding server_inv_def
    by (auto simp: tags_def in_process_def in_finish_def intro!: exI [of _ t])
qed

lemma server_inv_written:
  "server_inv g \<Longrightarrow> finishing g = xs @ t # ys \<Longrightarrow> server_inv (g\<lparr> finishing := xs @ ys, events := events g @ [t] \<rparr>)"
  unfolding server_inv_def in_process_def in_finish_def
  by (elim conjE exE; intro conjI; (auto simp: tags_def)?)

text \<open>An event is for the object that has been given a call, or for one that has written its reply.\<close>

lemma event_cases:
  assumes "server_inv g" "t \<in> set (events g)"
  obtains rpc name where "in_process g t (Some (rpc, name))" "requested g = []" "\<forall>u \<in> dom (heap g) - {t}. in_finish g u"
  | "in_finish g t"
proof -
  have dom: "t \<in> dom (heap g)" using assms by (auto simp: server_inv_def tags_def)
  obtain p where p: "requested g = [p] \<and> in_process g p None \<or> requested g = [] \<and> p \<in> set (events g) \<and> (\<exists>r. in_process g p (Some r))"
      "\<forall>u \<in> dom (heap g) - {p}. in_finish g u"
    using assms(1) by (auto simp: server_inv_def)
  have "requested g = [p] \<Longrightarrow> t \<noteq> p" using assms by (auto simp: server_inv_def tags_def)
  then show ?thesis using p that dom by (cases "t = p") auto
qed

definition after_process :: "nat \<Rightarrow> nat \<times> string \<Rightarrow> greeter \<Rightarrow> greeter" where
  "after_process t r g = g\<lparr> next_tag := next_tag g + 1,
     heap := (heap g)(next_tag g \<mapsto> \<lparr> status = PROCESS, request = None \<rparr>, t \<mapsto> \<lparr> status = FINISH, request = Some r \<rparr>),
     requested := requested g @ [next_tag g], finishing := finishing g @ [t],
     responses := responses g @ [(fst r, ''Hello '' @ snd r)] \<rparr>"

lemma Proceed_process: "in_process g t (Some r) \<Longrightarrow> Proceed t g = Inr (after_process t r g)"
  by (cases r) (simp add: Proceed_def in_process_def new_CallData_def Proceed_create_def after_process_def Let_def)

lemma Proceed_finish: "in_finish g t \<Longrightarrow> Proceed t g = Inr (g\<lparr> heap := (heap g)(t := None) \<rparr>)"
  by (auto simp: Proceed_def in_finish_def)

lemma in_process_events [simp]: "in_process (g\<lparr> events := es \<rparr>) t r = in_process g t r"
  "in_finish (g\<lparr> events := es \<rparr>) t = in_finish g t"
  by (simp_all add: in_process_def in_finish_def)

lemma server_inv_process:
  assumes "server_inv g" "events g = xs @ t # ys" "in_process g t (Some r)" "requested g = []"
    "\<forall>u \<in> dom (heap g) - {t}. in_finish g u"
  shows "server_inv (after_process t r (g\<lparr> events := xs @ ys \<rparr>))"
proof -
  have inv: "distinct (tags g)" "set (tags g) = dom (heap g)" "\<forall>t \<in> dom (heap g). t < next_tag g"
    using assms(1) by (auto simp: server_inv_def)
  have fresh: "next_tag g \<notin> set (tags g)" "t \<noteq> next_tag g" using inv assms(2) by (auto simp: tags_def)
  let ?g = "after_process t r (g\<lparr> events := xs @ ys \<rparr>)"
  have tg: "tags ?g = next_tag g # finishing g @ t # xs @ ys" using assms(4) by (simp add: tags_def after_process_def)
  have "distinct (tags ?g)" using inv(1) fresh assms(2,4) unfolding tg by (auto simp: tags_def)
  moreover have "set (tags ?g) = dom (heap ?g)" using inv(2) assms(2,4) unfolding tg by (auto simp: tags_def after_process_def)
  moreover have "\<forall>u \<in> dom (heap ?g). u < next_tag ?g" using inv(3) assms(3) by (auto simp: after_process_def in_process_def intro: less_SucI)
  moreover have "requested ?g = [next_tag g] \<and> in_process ?g (next_tag g) None" "\<forall>u \<in> dom (heap ?g) - {next_tag g}. in_finish ?g u"
    using assms(4,5) fresh by (auto simp: after_process_def in_process_def in_finish_def)
  ultimately show ?thesis unfolding server_inv_def by blast
qed

lemma server_inv_finish:
  assumes "server_inv g" "events g = xs @ t # ys" "in_finish g t"
  shows "server_inv (g\<lparr> events := xs @ ys, heap := (heap g)(t := None) \<rparr>)"
proof -
  obtain p where p: "requested g = [p] \<and> in_process g p None \<or> requested g = [] \<and> p \<in> set (events g) \<and> (\<exists>r. in_process g p (Some r))"
      "\<forall>u \<in> dom (heap g) - {p}. in_finish g u"
    using assms(1) by (auto simp: server_inv_def)
  let ?g = "g\<lparr> events := xs @ ys, heap := (heap g)(t := None) \<rparr>"
  have ne: "p \<noteq> t" using p(1) assms(3) by (auto simp: in_process_def in_finish_def)
  have inv: "distinct (tags g)" "set (tags g) = dom (heap g)" "\<forall>t \<in> dom (heap g). t < next_tag g"
    using assms(1) by (auto simp: server_inv_def)
  have "distinct (tags ?g)" "set (tags ?g) = dom (heap ?g)" using inv(1,2) assms(2) by (auto simp: tags_def)
  moreover have "\<forall>u \<in> dom (heap ?g). u < next_tag ?g" using inv(3) by auto
  moreover have "requested ?g = [p] \<and> in_process ?g p None \<or> requested ?g = [] \<and> p \<in> set (events ?g) \<and> (\<exists>r. in_process ?g p (Some r))"
    "\<forall>u \<in> dom (heap ?g) - {p}. in_finish ?g u"
    using p ne assms(2) by (auto simp: in_process_def in_finish_def)
  ultimately show ?thesis unfolding server_inv_def by blast
qed

section \<open>The calls\<close>

definition line_of :: "string list \<Rightarrow> nat set \<Rightarrow> nat \<Rightarrow> string" where
  "line_of us faulty i = (if i \<in> faulty then ''RPC failed'' else ''Greeter received: '' @ ''Hello '' @ us ! i)"

text \<open>Where the \<open>i\<close>-th call is while its client waits.\<close>

definition under_way :: "string list \<Rightarrow> greeter \<Rightarrow> nat \<Rightarrow> bool" where
  "under_way us g i \<longleftrightarrow> (i, us ! i) \<in> set (wire g) \<or> (\<exists>t \<in> set (events g). in_process g t (Some (i, us ! i)))
     \<or> (i, ''Hello '' @ us ! i) \<in> set (responses g)"

definition call_ok :: "string list \<Rightarrow> nat set \<Rightarrow> greeter \<Rightarrow> nat \<Rightarrow> bool" where
  "call_ok us faulty g i \<longleftrightarrow>
     (case calls g i of
        Some Waiting \<Rightarrow> under_way us g i
      | Some (Ready x) \<Rightarrow> x = (if i \<in> faulty then None else Some (''Hello '' @ us ! i))
      | None \<Rightarrow> i \<in> fst ` set (printed g))"

definition calls_inv :: "string list \<Rightarrow> nat set \<Rightarrow> greeter \<Rightarrow> bool" where
  "calls_inv us faulty g \<longleftrightarrow> started g \<le> length us \<and> (\<forall>i. calls g i \<noteq> None \<longrightarrow> i < started g) \<and> (\<forall>i < started g. call_ok us faulty g i)
     \<and> (\<forall>(i, m) \<in> set (responses g). m = ''Hello '' @ us ! i)
     \<and> (\<forall>t i m. in_process g t (Some (i, m)) \<longrightarrow> m = us ! i) \<and> (\<forall>(i, m) \<in> set (wire g). m = us ! i)
     \<and> distinct (map fst (printed g)) \<and> (\<forall>(i, l) \<in> set (printed g). i < started g \<and> calls g i = None \<and> l = line_of us faulty i)"

lemma calls_inv_say:
  assumes "calls_inv us faulty g" "started g < length us"
  shows "calls_inv us faulty (SayHello (us ! started g) g)"
proof -
  let ?g = "SayHello (us ! started g) g"
  have "call_ok us faulty ?g i" if "i < Suc (started g)" for i
  proof (cases "i = started g")
    case True
    then show ?thesis by (simp add: SayHello_def call_ok_def under_way_def)
  next
    case False
    then have "call_ok us faulty g i" using assms(1) that by (simp add: calls_inv_def)
    then show ?thesis using False
      by (auto simp: SayHello_def call_ok_def under_way_def in_process_def split: option.splits AsyncClientCall.splits)
  qed
  then show ?thesis using assms by (auto simp: calls_inv_def SayHello_def in_process_def split: prod.splits)
qed

lemma calls_inv_move:
  assumes "calls_inv us faulty g"
    and "started g' = started g" "calls g' = calls g" "printed g' = printed g"
    and "\<And>i. under_way us g i \<Longrightarrow> under_way us g' i"
    and "\<forall>(i, m) \<in> set (responses g'). m = ''Hello '' @ us ! i"
    and "\<And>t i m. in_process g' t (Some (i, m)) \<Longrightarrow> m = us ! i" "set (wire g') \<subseteq> set (wire g)"
  shows "calls_inv us faulty g'"
proof -
  have "call_ok us faulty g' i" if "call_ok us faulty g i" for i
    using that assms(3,4,5) by (auto simp: call_ok_def split: option.splits AsyncClientCall.splits)
  then show ?thesis using assms by (auto simp: calls_inv_def)
qed

lemma calls_inv_accept:
  assumes "calls_inv us faulty g" "server_inv g" "wire g = xs @ r # ys" "requested g = t # ts" "heap g t = Some d"
  shows "calls_inv us faulty (g\<lparr> wire := xs @ ys, requested := ts, heap := (heap g)(t \<mapsto> d\<lparr> request := Some r \<rparr>), events := events g @ [t] \<rparr>)"
    (is "calls_inv us faulty ?g")
proof -
  have d: "d = \<lparr> status = PROCESS, request = None \<rparr>" and new: "t \<notin> set (events g)"
    using assms(2,4,5) by (auto simp: server_inv_def in_process_def tags_def)
  have r: "snd r = us ! fst r" using assms(1,3) by (auto simp: calls_inv_def)
  show ?thesis using assms(1)
  proof (rule calls_inv_move)
    show "under_way us ?g i" if "under_way us g i" for i
      using that d new assms(3) by (cases r) (auto simp: under_way_def in_process_def)
    show "m = us ! i" if "in_process ?g u (Some (i, m))" for u i m
      using that r d assms(1) by (auto simp: calls_inv_def in_process_def split: if_splits)
    show "\<forall>(i, m) \<in> set (responses ?g). m = ''Hello '' @ us ! i" using assms(1) by (simp add: calls_inv_def)
    show "set (wire ?g) \<subseteq> set (wire g)" using assms(3) by auto
  qed simp_all
qed

lemma calls_inv_process:
  assumes "calls_inv us faulty g" "server_inv g" "events g = xs @ t # ys" "in_process g t (Some r)"
    "\<forall>u \<in> dom (heap g) - {t}. in_finish g u"
  shows "calls_inv us faulty (after_process t r (g\<lparr> events := xs @ ys \<rparr>))" (is "calls_inv us faulty ?g")
proof -
  have r: "snd r = us ! fst r" using assms(1,4) by (cases r) (auto simp: calls_inv_def)
  have only: "u = t" if "in_process g u q" for u q
  proof (rule ccontr)
    assume "u \<noteq> t"
    then have "u \<in> dom (heap g) - {t}" using that by (auto simp: in_process_def)
    then have "in_finish g u" using assms(5) by blast
    then show False using that by (auto simp: in_process_def in_finish_def)
  qed
  have gone: "\<not> in_process ?g u (Some q)" for u q
    using only [of u "Some q"] by (auto simp: after_process_def in_process_def)
  show ?thesis using assms(1)
  proof (rule calls_inv_move)
    show "under_way us ?g i" if "under_way us g i" for i
      using that unfolding under_way_def
    proof (elim disjE bexE)
      fix u
      assume "in_process g u (Some (i, us ! i))"
      then have "r = (i, us ! i)" using only [of u] assms(4) by (simp add: in_process_def)
      then show "(i, us ! i) \<in> set (wire ?g) \<or> (\<exists>t \<in> set (events ?g). in_process ?g t (Some (i, us ! i)))
          \<or> (i, ''Hello '' @ us ! i) \<in> set (responses ?g)" by (simp add: after_process_def)
    qed (simp_all add: after_process_def)
    show "\<forall>(i, m) \<in> set (responses ?g). m = ''Hello '' @ us ! i" using assms(1) r by (auto simp: calls_inv_def after_process_def)
    show "m = us ! i" if "in_process ?g u (Some (i, m))" for u i m using that gone by blast
  qed (simp_all add: after_process_def)
qed

lemma calls_inv_finish:
  assumes "calls_inv us faulty g" "events g = xs @ t # ys" "in_finish g t"
  shows "calls_inv us faulty (g\<lparr> events := xs @ ys, heap := (heap g)(t := None) \<rparr>)" (is "calls_inv us faulty ?g")
  using assms(1)
proof (rule calls_inv_move)
  show "under_way us ?g i" if "under_way us g i" for i
    using that assms(2,3) unfolding under_way_def in_process_def in_finish_def by fastforce
  show "\<forall>(i, m) \<in> set (responses ?g). m = ''Hello '' @ us ! i" using assms(1) by (simp add: calls_inv_def)
  show "m = us ! i" if "in_process ?g u (Some (i, m))" for u i m
    using that assms(1) by (auto simp: calls_inv_def in_process_def split: if_splits)
qed simp_all

lemma calls_inv_written:
  assumes "calls_inv us faulty g"
  shows "calls_inv us faulty (g\<lparr> finishing := fs, events := events g @ es \<rparr>)" (is "calls_inv us faulty ?g")
  using assms(1)
proof (rule calls_inv_move)
  show "under_way us ?g i" if "under_way us g i" for i
    using that by (auto simp: under_way_def in_process_def)
qed (use assms in \<open>auto simp: calls_inv_def in_process_def\<close>)

lemma calls_inv_set:
  assumes "calls_inv us faulty g" "calls g i = Some Waiting" "x = (if i \<in> faulty then None else Some (''Hello '' @ us ! i))"
  shows "calls_inv us faulty (g\<lparr> calls := (calls g)(i \<mapsto> Ready x) \<rparr>)" (is "calls_inv us faulty ?g")
proof -
  have "call_ok us faulty ?g j" if "call_ok us faulty g j" for j
    using that assms(3) by (auto simp: call_ok_def under_way_def in_process_def split: option.splits AsyncClientCall.splits)
  then show ?thesis using assms(1,2) by (auto simp: calls_inv_def in_process_def) (fastforce dest: bspec)+
qed

lemma calls_inv_complete:
  assumes "calls_inv us faulty g" "calls g i = Some (Ready x)" "AsyncCompleteRpc_turn i True g = Inr g'"
  shows "calls_inv us faulty g'"
proof -
  have i: "i < started g" "i \<notin> fst ` set (printed g)" using assms(1,2) by (fastforce simp: calls_inv_def)+
  then have "call_ok us faulty g i" using assms(1) by (simp add: calls_inv_def)
  then have x: "x = (if i \<in> faulty then None else Some (''Hello '' @ us ! i))" using assms(2) by (simp add: call_ok_def)
  have g': "g' = g\<lparr> printed := printed g @ [(i, line_of us faulty i)], calls := (calls g)(i := None) \<rparr>"
    using assms(2,3) x by (auto simp: AsyncCompleteRpc_turn_def line_of_def)
  have "call_ok us faulty g' j" if "call_ok us faulty g j" for j
    using that by (auto simp: g' call_ok_def under_way_def in_process_def split: option.splits AsyncClientCall.splits)
  then show ?thesis using assms(1) i by (auto simp: g' calls_inv_def in_process_def)
qed

section \<open>Runs\<close>

lemma invs_init: "server_inv greeter_init \<and> calls_inv us faulty greeter_init"
  by (auto simp: greeter_init_def new_CallData_def Proceed_create_def server_inv_def calls_inv_def tags_def in_process_def in_finish_def Let_def)

lemma invs_step:
  "greeter_step us faulty g g' \<Longrightarrow> server_inv g \<and> calls_inv us faulty g \<Longrightarrow> server_inv g' \<and> calls_inv us faulty g'"
proof (induction rule: greeter_step.induct)
  case (say g)
  then show ?case using calls_inv_say server_inv_frame [of g "SayHello (us ! started g) g"] by (simp add: SayHello_def)
next
  case (accept g xs r ys t ts d)
  then show ?case using server_inv_accept calls_inv_accept by blast
next
  case (proceed g xs t ys g')
  then have inv: "server_inv g" "calls_inv us faulty g" and step: "Proceed t (g\<lparr> events := xs @ ys \<rparr>) = Inr g'"
    and t: "t \<in> set (events g)" by (simp_all add: HandleRpcs_turn_def)
  from inv(1) t show ?case
  proof (cases rule: event_cases)
    case (1 rpc name)
    then show ?thesis using step proceed.hyps(1) inv server_inv_process calls_inv_process
      Proceed_process [of "g\<lparr> events := xs @ ys \<rparr>" t "(rpc, name)"] by auto
  next
    case 2
    then show ?thesis using step proceed.hyps(1) inv server_inv_finish calls_inv_finish
      Proceed_finish [of "g\<lparr> events := xs @ ys \<rparr>" t] by auto
  qed
next
  case (written g xs t ys)
  then show ?case using server_inv_written calls_inv_written by blast
next
  case (replied i m g)
  then have "m = ''Hello '' @ us ! i" by (auto simp: calls_inv_def)
  then show ?case using replied calls_inv_set [of us faulty g i "Some m"] server_inv_frame [of g "g\<lparr> calls := (calls g)(i \<mapsto> Ready (Some m)) \<rparr>"] by simp
next
  case (failed i g)
  then show ?case using calls_inv_set [of us faulty g i None] server_inv_frame [of g "g\<lparr> calls := (calls g)(i \<mapsto> Ready None) \<rparr>"] by simp
next
  case (complete g i x g')
  then have "server_inv g'" using server_inv_frame [of g g'] by (auto simp: AsyncCompleteRpc_turn_def)
  then show ?case using complete calls_inv_complete by blast
qed

lemma invs_run:
  "(greeter_step us faulty)\<^sup>*\<^sup>* greeter_init g \<Longrightarrow> server_inv g \<and> calls_inv us faulty g"
  by (induction rule: rtranclp_induct) (use invs_init invs_step in blast)+

section \<open>Termination\<close>

fun call_weight :: "AsyncClientCall option \<Rightarrow> nat" where
  "call_weight (Some Waiting) = 2"
| "call_weight (Some (Ready x)) = 1"
| "call_weight None = 0"

definition event_weight :: "greeter \<Rightarrow> nat \<Rightarrow> nat" where
  "event_weight g t = (if in_finish g t then 1 else 3)"

text \<open>The steps that are left for the calls not yet made and for those under way.\<close>

definition calls_weight :: "greeter \<Rightarrow> nat" where
  "calls_weight g = (\<Sum>i < started g. call_weight (calls g i))"

definition steps_left :: "string list \<Rightarrow> greeter \<Rightarrow> nat" where
  "steps_left us g = 8 * (length us - started g) + 4 * length (wire g) + sum_list (map (event_weight g) (events g))
     + 2 * length (finishing g) + calls_weight g"

lemma events_weight_cong:
  "(\<And>t. t \<in> set ts \<Longrightarrow> heap g' t = heap g t) \<Longrightarrow> sum_list (map (event_weight g') ts) = sum_list (map (event_weight g) ts)"
  by (intro arg_cong [of _ _ sum_list] map_cong) (auto simp: event_weight_def in_finish_def)

lemma calls_weight_update:
  assumes "i < started g"
  shows "calls_weight (g\<lparr> calls := (calls g)(i := c) \<rparr>) + call_weight (calls g i) = calls_weight g + call_weight c"
  using assms by (simp add: calls_weight_def sum.remove [of "{..<started g}" i])

lemma calls_weight_frame: "calls g' = calls g \<Longrightarrow> started g' = started g \<Longrightarrow> calls_weight g' = calls_weight g"
  by (simp add: calls_weight_def)

lemma steps_left_accept:
  assumes "server_inv g" "wire g = xs @ r # ys" "requested g = t # ts" "heap g t = Some d"
  shows "steps_left us (g\<lparr> wire := xs @ ys, requested := ts, heap := (heap g)(t \<mapsto> d\<lparr> request := Some r \<rparr>), events := events g @ [t] \<rparr>) < steps_left us g"
    (is "steps_left us ?g < _")
proof -
  have d: "d = \<lparr> status = PROCESS, request = None \<rparr>" and new: "t \<notin> set (events g)"
    using assms(1,3,4) by (auto simp: server_inv_def in_process_def tags_def)
  have "sum_list (map (event_weight ?g) (events g)) = sum_list (map (event_weight g) (events g))"
    using new by (intro events_weight_cong) auto
  moreover have "event_weight ?g t = 3" using d by (auto simp: event_weight_def in_finish_def)
  moreover have "calls_weight ?g = calls_weight g" by (rule calls_weight_frame) simp_all
  ultimately show ?thesis using assms(2) by (simp add: steps_left_def)
qed

lemma steps_left_proceed:
  assumes "server_inv g" "events g = xs @ t # ys" "Proceed t (g\<lparr> events := xs @ ys \<rparr>) = Inr g'"
  shows "steps_left us g' < steps_left us g"
proof -
  have "set (events g) \<subseteq> dom (heap g)" "\<forall>u \<in> dom (heap g). u < next_tag g" "distinct (events g)"
    using assms(1) by (auto simp: server_inv_def tags_def)
  then have inv: "t \<notin> set (xs @ ys)" "\<forall>u \<in> set (events g). u < next_tag g" using assms(2) by auto
  have t: "t \<in> set (events g)" using assms(2) by simp
  have ew: "sum_list (map (event_weight g') (xs @ ys)) = sum_list (map (event_weight g) (xs @ ys))"
    if "\<And>u. u \<noteq> t \<Longrightarrow> u < next_tag g \<Longrightarrow> heap g' u = heap g u"
  proof (rule events_weight_cong)
    fix u
    assume "u \<in> set (xs @ ys)"
    then have "u \<noteq> t" "u < next_tag g" using inv assms(2) by auto
    then show "heap g' u = heap g u" by (rule that)
  qed
  from assms(1) t show ?thesis
  proof (cases rule: event_cases)
    case (1 rpc name)
    then have g': "g' = after_process t (rpc, name) (g\<lparr> events := xs @ ys \<rparr>)"
      using assms(3) Proceed_process [of "g\<lparr> events := xs @ ys \<rparr>" t] by simp
    have "event_weight g t = 3" using 1(1) by (auto simp: event_weight_def in_process_def in_finish_def)
    moreover have "calls_weight g' = calls_weight g" by (rule calls_weight_frame) (simp_all add: g' after_process_def)
    ultimately show ?thesis using ew assms(2) by (simp add: steps_left_def g' after_process_def)
  next
    case 2
    then have g': "g' = g\<lparr> events := xs @ ys, heap := (heap g)(t := None) \<rparr>"
      using assms(3) Proceed_finish [of "g\<lparr> events := xs @ ys \<rparr>" t] by simp
    have "calls_weight g' = calls_weight g" by (rule calls_weight_frame) (simp_all add: g')
    then show ?thesis using 2 ew assms(2) by (simp add: steps_left_def g' event_weight_def)
  qed
qed

lemma steps_left_written:
  assumes "server_inv g" "finishing g = xs @ t # ys"
  shows "steps_left us (g\<lparr> finishing := xs @ ys, events := events g @ [t] \<rparr>) < steps_left us g" (is "steps_left us ?g < _")
proof -
  have "t \<in> dom (heap g)" using assms by (auto simp: server_inv_def tags_def)
  moreover have "requested g \<noteq> [t]" "t \<notin> set (events g)" using assms by (auto simp: server_inv_def tags_def)
  ultimately have "in_finish g t" using assms(1) unfolding server_inv_def by blast
  then have "event_weight ?g t = 1" by (simp add: event_weight_def in_finish_def)
  moreover have "sum_list (map (event_weight ?g) (events g)) = sum_list (map (event_weight g) (events g))"
    by (intro events_weight_cong) auto
  moreover have "calls_weight ?g = calls_weight g" by (rule calls_weight_frame) simp_all
  ultimately show ?thesis using assms(2) by (simp add: steps_left_def)
qed

lemma steps_left_calls:
  assumes "i < started g" "call_weight c < call_weight (calls g i)"
  shows "steps_left us (g\<lparr> printed := ps, calls := (calls g)(i := c) \<rparr>) < steps_left us g"
proof -
  let ?g = "g\<lparr> printed := ps, calls := (calls g)(i := c) \<rparr>"
  have "calls_weight ?g = calls_weight (g\<lparr> calls := (calls g)(i := c) \<rparr>)" by (rule calls_weight_frame) simp_all
  moreover have "sum_list (map (event_weight ?g) (events g)) = sum_list (map (event_weight g) (events g))"
    by (intro events_weight_cong) simp
  ultimately show ?thesis using calls_weight_update [OF assms(1), of c] assms(2) by (simp add: steps_left_def)
qed

lemma steps_left_say:
  assumes "calls_inv us faulty g" "started g < length us"
  shows "steps_left us (SayHello u g) < steps_left us g"
proof -
  let ?g = "SayHello u g"
  have "calls_weight ?g = calls_weight g + 2" by (simp add: calls_weight_def SayHello_def)
  moreover have "sum_list (map (event_weight ?g) (events g)) = sum_list (map (event_weight g) (events g))"
    by (intro events_weight_cong) (simp add: SayHello_def)
  ultimately show ?thesis using assms(2) by (simp add: steps_left_def SayHello_def)
qed

lemma steps_left_step:
  "greeter_step us faulty g g' \<Longrightarrow> server_inv g \<and> calls_inv us faulty g \<Longrightarrow> steps_left us g' < steps_left us g"
proof (induction rule: greeter_step.induct)
  case (say g)
  then show ?case using steps_left_say by blast
next
  case (accept g xs r ys t ts d)
  then show ?case using steps_left_accept by blast
next
  case (proceed g xs t ys g')
  then show ?case using steps_left_proceed by (simp add: HandleRpcs_turn_def)
next
  case (written g xs t ys)
  then show ?case using steps_left_written by blast
next
  case (replied i m g)
  then show ?case using steps_left_calls [of i g "Some (Ready (Some m))" us "printed g"] by (simp add: calls_inv_def)
next
  case (failed i g)
  then show ?case using steps_left_calls [of i g "Some (Ready None)" us "printed g"] by (simp add: calls_inv_def)
next
  case (complete g i x g')
  then have "i < started g" by (simp add: calls_inv_def)
  then show ?case using complete steps_left_calls [of i g None us "printed g'"] by (auto simp: AsyncCompleteRpc_turn_def)
qed

lemma steps_left_run:
  "(greeter_step us faulty ^^ k) greeter_init g \<Longrightarrow> k + steps_left us g \<le> 8 * length us"
proof (induction k arbitrary: g)
  case 0
  then have "g = greeter_init" by simp
  then show ?case by (simp add: greeter_init_def new_CallData_def Proceed_create_def steps_left_def calls_weight_def Let_def)
next
  case (Suc k)
  then obtain h where h: "(greeter_step us faulty ^^ k) greeter_init h" "greeter_step us faulty h g" by auto
  then show ?case using Suc.IH [OF h(1)] steps_left_step [OF h(2)] invs_run [OF relpowp_imp_rtranclp [OF h(1)]] by simp
qed

lemma run_ends:
  assumes "(greeter_step us faulty ^^ k) greeter_init g"
  shows "\<exists>k' g'. (greeter_step us faulty ^^ k') greeter_init g' \<and> (\<nexists>h. greeter_step us faulty g' h)"
  using assms
proof (induction "8 * length us - k" arbitrary: k g rule: less_induct)
  case less
  show ?case
  proof (cases "\<exists>h. greeter_step us faulty g h")
    case True
    then obtain h where h: "(greeter_step us faulty ^^ Suc k) greeter_init h" using less.prems by auto
    then have "8 * length us - Suc k < 8 * length us - k" using steps_left_run [OF h] by simp
    then show ?thesis using less.hyps h by blast
  qed (use less.prems in blast)
qed

section \<open>Properties\<close>

lemma event_handled:
  assumes "server_inv g" "t \<in> set (events g)"
  shows "\<exists>g'. HandleRpcs_turn (Some (t, True)) (g\<lparr> events := es \<rparr>) = Inr g'"
  using assms
proof (cases rule: event_cases)
  case (1 rpc name)
  then show ?thesis using Proceed_process [of "g\<lparr> events := es \<rparr>" t "(rpc, name)"] by (simp add: HandleRpcs_turn_def)
next
  case 2
  then show ?thesis using Proceed_finish [of "g\<lparr> events := es \<rparr>" t] by (simp add: HandleRpcs_turn_def)
qed

lemma quiescent:
  assumes inv: "server_inv g" "calls_inv us faulty g" and end': "\<nexists>h. greeter_step us faulty g h"
  shows "started g = length us \<and> (\<forall>i < length us. i \<in> fst ` set (printed g))"
proof -
  have "\<not> started g < length us" using end' greeter_step.say by blast
  then have st: "started g = length us" using inv(2) by (simp add: calls_inv_def)
  have "events g = []"
  proof (rule ccontr)
    assume "events g \<noteq> []"
    then obtain t ys where t: "events g = [] @ t # ys" by (cases "events g") auto
    then have "t \<in> set (events g)" by simp
    then show False using event_handled [OF inv(1), of t "[] @ ys"] end' greeter_step.proceed [OF t] by blast
  qed
  then obtain t where ev: "events g = []" and t: "requested g = [t]" "in_process g t None"
    using inv(1) by (auto simp: server_inv_def)
  have wire: "wire g = []"
  proof (cases "wire g")
    case (Cons r rs)
    then have "wire g = [] @ r # rs" by simp
    from greeter_step.accept [OF this t(1) t(2) [unfolded in_process_def]] show ?thesis using end' by blast
  qed
  have "i \<in> fst ` set (printed g)" if "i < length us" for i
  proof (cases "calls g i")
    case None
    have "call_ok us faulty g i" using inv(2) st that by (simp add: calls_inv_def)
    then show ?thesis using None by (simp add: call_ok_def)
  next
    case (Some c)
    have ok: "call_ok us faulty g i" using inv(2) st that by (simp add: calls_inv_def)
    have False
    proof (cases c)
      case Waiting
      then have w: "calls g i = Some Waiting" using Some by simp
      then have r: "(i, ''Hello '' @ us ! i) \<in> set (responses g)" using ok ev wire by (simp add: call_ok_def under_way_def)
      have "\<exists>h. greeter_step us faulty g h"
        using greeter_step.replied [OF r _ w] greeter_step.failed [OF _ w] by (cases "i \<in> faulty") metis+
      with end' show ?thesis ..
    next
      case (Ready x)
      then have "AsyncCompleteRpc_turn i True g \<noteq> Inl e" for e using Some by (simp add: AsyncCompleteRpc_turn_def)
      then obtain g' where "AsyncCompleteRpc_turn i True g = Inr g'" using sum.exhaust by metis
      then show ?thesis using end' greeter_step.complete [of g i x g'] Some Ready by metis
    qed
    then show ?thesis ..
  qed
  then show ?thesis using st by blast
qed





section \<open>The synchronous server and clients\<close>

text \<open>
  \<open>GreeterServiceImpl::SayHello\<close> of \<open>greeter_server.cc\<close>, and the clients of \<open>greeter_client.cc\<close> and
  \<open>greeter_async_client.cc\<close>.  \<open>rpc\<close> is the stub: the reply, or a status that is not \<open>OK\<close>; \<open>ev\<close> is what \<open>Next\<close>
  returns.
\<close>

definition service_SayHello :: "string \<Rightarrow> string" where
  "service_SayHello name = ''Hello '' @ name"

definition client_SayHello :: "(string \<Rightarrow> string option) \<Rightarrow> string \<Rightarrow> string" where
  "client_SayHello rpc user = (case rpc user of Some message \<Rightarrow> message | None \<Rightarrow> ''RPC failed'')"

definition async_client_SayHello :: "(string \<Rightarrow> string option) \<Rightarrow> (nat \<times> bool) option \<Rightarrow> string \<Rightarrow> exn + string" where
  "async_client_SayHello rpc ev user =
     (case ev of
        None \<Rightarrow> Inl (MsException ''GPR_ASSERT(cq.Next(&got_tag, &ok))'')
      | Some (got_tag, ok) \<Rightarrow>
          (if got_tag \<noteq> 1 then Inl (MsException ''GPR_ASSERT(got_tag == (void *)1)'')
           else if \<not> ok then Inl (MsException ''GPR_ASSERT(ok)'')
           else Inr (case rpc user of Some message \<Rightarrow> message | None \<Rightarrow> ''RPC failed'')))"

text \<open>
  The three clients and the two servers agree.  With the completion queue reporting the client's own tag, the
  asynchronous client returns what the synchronous one returns, and it is the text that the client of
  \<open>greeter_async_client2.cc\<close> prints for the call after its prefix, with the synchronous service behind the stub for
  the calls that do not fail.
\<close>
theorem clients_agree:
  "async_client_SayHello rpc (Some (1, True)) user = Inr (client_SayHello rpc user)
   \<and> (line_of us faulty i = (if i \<in> faulty then [] else ''Greeter received: '')
        @ client_SayHello (\<lambda>u. if i \<in> faulty then None else Some (service_SayHello u)) (us ! i))"
  by (simp add: async_client_SayHello_def client_SayHello_def line_of_def service_SayHello_def)

end
