(* ===== verification/Spec2Isabelle.thy ===== *)
theory Spec2Isabelle
  imports Prelude Securec Convert_Utils Tcp_Message Comm_Messages Comm_Util Node_Manager Tcp_Server Tcp_Client
    Node_Base Sample_Codecs Scheduler_Node Abstract_Node Cluster_Nodes Msg_Parser Log_Config
    Consistent_Hash Ring_Demo Ps_Worker Thread_Pool Work_Queue Http_Handler Http_Server Relay
    Float_Conversions File_Configuration Rot13_Server Event_Examples Zmq_Helpers Seastar_Demo Greeter
begin

text \<open>
  Verification development for the RPC repository under \<open>src/\<close>.  File names below are relative to it.

  \<^bold>\<open>The program.\<close>  The core is the transport of a parameter server, \<open>even-http/ps/core\<close>: a scheduler, servers
  and workers that find each other over TCP.  Every node has a TCP client to the scheduler and to the servers;
  the scheduler and the servers have a TCP server.  Both use one message handler that cuts the byte stream into
  frames.  The scheduler keeps its book of nodes in the node manager.  On top of it \<open>mindspore/ps\<close> distributes
  embedding tables over the servers.  The same directory has an HTTP client and server, a thread pool, and
  utilities.  \<open>log/utils\<close> has the bounds-checked memory routines, integer conversions and the log adapter all of it
  uses.  The other directories are separate programs: \<open>event-tcp\<close>, \<open>consistent_hash\<close>, the examples of
  \<open>libevent-example\<close>, and small clients and servers over gRPC, Seastar, asio and ZeroMQ.

  \<^bold>\<open>Conventions.\<close>  A class is a record whose fields are its members, a method is a function that takes the
  record and returns it updated, a callback of the event loop is a function from an event to a new state.  A
  result of type \<open>exn + 'a\<close> is an exception of \<open>MS_LOG(EXCEPTION)\<close> or of the standard library (\<open>MsException\<close>), or
  behaviour the language leaves undefined (\<open>Undefined\<close>), or a value.  Fixed-width integers are words, or
  integers with the wrap-around written out (\<open>int32\<close>); \<open>std::map\<close> and \<open>std::unordered_map\<close> are association
  lists, so that the entries that \<open>operator[]\<close> leaves behind are visible.  Code outside the repository is an
  argument: libevent and sockets by the results of their calls and the events they report, protobuf by a record
  of codecs, the clock, OpenSSL, boost's hash.  Threads are sequences of events, one event for each critical
  section.  Loops are recursive functions with termination proofs; there is no fuel and no bound on the length of
  runs, streams, tables or clusters except the hypotheses of the lemmas, which name the ranges of the C++ types.

  \<^bold>\<open>Theories and what they show.\<close>

  \<^item> \<open>Prelude\<close>: machine types, failures, little-endian images, and the interfaces of the development.
    \<open>stream_parser\<close>, \<open>framing\<close> and \<open>embedded_parser\<close> are the contract of a receiver that is fed pieces of a stream;
    \<open>component\<close> is the contract of a state whose operations keep an invariant and respect a relation in time.
  \<^item> \<open>Securec\<close> (\<open>log/utils/memcpy_s.c\<close>, \<open>memset_s.c\<close>, \<open>memmove_s.c\<close>, \<open>securecutil.h\<close>, \<open>securec.h\<close>): the routines
    over an explicit memory; their return tables, that the unrolled fast paths equal the C library, overlapping
    moves, and the buffer view \<open>memcpy_s_at\<close> the callers use.
  \<^item> \<open>Convert_Utils\<close>, \<open>Float_Conversions\<close> (\<open>log/utils/convert_utils_base.h\<close>): which conversions check what, rounding of
    integers to \<open>float\<close> and \<open>double\<close>, and the two values that slip through the check of \<open>FloatToSize\<close>.
  \<^item> \<open>Log_Config\<close> (\<open>log/utils/log_adapter.cc\<close>): the lexer and parser of the log levels accept exactly the grammar
    in the comment of the source; levels of submodules; the time stamp.
  \<^item> \<open>Tcp_Message\<close> (\<open>tcp_message_handler.cc\<close>, both \<open>SendMessage\<close>): sent frames are received whatever the pieces of
    the stream; malformed headers.  Interpreted as \<open>framing\<close> (\<open>tcp_rx\<close>).
  \<^item> \<open>Comm_Messages\<close> (\<open>protos/comm.proto\<close>, \<open>node_info.h\<close>, \<open>message.h\<close>) and \<open>Sample_Codecs\<close>, which shows that the contract of the
    codecs can be met.
  \<^item> \<open>Comm_Util\<close> (\<open>comm_util.cc\<close>, \<open>cluster_config.cc\<close>): the language of the address pattern, retry, identifiers,
    configuration.
  \<^item> \<open>File_Configuration\<close> (\<open>file_configuration.cc\<close>): what is put is persistent, and a failed \<open>Put\<close> destroys the file.  The
    JSON library is an argument with named laws, and a small library that satisfies them.
  \<^item> \<open>Node_Manager\<close> (\<open>node_manager.cc\<close>): ranks are distinct and consecutive and never change; the timer update.
    Interpreted as \<open>component\<close> (\<open>nm\<close>).
  \<^item> \<open>Tcp_Server\<close>, \<open>Tcp_Client\<close> (\<open>tcp_server.cc\<close>, \<open>tcp_client.cc\<close>): the callbacks deliver what was sent; the table of
    connections implements a set; broadcast, reconnection and shutdown.  Interpretations \<open>conn_rx\<close>, \<open>srv_rx\<close>, \<open>srv\<close>,
    \<open>cli_member\<close>, \<open>cli_rx\<close>.
  \<^item> \<open>Node_Base\<close>, \<open>Scheduler_Node\<close>, \<open>Abstract_Node\<close>, \<open>Cluster_Nodes\<close> (\<open>node.cc\<close>, \<open>scheduler_node.cc\<close>, \<open>abstract_node.cc\<close>,
    \<open>server_node.cc\<close>, \<open>worker_node.cc\<close>): the registration handshake through the TCP layer, safety of the scheduler
    under any interleaving (\<open>sched\<close>), that a complete cluster becomes ready, request tracking, collective messages
    as a queue per rank, and requests with their responses.
  \<^item> \<open>Ps_Worker\<close> (\<open>mindspore/ps/worker.cc\<close>, \<open>util.cc\<close>, \<open>embedding_table_shard_metadata.cc\<close>): row shares, table ranges
    partition the rows, and what each slicer sends to each server.
  \<^item> \<open>Thread_Pool\<close> (\<open>thread_pool.cc\<close>, \<open>count_down_latch.cc\<close>): the counters of the pool agree with its threads in
    every interleaving, dispatching ends, and what a spurious wakeup does.
  \<^item> \<open>Http_Handler\<close>, \<open>Http_Server\<close> (\<open>http_message_handler.cc\<close>, \<open>http_client.cc\<close>, \<open>http_server.cc\<close>, \<open>worker_queue.cc\<close>):
    a response body is delivered, responses without a length overflow, the life of a server and its routes.
  \<^item> \<open>Msg_Parser\<close> (\<open>event-tcp/proto_utils.cpp\<close>, \<open>proto_client.cpp\<close>, \<open>proto_server.cpp\<close>): messages over a stream,
    clients and servers.  Interpretations \<open>msg_rx\<close>, \<open>mc_rx\<close>.
  \<^item> \<open>Consistent_Hash\<close> (\<open>consistent_hash/consistent_hash.h\<close>, \<open>example.cpp\<close>): the ring is well formed, \<open>find\<close> returns the
    clockwise owner, changes of the ring move as little as possible, and the printed shares.  \<open>Ring_Demo\<close>
    (\<open>test.cpp\<close>): the test program is defined exactly when no two of its nodes collide.
  \<^item> \<open>Work_Queue\<close> (\<open>libevent-example/multithread\<close>): the linked list as a stack, jobs run at most once, the mutex an
    ended worker keeps (\<open>wq\<close>), and the echo server's buffers and releases.
  \<^item> \<open>Relay\<close> (\<open>libevent-example/message.cpp\<close>, \<open>even-http/ps/core/fsm.cpp\<close>): packets are forwarded whole and in order;
    the state machine.
  \<^item> \<open>Rot13_Server\<close> (\<open>libevent-example/example/server3.cpp\<close>, \<open>server2.cpp\<close>): bounds of the line buffer and of the table
    of descriptors, and that the two servers send the same answers.
  \<^item> \<open>Event_Examples\<close> (the callbacks of the other servers and clients of \<open>libevent-example\<close>, the session of
    \<open>asio/async_tcp_echo_server.cpp\<close>): which input overflows an array, and that a block circulates between the echo
    server and its client.
  \<^item> \<open>Seastar_Demo\<close> (\<open>seastar/tcp_sctp_server_demo.cpp\<close>, \<open>tcp_sctp_client_demo.cpp\<close>): every test of the client ends
    with its expected result under every interleaving with the server; the reports.
  \<^item> \<open>Greeter\<close> (\<open>grpc/src\<close>): the state machine of the asynchronous server together with the asynchronous client; every
    greeting is printed once, and no completed operation finds its object deleted.
  \<^item> \<open>Zmq_Helpers\<close> (\<open>zeromq/zhelpers.hpp\<close>): random identities, the dump of a message, and the time of a sleep.

  Properties named by a claim number are the statements about the program; the other lemmas support them.  A
  property with hypotheses is followed by a closed instance, its witness.  Several properties state what the code
  does where that is not what its comments promise.

  \<^bold>\<open>Not modelled.\<close>  \<open>ssl_util\<close> (calls of OpenSSL), \<open>slog.h\<close> and \<open>overload.h\<close> (printing), \<open>parameter_server\<close> (empty bodies),
  \<open>builder\<close> (setters), writing of log lines (glog), the creation of sockets, listeners and event loops in the main
  programs, the command lines and timing loops of the benchmarks, the unit tests, the examples that only call their
  library (\<open>hello-world\<close>, \<open>signal-test\<close>, \<open>uuid\<close>, \<open>test\<close> and \<open>test1\<close> of \<open>libevent-example\<close>, \<open>asioclient\<close>, \<open>asioserver\<close>,
  \<open>hwclient\<close>, \<open>hwserver\<close>, \<open>tls_echo_server.h\<close>), and the programs over brpc and ps-lite.  Time is only what the clock
  returns; memory allocation is taken to succeed except where a definition has an argument for it.  Data races on fields that the code reads without a lock are not modelled: such a read
  is part of the event it occurs in, except in \<open>Work_Queue\<close>, where the walk over the workers is several events.
\<close>

end
